(* ===== verification/Prelude.thy ===== *)
theory Prelude
  imports Main "HOL-Library.Word" "HOL-Library.Sublist"
begin

text \<open>
  What every component of the model shares: the fact collections, the values of Go's
  \<open>error\<close> interface, the parts of Go's standard library the source calls
  (\<open>strings\<close>, \<open>errors\<close>, \<open>context\<close>, \<open>time\<close>, buffered channels, 64-bit integers),
  the type of an operation on the outside world, and the generic lemmas on them.

  The outside world (Redis, the Kubernetes API server, the clock, other clients) is a
  value of an arbitrary type \<open>'w\<close> that every operation takes and returns.
\<close>

named_theorems go_std \<open>defining equations of the Go standard library functions used\<close>
named_theorems ids \<open>facts on identifiers and their prefixes\<close>
named_theorems component_defs \<open>definitions of the operations of a component\<close>

section \<open>Operations on the world\<close>

type_synonym ('w, 'a) op = "'w \<Rightarrow> 'a \<times> 'w"

section \<open>Errors\<close>

text \<open>
  The sentinel errors of the source and of the libraries it compares with
  (\<open>redis.Nil\<close>, \<open>context.DeadlineExceeded\<close>, \<open>context.Canceled\<close>), errors known
  by their text only (\<open>errors.New\<close>, and \<open>fmt.Errorf\<close> with \<open>%v\<close>, which keeps no
  chain), network errors with their \<open>Temporary()\<close> flag, and \<open>fmt.Errorf\<close> with
  \<open>%w\<close>, which wraps.
\<close>

datatype err =
    ErrEmptyID
  | ErrNotFound
  | ErrConcurrentCreationFailed
  | ErrPoolEmpty
  | RedisNil
  | DeadlineExceeded
  | Canceled
  | ErrText string
  | NetErr string bool
  | ErrWrap string err

fun error_text :: "err \<Rightarrow> string" where
  "error_text ErrEmptyID = ''ID cannot be empty''"
| "error_text ErrNotFound = ''not found''"
| "error_text ErrConcurrentCreationFailed = ''concurrent sandbox creation failed''"
| "error_text ErrPoolEmpty = ''pool is empty''"
| "error_text RedisNil = ''redis: nil''"
| "error_text DeadlineExceeded = ''context deadline exceeded''"
| "error_text Canceled = ''context canceled''"
| "error_text (ErrText s) = s"
| "error_text (NetErr s tmp) = s"
| "error_text (ErrWrap s e) = s @ error_text e"

text \<open>\<open>errors.Is\<close>: the error itself or one it wraps.\<close>

fun errors_is :: "err \<Rightarrow> err \<Rightarrow> bool" where
  "errors_is (ErrWrap s e) t = (ErrWrap s e = t \<or> errors_is e t)"
| "errors_is e t = (e = t)"

text \<open>\<open>fmt.Errorf(msg + "%v", err)\<close>: the text survives, the chain does not.\<close>

definition errorf_v :: "string \<Rightarrow> err \<Rightarrow> err" where
  "errorf_v msg e = ErrText (msg @ error_text e)"

lemma errors_is_errorf_v [simp]:
  "errors_is (errorf_v msg e) t \<longleftrightarrow> t = ErrText (msg @ error_text e)"
  by (auto simp: errorf_v_def)

section \<open>Strings\<close>

definition trim_prefix :: "string \<Rightarrow> string \<Rightarrow> string" where
  "trim_prefix p s = (if prefix p s then drop (length p) s else s)"

fun str_contains :: "string \<Rightarrow> string \<Rightarrow> bool" where
  "str_contains sub [] = (sub = [])"
| "str_contains sub (c # cs) = (prefix sub (c # cs) \<or> str_contains sub cs)"

text \<open>\<open>strings.SplitN(s, sep, n)\<close> for a one-character separator and \<open>n \<ge> 0\<close>.\<close>

fun split_n :: "nat \<Rightarrow> char \<Rightarrow> string \<Rightarrow> string list" where
  "split_n 0 c s = []"
| "split_n (Suc 0) c s = [s]"
| "split_n (Suc (Suc n)) c s =
     (if c \<in> set s
      then takeWhile (\<lambda>x. x \<noteq> c) s # split_n (Suc n) c (tl (dropWhile (\<lambda>x. x \<noteq> c) s))
      else [s])"

text \<open>\<open>fmt\<close>'s \<open>%d\<close>.\<close>

fun show_nat :: "nat \<Rightarrow> string" where
  "show_nat n =
     (if n < 10 then [char_of (48 + n)] else show_nat (n div 10) @ [char_of (48 + n mod 10)])"

declare show_nat.simps [simp del]

definition show_int :: "int \<Rightarrow> string" where
  "show_int i = (if i < 0 then CHR ''-'' # show_nat (nat (- i)) else show_nat (nat i))"

lemma trim_prefix_append [simp]: "trim_prefix p (p @ s) = s"
  by (simp add: trim_prefix_def)

lemma trim_prefix_no [simp]: "\<not> prefix p s \<Longrightarrow> trim_prefix p s = s"
  by (simp add: trim_prefix_def)

lemma trim_prefix_id_iff: "p \<noteq> [] \<Longrightarrow> trim_prefix p s = s \<longleftrightarrow> \<not> prefix p s"
  by (auto simp: trim_prefix_def prefix_def)

lemma trim_prefix_Nil_iff: "trim_prefix p s = [] \<longleftrightarrow> s = [] \<or> s = p"
  by (auto simp: trim_prefix_def prefix_def)

lemma split_n_field:
  assumes "c \<notin> set xs"
  shows "split_n (Suc (Suc n)) c (xs @ c # ys) = xs # split_n (Suc n) c ys"
proof -
  have "\<And>x. x \<in> set xs \<Longrightarrow> x \<noteq> c" using assms by auto
  then show ?thesis by (simp add: takeWhile_append2 dropWhile_append2)
qed

lemma split_n_three:
  assumes "c \<notin> set xs" and "c \<notin> set ys"
  shows "split_n 3 c (xs @ c # ys @ c # zs) = [xs, ys, zs]"
  using assms split_n_field [of c xs 1 "ys @ c # zs"] split_n_field [of c ys 0 zs]
  by (simp add: numeral_3_eq_3)

section \<open>Lists\<close>

lemma in_map_filter: "y \<in> set (List.map_filter f xs) \<longleftrightarrow> (\<exists>x \<in> set xs. f x = Some y)"
  by (induction xs) (auto simp: List.map_filter_simps split: option.splits)

lemma distinct_split_insert:
  assumes "distinct (map f xs)" and "f z \<notin> f ` set xs"
  shows "distinct (map f (filter P xs @ z # filter (\<lambda>x. \<not> P x) xs))"
proof -
  have inj: "inj_on f (set xs)" using assms(1) by (simp add: distinct_map)
  have "f x \<noteq> f y" if "x \<in> set (filter P xs)" and "y \<in> set (filter (\<lambda>x. \<not> P x) xs)" for x y
    using that inj_onD [OF inj, of x y] by auto
  then have "f ` set (filter P xs) \<inter> f ` set (filter (\<lambda>x. \<not> P x) xs) = {}" by blast
  moreover have "distinct (map f (filter P xs))" "distinct (map f (filter (\<lambda>x. \<not> P x) xs))"
    using assms(1) by (rule distinct_map_filter)+
  moreover have "f z \<notin> f ` set (filter P xs)" "f z \<notin> f ` set (filter (\<lambda>x. \<not> P x) xs)"
    using assms(2) by auto
  ultimately show ?thesis
    by (simp only: map_append list.map distinct_append distinct.simps set_map list.set(2) Int_insert_right
        if_False simp_thms)
qed

section \<open>Finite maps\<close>

text \<open>The entries of a finite map, in the order of their keys.\<close>

definition entries :: "('k::linorder \<rightharpoonup> 'v) \<Rightarrow> ('k \<times> 'v) list" where
  "entries m = map (\<lambda>k. (k, the (m k))) (sorted_list_of_set (dom m))"

lemma set_entries: "finite (dom m) \<Longrightarrow> set (entries m) = {(k, v). m k = Some v}"
  by (force simp: entries_def)

lemma distinct_entries [simp]: "distinct (map fst (entries m))"
  by (simp add: entries_def comp_def)

section \<open>Machine integers\<close>

text \<open>Go's \<open>int64\<close> (and \<open>int\<close> on the 64-bit targets): the value after wrap-around.\<close>

definition wrap64 :: "int \<Rightarrow> int" where
  "wrap64 x = (x + 2 ^ 63) mod 2 ^ 64 - 2 ^ 63"

lemma wrap64_bounds: "- (2 ^ 63) \<le> wrap64 x \<and> wrap64 x < 2 ^ 63"
  using pos_mod_bound [of "2 ^ 64" "x + 2 ^ 63"] pos_mod_sign [of "2 ^ 64" "x + 2 ^ 63"]
  unfolding wrap64_def by simp

lemma wrap64_id: "- (2 ^ 63) \<le> x \<Longrightarrow> x < 2 ^ 63 \<Longrightarrow> wrap64 x = x"
  unfolding wrap64_def by (subst mod_pos_pos_trivial) simp_all

section \<open>Time and contexts\<close>

text \<open>Instants and \<open>time.Duration\<close>s are in nanoseconds.\<close>

definition millis :: "int \<Rightarrow> int" where "millis n = n * 1000000"
definition seconds :: "int \<Rightarrow> int" where "seconds n = n * 1000000000"
definition minutes :: "int \<Rightarrow> int" where "minutes n = seconds (60 * n)"
definition hours :: "int \<Rightarrow> int" where "hours n = minutes (60 * n)"

lemmas durations [go_std] = millis_def seconds_def minutes_def hours_def

text \<open>
  A \<open>context.Context\<close>: its deadline, and the instant at which it (or an ancestor) is
  cancelled, if it ever is. The second is chosen by the environment.
\<close>

record ctx =
  deadline :: "int option"
  cancel_at :: "int option"

definition background :: ctx where
  "background = \<lparr>deadline = None, cancel_at = None\<rparr>"

definition with_timeout :: "ctx \<Rightarrow> int \<Rightarrow> int \<Rightarrow> ctx" where
  "with_timeout c t d =
     c\<lparr>deadline := Some (case deadline c of None \<Rightarrow> t + d | Some d' \<Rightarrow> min d' (t + d))\<rparr>"

text \<open>\<open>ctx.Err()\<close> at instant \<open>t\<close>; whichever came first decides the error.\<close>

definition ctx_err :: "ctx \<Rightarrow> int \<Rightarrow> err option" where
  "ctx_err c t =
     (case (cancel_at c, deadline c) of
        (None, None) \<Rightarrow> None
      | (Some a, None) \<Rightarrow> if a \<le> t then Some Canceled else None
      | (None, Some d) \<Rightarrow> if d \<le> t then Some DeadlineExceeded else None
      | (Some a, Some d) \<Rightarrow>
          if a \<le> t \<and> a < d then Some Canceled
          else if d \<le> t then Some DeadlineExceeded else None)"

lemma ctx_err_background [simp]: "ctx_err background t = None"
  by (simp add: ctx_err_def background_def)

lemma ctx_err_deadline: "deadline c = Some d \<Longrightarrow> d \<le> t \<Longrightarrow> ctx_err c t \<noteq> None"
  by (auto simp: ctx_err_def split: option.splits)

lemma ctx_err_cases: "ctx_err c t = Some e \<Longrightarrow> e = Canceled \<or> e = DeadlineExceeded"
  by (auto simp: ctx_err_def split: option.splits if_splits)

lemma with_timeout_deadline:
  "\<exists>d'. deadline (with_timeout c t d) = Some d' \<and> d' \<le> t + d"
  by (auto simp: with_timeout_def split: option.splits)

text \<open>
  A goroutine blocked in a \<open>select\<close> on \<open>ctx.Done()\<close> and a ticker. While it sleeps the
  world moves on (\<open>wake_env\<close>: other clients, expiry, the clock). When it wakes the
  context decides: not done, the ticker fired; done, both may be ready and the runtime
  picks one (\<open>wake_tick\<close>).
\<close>

record 'w wake =
  wake_env :: "'w \<Rightarrow> 'w"
  wake_tick :: bool

text \<open>While a goroutine sleeps, time does not run backwards.\<close>

definition clock_wakes :: "('w \<Rightarrow> int) \<Rightarrow> 'w wake list \<Rightarrow> bool" where
  "clock_wakes clk wks \<longleftrightarrow> (\<forall>wk \<in> set wks. \<forall>w. clk w \<le> clk (wake_env wk w))"

lemma clock_wakes_simps [simp]:
  "clock_wakes clk []"
  "clock_wakes clk (wk # wks) \<longleftrightarrow> (\<forall>w. clk w \<le> clk (wake_env wk w)) \<and> clock_wakes clk wks"
  by (auto simp: clock_wakes_def)

text \<open>
  A ticker of period \<open>d\<close> started at \<open>t\<close>: its \<open>n\<close>-th wake-up is not before \<open>t + n * d\<close>,
  unless the context is done by then.
\<close>

fun ticks_from :: "int \<Rightarrow> ('w \<Rightarrow> int) \<Rightarrow> ctx \<Rightarrow> int \<Rightarrow> 'w wake list \<Rightarrow> bool" where
  "ticks_from d clk c t [] \<longleftrightarrow> True"
| "ticks_from d clk c t (wk # wks) \<longleftrightarrow>
     (\<forall>w. t + d \<le> clk (wake_env wk w) \<or> ctx_err c (clk (wake_env wk w)) \<noteq> None) \<and>
     ticks_from d clk c (t + d) wks"

text \<open>The process's own sources: \<open>time.Now()\<close> and the first byte of \<open>uuid.New()\<close>.\<close>

record 'w runtime =
  rt_now :: "'w \<Rightarrow> int"
  rt_uuid0 :: "('w, 8 word) op"

section \<open>Buffered channels\<close>

record 'a chan =
  chan_buf :: "'a list"
  chan_cap :: nat
  chan_closed :: bool

datatype send_result = Sent | Full | SendPanic

text \<open>A \<open>select\<close> with a send and a \<open>default\<close>; sending on a closed channel panics.\<close>

definition chan_try_send :: "'a \<Rightarrow> 'a chan \<Rightarrow> send_result \<times> 'a chan" where
  "chan_try_send x ch =
     (if chan_closed ch then (SendPanic, ch)
      else if length (chan_buf ch) < chan_cap ch
      then (Sent, ch\<lparr>chan_buf := chan_buf ch @ [x]\<rparr>)
      else (Full, ch))"

definition chan_close :: "'a chan \<Rightarrow> 'a chan" where
  "chan_close ch = ch\<lparr>chan_closed := True\<rparr>"

definition chan_wf :: "'a chan \<Rightarrow> bool" where
  "chan_wf ch \<longleftrightarrow> length (chan_buf ch) \<le> chan_cap ch"

lemma chan_try_send_wf: "chan_wf ch \<Longrightarrow> chan_wf (snd (chan_try_send x ch))"
  by (simp add: chan_wf_def chan_try_send_def)

end
