(* ===== verification/Redis_API.thy ===== *)
theory Redis_API
  imports Prelude "HOL-Library.List_Lexorder" "HOL-Library.Char_ord"
begin

text \<open>
  The interface of the \<open>go-redis\<close> client as the source calls it. Neither the client nor
  the server is in the repository: the client is a parameter of the model (a record of
  functions on the world), and what the source relies on is the contract
  \<open>redis_server\<close>, which states the documented behaviour of each command.
\<close>

section \<open>The client\<close>

text \<open>Commands queued on a pipeline; durations are in nanoseconds.\<close>

datatype pcmd =
    PSet string string int
  | PDel string
  | PSAdd string string
  | PSRem string string
  | PExpire string int
  | PPublish string string
  | PGet string

text \<open>
  \<open>rd_Exec\<close> runs a pipeline (\<open>True\<close>: a transaction); it returns the error of \<open>Exec\<close>
  (the first error of a command) and, for each command, its own result.
\<close>

record 'w redis =
  rd_Get :: "ctx \<Rightarrow> string \<Rightarrow> ('w, err + string) op"
  rd_SetNX :: "ctx \<Rightarrow> string \<Rightarrow> string \<Rightarrow> int \<Rightarrow> ('w, err + bool) op"
  rd_Exists :: "ctx \<Rightarrow> string \<Rightarrow> ('w, err + int) op"
  rd_Del :: "ctx \<Rightarrow> string \<Rightarrow> ('w, err + int) op"
  rd_SMembers :: "ctx \<Rightarrow> string \<Rightarrow> ('w, err + string list) op"
  rd_ZAdd :: "ctx \<Rightarrow> string \<Rightarrow> int \<Rightarrow> string \<Rightarrow> ('w, err + int) op"
  rd_ZPopMin :: "ctx \<Rightarrow> string \<Rightarrow> int \<Rightarrow> ('w, err + (int \<times> string) list) op"
  rd_ZCard :: "ctx \<Rightarrow> string \<Rightarrow> ('w, err + int) op"
  rd_ZRange :: "ctx \<Rightarrow> string \<Rightarrow> int \<Rightarrow> int \<Rightarrow> ('w, err + (int \<times> string) list) op"
  rd_ZRem :: "ctx \<Rightarrow> string \<Rightarrow> string \<Rightarrow> ('w, err + int) op"
  rd_Exec :: "ctx \<Rightarrow> bool \<Rightarrow> pcmd list \<Rightarrow> ('w, err option \<times> (err + string) list) op"

section \<open>The documented data model\<close>

text \<open>
  One keyspace: a key holds a string, a set or a sorted set (members with a score, in
  the order of scores), and may have an expiry instant. \<open>pubs\<close> is what was published.
\<close>

datatype rval = RStr string | RSet "string set" | RZSet "(int \<times> string) list"

record redis_db =
  keys :: "string \<rightharpoonup> rval \<times> int option"
  pubs :: "(string \<times> string) list"

definition alive :: "int \<Rightarrow> int option \<Rightarrow> bool" where
  "alive t e \<longleftrightarrow> (case e of None \<Rightarrow> True | Some d \<Rightarrow> t < d)"

definition lookup :: "int \<Rightarrow> redis_db \<Rightarrow> string \<Rightarrow> rval option" where
  "lookup t D k = (case keys D k of None \<Rightarrow> None | Some (v, e) \<Rightarrow> if alive t e then Some v else None)"

definition put :: "string \<Rightarrow> rval \<Rightarrow> int option \<Rightarrow> redis_db \<Rightarrow> redis_db" where
  "put k v e D = D\<lparr>keys := (keys D)(k \<mapsto> (v, e))\<rparr>"

definition del :: "string \<Rightarrow> redis_db \<Rightarrow> redis_db" where
  "del k D = D\<lparr>keys := (keys D)(k := None)\<rparr>"

definition publish :: "string \<Rightarrow> string \<Rightarrow> redis_db \<Rightarrow> redis_db" where
  "publish ch m D = D\<lparr>pubs := pubs D @ [(ch, m)]\<rparr>"

definition expiry :: "int \<Rightarrow> redis_db \<Rightarrow> string \<Rightarrow> int option" where
  "expiry t D k = (case keys D k of None \<Rightarrow> None | Some (v, e) \<Rightarrow> if alive t e then e else None)"

definition smembers :: "int \<Rightarrow> redis_db \<Rightarrow> string \<Rightarrow> string set" where
  "smembers t D k = (case lookup t D k of Some (RSet M) \<Rightarrow> M | _ \<Rightarrow> {})"

definition zmembers :: "int \<Rightarrow> redis_db \<Rightarrow> string \<Rightarrow> (int \<times> string) list" where
  "zmembers t D k = (case lookup t D k of Some (RZSet Z) \<Rightarrow> Z | _ \<Rightarrow> [])"

definition zdel :: "string \<Rightarrow> (int \<times> string) list \<Rightarrow> (int \<times> string) list" where
  "zdel m Z = filter (\<lambda>(s, n). n \<noteq> m) Z"

text \<open>Ordered by score, then by member; a member has one entry.\<close>

definition zless :: "int \<times> string \<Rightarrow> int \<times> string \<Rightarrow> bool" where
  "zless x y \<longleftrightarrow> fst x < fst y \<or> (fst x = fst y \<and> snd x < snd y)"

definition zadd :: "int \<Rightarrow> string \<Rightarrow> (int \<times> string) list \<Rightarrow> (int \<times> string) list" where
  "zadd s m Z =
     (let Y = zdel m Z
      in filter (\<lambda>x. zless x (s, m)) Y @ (s, m) # filter (\<lambda>x. \<not> zless x (s, m)) Y)"

text \<open>A set or sorted set that becomes empty is deleted; otherwise the expiry is kept.\<close>

definition sput :: "int \<Rightarrow> string \<Rightarrow> string set \<Rightarrow> redis_db \<Rightarrow> redis_db" where
  "sput t k M D = (if M = {} then del k D else put k (RSet M) (expiry t D k) D)"

definition zput :: "int \<Rightarrow> string \<Rightarrow> (int \<times> string) list \<Rightarrow> redis_db \<Rightarrow> redis_db" where
  "zput t k Z D = (if Z = [] then del k D else put k (RZSet Z) (expiry t D k) D)"

fun run_pcmd :: "int \<Rightarrow> pcmd \<Rightarrow> redis_db \<Rightarrow> redis_db" where
  "run_pcmd t (PSet k v ttl) D = put k (RStr v) (Some (t + ttl)) D"
| "run_pcmd t (PDel k) D = del k D"
| "run_pcmd t (PSAdd k m) D = sput t k (insert m (smembers t D k)) D"
| "run_pcmd t (PSRem k m) D = sput t k (smembers t D k - {m}) D"
| "run_pcmd t (PExpire k ttl) D =
     (case lookup t D k of None \<Rightarrow> D | Some v \<Rightarrow> put k v (Some (t + ttl)) D)"
| "run_pcmd t (PPublish ch m) D = publish ch m D"
| "run_pcmd t (PGet k) D = D"

definition run_pcmds :: "int \<Rightarrow> pcmd list \<Rightarrow> redis_db \<Rightarrow> redis_db" where
  "run_pcmds t cs D = fold (run_pcmd t) cs D"

lemma lookup_put [simp]: "lookup t (put k v e D) k' =
    (if k' = k then (if alive t e then Some v else None) else lookup t D k')"
  by (simp add: lookup_def put_def)

lemma lookup_del [simp]: "lookup t (del k D) k' = (if k' = k then None else lookup t D k')"
  by (simp add: lookup_def del_def)

lemma lookup_publish [simp]: "lookup t (publish ch m D) k = lookup t D k"
  by (simp add: lookup_def publish_def)

lemma pubs_put [simp]: "pubs (put k v e D) = pubs D"
  by (simp add: put_def)

lemma pubs_del [simp]: "pubs (del k D) = pubs D"
  by (simp add: del_def)

lemma pubs_publish [simp]: "pubs (publish ch m D) = pubs D @ [(ch, m)]"
  by (simp add: publish_def)

lemma alive_Some [simp]: "alive t (Some d) \<longleftrightarrow> t < d"
  by (simp add: alive_def)

lemma alive_None [simp]: "alive t None"
  by (simp add: alive_def)

lemma run_pcmds_Nil [simp]: "run_pcmds t [] D = D"
  by (simp add: run_pcmds_def)

lemma run_pcmds_Cons [simp]: "run_pcmds t (c # cs) D = run_pcmds t cs (run_pcmd t c D)"
  by (simp add: run_pcmds_def)

lemma expiry_alive: "alive t (expiry t D k)"
  by (auto simp: expiry_def split: option.splits if_splits)

lemma expiry_no_lookup: "lookup t D k = None \<Longrightarrow> expiry t D k = None"
  by (auto simp: expiry_def lookup_def split: option.splits if_splits)

lemma lookup_sput: "lookup t (sput t' k M D) k' =
    (if k' = k then (if M \<noteq> {} \<and> alive t (expiry t' D k) then Some (RSet M) else None)
     else lookup t D k')"
  by (simp add: sput_def)

lemma lookup_zput: "lookup t (zput t' k Z D) k' =
    (if k' = k then (if Z \<noteq> [] \<and> alive t (expiry t' D k) then Some (RZSet Z) else None)
     else lookup t D k')"
  by (simp add: zput_def)

lemma zmembers_zput_same [simp]: "zmembers t (zput t k Z D) k = Z"
  by (simp add: zmembers_def lookup_zput expiry_alive)

lemma zmembers_zput_other [simp]: "k' \<noteq> k \<Longrightarrow> zmembers t (zput t' k Z D) k' = zmembers t D k'"
  by (simp add: zmembers_def lookup_zput)

lemma pubs_sput [simp]: "pubs (sput t k M D) = pubs D"
  by (simp add: sput_def)

lemma pubs_zput [simp]: "pubs (zput t k Z D) = pubs D"
  by (simp add: zput_def)

lemma lookup_later: "lookup t' D k = Some v \<Longrightarrow> t \<le> t' \<Longrightarrow> lookup t D k = Some v"
  by (auto simp: lookup_def alive_def split: option.splits if_splits)

lemma smembers_put [simp]: "smembers t (put k v e D) k' =
    (if k' = k then (if alive t e then (case v of RSet M \<Rightarrow> M | _ \<Rightarrow> {}) else {}) else smembers t D k')"
  by (simp add: smembers_def split: rval.splits)

lemma smembers_del [simp]: "smembers t (del k D) k' = (if k' = k then {} else smembers t D k')"
  by (simp add: smembers_def)

lemma smembers_publish [simp]: "smembers t (publish ch m D) k = smembers t D k"
  by (simp add: smembers_def)

section \<open>Sorted sets\<close>

text \<open>Sorted sets are in strict order and hold a member once; adding and removing keep that.\<close>

definition zset_wf :: "(int \<times> string) list \<Rightarrow> bool" where
  "zset_wf Z \<longleftrightarrow> sorted_wrt zless Z \<and> distinct (map snd Z)"

lemma zless_total: "snd x \<noteq> snd y \<Longrightarrow> \<not> zless x y \<Longrightarrow> zless y x"
  by (auto simp: zless_def)

lemma zless_trans: "zless x y \<Longrightarrow> zless y z \<Longrightarrow> zless x z"
  by (auto simp: zless_def)

lemma zset_wf_Nil [simp]: "zset_wf []"
  by (simp add: zset_wf_def)

lemma zset_wf_filter: "zset_wf Z \<Longrightarrow> zset_wf (filter P Z)"
  by (simp add: zset_wf_def sorted_wrt_filter distinct_map_filter)

lemma zset_wf_zdel: "zset_wf Z \<Longrightarrow> zset_wf (zdel m Z)"
  by (simp add: zdel_def zset_wf_filter)

lemma zset_wf_drop: "zset_wf Z \<Longrightarrow> zset_wf (drop n Z)"
  by (simp add: zset_wf_def sorted_wrt_drop drop_map [symmetric])

lemma in_zdel: "x \<in> set (zdel m Z) \<longleftrightarrow> x \<in> set Z \<and> snd x \<noteq> m"
  by (cases x) (auto simp: zdel_def)

lemma set_zadd: "set (zadd s m Z) = insert (s, m) (set (zdel m Z))"
  by (auto simp: zadd_def Let_def)

lemma zset_wf_zadd: "zset_wf Z \<Longrightarrow> zset_wf (zadd s m Z)"
proof -
  assume "zset_wf Z"
  then have wf: "sorted_wrt zless (zdel m Z)" "distinct (map snd (zdel m Z))"
    using zset_wf_zdel [of Z m] by (simp_all add: zset_wf_def)
  let ?Y = "zdel m Z"
  let ?lo = "filter (\<lambda>x. zless x (s, m)) ?Y" and ?hi = "filter (\<lambda>x. \<not> zless x (s, m)) ?Y"
  have hi: "zless (s, m) x" if "x \<in> set ?hi" for x
    using that zless_total [of x "(s, m)"] by (auto simp: in_zdel)
  have "sorted_wrt zless (?lo @ (s, m) # ?hi)"
    using wf(1) hi by (auto simp: sorted_wrt_append sorted_wrt_filter intro: zless_trans)
  moreover have "distinct (map snd (?lo @ (s, m) # ?hi))"
    by (rule distinct_split_insert [OF wf(2)]) (auto simp: in_zdel)
  ultimately show ?thesis by (simp add: zadd_def zset_wf_def Let_def)
qed

lemma length_zadd: "length (zadd s m Z) = Suc (length (zdel m Z))"
  using sum_length_filter_compl [of "\<lambda>x. zless x (s, m)" "zdel m Z"] by (simp add: zadd_def Let_def)

lemma zdel_absent: "m \<notin> snd ` set Z \<Longrightarrow> zdel m Z = Z"
  by (force simp: zdel_def filter_id_conv)

lemma length_zdel: "distinct (map snd Z) \<Longrightarrow> m \<in> snd ` set Z \<Longrightarrow> Suc (length (zdel m Z)) = length Z"
proof (induction Z)
  case (Cons z Z)
  then show ?case
  proof (cases "snd z = m")
    case True
    then have "zdel m (z # Z) = zdel m Z" by (simp add: zdel_def split_beta)
    then show ?thesis using True Cons.prems(1) zdel_absent [of m Z] by simp
  next
    case False
    then have "zdel m (z # Z) = z # zdel m Z" by (simp add: zdel_def split_beta)
    then show ?thesis using False Cons by auto
  qed
qed simp

text \<open>A key that never expires: its content does not depend on the instant.\<close>

definition no_expiry :: "redis_db \<Rightarrow> string \<Rightarrow> bool" where
  "no_expiry D k \<longleftrightarrow> (case keys D k of None \<Rightarrow> True | Some (v, e) \<Rightarrow> e = None)"

lemma no_expiry_zmembers: "no_expiry D k \<Longrightarrow> zmembers t D k = zmembers 0 D k"
  by (auto simp: no_expiry_def zmembers_def lookup_def split: option.splits)

lemma no_expiry_put: "no_expiry D k \<Longrightarrow> zmembers t (zput t' k Z D) k = Z"
  by (auto simp: no_expiry_def zmembers_def lookup_zput expiry_def split: option.splits)

lemma no_expiry_zput [simp]: "no_expiry D k \<Longrightarrow> no_expiry (zput t k' Z D) k"
  by (auto simp: no_expiry_def zput_def put_def del_def expiry_def split: option.splits)

section \<open>The keys a command touches\<close>

fun cmd_key :: "pcmd \<Rightarrow> string option" where
  "cmd_key (PSet k v ttl) = Some k"
| "cmd_key (PDel k) = Some k"
| "cmd_key (PSAdd k m) = Some k"
| "cmd_key (PSRem k m) = Some k"
| "cmd_key (PExpire k ttl) = Some k"
| "cmd_key (PPublish ch m) = None"
| "cmd_key (PGet k) = None"

lemma keys_put_other [simp]: "x \<noteq> k \<Longrightarrow> keys (put k v e D) x = keys D x"
  by (simp add: put_def)

lemma keys_del_other [simp]: "x \<noteq> k \<Longrightarrow> keys (del k D) x = keys D x"
  by (simp add: del_def)

lemma keys_sput_other [simp]: "x \<noteq> k \<Longrightarrow> keys (sput t k M D) x = keys D x"
  by (simp add: sput_def)

lemma keys_zput_other [simp]: "x \<noteq> k \<Longrightarrow> keys (zput t k Z D) x = keys D x"
  by (simp add: zput_def)

lemma keys_publish [simp]: "keys (publish ch m D) = keys D"
  by (simp add: publish_def)

lemma run_pcmd_other: "cmd_key c \<noteq> Some x \<Longrightarrow> keys (run_pcmd t c D) x = keys D x"
  by (cases c) (simp_all split: option.splits)

lemma run_pcmds_other:
  "Some x \<notin> cmd_key ` set cs \<Longrightarrow> keys (run_pcmds t cs D) x = keys D x"
  by (induction cs arbitrary: D) (auto simp: run_pcmd_other)

text \<open>The same for a part of a pipeline.\<close>

lemma run_part_other:
  assumes "subseq cs' cs" and "Some x \<notin> cmd_key ` set cs"
  shows "keys (run_pcmds t cs' D) x = keys D x"
proof -
  have "set cs' \<subseteq> set cs" using assms(1) by (auto elim: list_emb_set)
  then show ?thesis using assms(2) by (intro run_pcmds_other) blast
qed

section \<open>What the server promises\<close>

text \<open>The moves of the world that a call of the client makes.\<close>

inductive redis_move :: "'w redis \<Rightarrow> 'w \<Rightarrow> 'w \<Rightarrow> bool" for R where
  "rd_Get R c k w = (r, w') \<Longrightarrow> redis_move R w w'"
| "rd_SetNX R c k v ttl w = (b, w') \<Longrightarrow> redis_move R w w'"
| "rd_Exists R c k w = (n, w') \<Longrightarrow> redis_move R w w'"
| "rd_Del R c k w = (n, w') \<Longrightarrow> redis_move R w w'"
| "rd_SMembers R c k w = (ms, w') \<Longrightarrow> redis_move R w w'"
| "rd_ZAdd R c k s m w = (n, w') \<Longrightarrow> redis_move R w w'"
| "rd_ZPopMin R c k i w = (xs, w') \<Longrightarrow> redis_move R w w'"
| "rd_ZCard R c k w = (n, w') \<Longrightarrow> redis_move R w w'"
| "rd_ZRange R c k i j w = (xs, w') \<Longrightarrow> redis_move R w w'"
| "rd_ZRem R c k m w = (n, w') \<Longrightarrow> redis_move R w w'"
| "rd_Exec R c tx cs w = (x, w') \<Longrightarrow> redis_move R w w'"

text \<open>
  \<open>db w\<close> is the content of the server in world \<open>w\<close> and \<open>clk w\<close> the clock. A command
  that answers was executed at instant \<open>clk w'\<close>, the clock of the world it leaves; a
  command that fails has been executed or not; one whose context is done already is not
  sent. Of a failed pipeline some commands were executed, in their order (a pipeline is not
  atomic); a failed transaction was executed as a whole or not at all. The client's errors
  are its own, not the sentinels of the program.
\<close>

locale redis_server =
  fixes R :: "'w redis" and db :: "'w \<Rightarrow> redis_db" and clk :: "'w \<Rightarrow> int"
  assumes redis_clock: "redis_move R w w' \<Longrightarrow> clk w \<le> clk w'"
    and Get_ok: "rd_Get R c k w = (Inr v, w') \<Longrightarrow> lookup (clk w') (db w) k = Some (RStr v)"
    and Get_nil: "rd_Get R c k w = (Inl RedisNil, w') \<Longrightarrow> lookup (clk w') (db w) k = None"
    and Get_db: "rd_Get R c k w = (r, w') \<Longrightarrow> db w' = db w"
    and Get_done: "rd_Get R c k w = (r, w') \<Longrightarrow> ctx_err c (clk w) \<noteq> None \<Longrightarrow>
      \<exists>e. r = Inl e \<and> e \<noteq> RedisNil"
    and SetNX_set: "rd_SetNX R c k v ttl w = (Inr True, w') \<Longrightarrow>
      lookup (clk w') (db w) k = None \<and> db w' = put k (RStr v) (Some (clk w' + ttl)) (db w)"
    and SetNX_kept: "rd_SetNX R c k v ttl w = (Inr False, w') \<Longrightarrow>
      lookup (clk w') (db w) k \<noteq> None \<and> db w' = db w"
    and SetNX_err: "rd_SetNX R c k v ttl w = (Inl e, w') \<Longrightarrow>
      db w' = db w \<or> (lookup (clk w') (db w) k = None \<and>
        db w' = put k (RStr v) (Some (clk w' + ttl)) (db w))"
    and Exists_ok: "rd_Exists R c k w = (Inr n, w') \<Longrightarrow>
      n = (if lookup (clk w') (db w) k = None then 0 else 1)"
    and Exists_db: "rd_Exists R c k w = (r', w') \<Longrightarrow> db w' = db w"
    and Del_ok: "rd_Del R c k w = (Inr n, w') \<Longrightarrow> db w' = del k (db w)"
    and Del_err: "rd_Del R c k w = (Inl e, w') \<Longrightarrow> db w' = db w \<or> db w' = del k (db w)"
    and SMembers_ok: "rd_SMembers R c k w = (Inr ms, w') \<Longrightarrow> set ms = smembers (clk w') (db w) k"
    and SMembers_db: "rd_SMembers R c k w = (rs, w') \<Longrightarrow> db w' = db w"
    and ZAdd_ok: "rd_ZAdd R c k s m w = (Inr n, w') \<Longrightarrow>
      db w' = zput (clk w') k (zadd s m (zmembers (clk w') (db w) k)) (db w)"
    and ZAdd_err: "rd_ZAdd R c k s m w = (Inl e, w') \<Longrightarrow> db w' = db w \<or>
      db w' = zput (clk w') k (zadd s m (zmembers (clk w') (db w) k)) (db w)"
    and ZPopMin_ok: "rd_ZPopMin R c k i w = (Inr xs, w') \<Longrightarrow>
      xs = take (nat i) (zmembers (clk w') (db w) k) \<and>
      db w' = zput (clk w') k (drop (nat i) (zmembers (clk w') (db w) k)) (db w)"
    and ZPopMin_err: "rd_ZPopMin R c k i w = (Inl e, w') \<Longrightarrow> db w' = db w \<or>
      db w' = zput (clk w') k (drop (nat i) (zmembers (clk w') (db w) k)) (db w)"
    and ZPopMin_foreign: "rd_ZPopMin R c k i w = (Inl e, w') \<Longrightarrow> \<not> errors_is e ErrPoolEmpty"
    and ZCard_ok: "rd_ZCard R c k w = (Inr n, w') \<Longrightarrow> n = int (length (zmembers (clk w') (db w) k))"
    and ZCard_db: "rd_ZCard R c k w = (r', w') \<Longrightarrow> db w' = db w"
    and ZRange_all: "rd_ZRange R c k 0 (-1) w = (Inr xs, w') \<Longrightarrow> xs = zmembers (clk w') (db w) k"
    and ZRange_db: "rd_ZRange R c k i j w = (rx, w') \<Longrightarrow> db w' = db w"
    and ZRem_ok: "rd_ZRem R c k m w = (Inr n, w') \<Longrightarrow>
      db w' = zput (clk w') k (zdel m (zmembers (clk w') (db w) k)) (db w)"
    and ZRem_err: "rd_ZRem R c k m w = (Inl e, w') \<Longrightarrow> db w' = db w \<or>
      db w' = zput (clk w') k (zdel m (zmembers (clk w') (db w) k)) (db w)"
    and Exec_ok: "rd_Exec R c tx cs w = ((None, rr), w') \<Longrightarrow> db w' = run_pcmds (clk w') cs (db w)"
    and Exec_tx: "rd_Exec R c True cs w = ((Some e, rr), w') \<Longrightarrow>
      db w' = db w \<or> db w' = run_pcmds (clk w') cs (db w)"
    and Exec_gets_db: "rd_Exec R c tx (map PGet ks) w = (x, w') \<Longrightarrow> db w' = db w"
    and Exec_gets: "rd_Exec R c tx (map PGet ks) w = ((eo, rr), w') \<Longrightarrow>
      eo = None \<or> eo = Some RedisNil \<Longrightarrow> length rr = length ks \<and>
      (\<forall>i < length ks. (\<forall>v. rr ! i = Inr v \<longrightarrow> lookup (clk w') (db w) (ks ! i) = Some (RStr v)) \<and>
        (rr ! i = Inl RedisNil \<longrightarrow> lookup (clk w') (db w) (ks ! i) = None))"
    and Exec_pipe: "rd_Exec R c tx cs w = ((Some e, rr), w') \<Longrightarrow>
      \<exists>cs'. subseq cs' cs \<and> db w' = run_pcmds (clk w') cs' (db w)"
begin

lemma Exec_db: "rd_Exec R c tx cs w = ((e, rr), w') \<Longrightarrow>
    \<exists>cs'. subseq cs' cs \<and> db w' = run_pcmds (clk w') cs' (db w)"
  by (cases e) (auto dest: Exec_ok Exec_pipe)

lemmas redis_moves = redis_move.intros [THEN redis_clock]

end

end
