(* ===== verification/Kube_API.thy ===== *)
theory Kube_API
  imports Prelude
begin

text \<open>
  The Kubernetes API as the source uses it through \<open>client-go\<close>: the fields of the objects
  it writes and reads, the calls of the clientset (a parameter of the model, a record of
  functions on the world), and the contract \<open>kube_server\<close> with the documented behaviour
  of those calls.
\<close>

section \<open>Objects\<close>

type_synonym labels = "string \<rightharpoonup> string"

datatype pod_phase = PodPending | PodRunning | PodSucceeded | PodFailed | PodUnknown

record pod_condition =
  cond_type :: string
  cond_status :: string
  cond_reason :: string

text \<open>\<open>cs_waiting\<close> is the reason of \<open>State.Waiting\<close>, when that is set.\<close>

record container_status =
  cs_waiting :: "string option"
  cs_ready :: bool

record probe =
  pr_path :: string
  pr_port :: int
  pr_initial_delay :: int
  pr_period :: int
  pr_timeout :: int
  pr_success :: int
  pr_failure :: int

record container =
  ct_name :: string
  ct_image :: string
  ct_args :: "string list"
  ct_pull_policy :: string
  ct_requests :: labels
  ct_limits :: labels
  ct_env :: "(string \<times> string) list"
  ct_liveness :: "probe option"
  ct_startup :: "probe option"

record toleration =
  tol_key :: string
  tol_operator :: string
  tol_value :: string
  tol_effect :: string

record pod_spec =
  sp_containers :: "container list"
  sp_restart_policy :: string
  sp_run_as_non_root :: "bool option"
  sp_run_as_user :: "int option"
  sp_fs_group :: "int option"
  sp_grace_period :: "int option"
  sp_dns_policy :: string
  sp_nameservers :: "string list"
  sp_node_selector :: labels
  sp_tolerations :: "toleration list"
  sp_node_name :: string

record pod =
  pod_name :: string
  pod_namespace :: string
  pod_labels :: labels
  pod_annotations :: labels
  pod_created :: int
  pod_deletion :: "int option"
  pod_spec :: pod_spec
  pod_phase :: pod_phase
  pod_conditions :: "pod_condition list"
  pod_containers :: "container_status list"

record service_port =
  port_name :: string
  port_port :: int
  port_target :: int
  port_protocol :: string

record kservice =
  svc_name :: string
  svc_namespace :: string
  svc_labels :: labels
  svc_annotations :: labels
  svc_cluster_ip :: string
  svc_selector :: labels
  svc_ports :: "service_port list"

record list_options =
  lo_selector :: string
  lo_limit :: int
  lo_continue :: string

section \<open>The clientset\<close>

text \<open>The calls on pods and services of a namespace; \<open>kb_IsNotFound\<close> is \<open>k8serrors.IsNotFound\<close>.\<close>

record 'w kube =
  kb_pod_create :: "ctx \<Rightarrow> string \<Rightarrow> pod \<Rightarrow> ('w, err option) op"
  kb_pod_get :: "ctx \<Rightarrow> string \<Rightarrow> string \<Rightarrow> ('w, err + pod) op"
  kb_pod_delete :: "ctx \<Rightarrow> string \<Rightarrow> string \<Rightarrow> ('w, err option) op"
  kb_pod_list :: "ctx \<Rightarrow> string \<Rightarrow> list_options \<Rightarrow> ('w, err + pod list \<times> string) op"
  kb_svc_get :: "ctx \<Rightarrow> string \<Rightarrow> string \<Rightarrow> ('w, err + kservice) op"
  kb_svc_create :: "ctx \<Rightarrow> string \<Rightarrow> kservice \<Rightarrow> ('w, err option) op"
  kb_svc_update :: "ctx \<Rightarrow> string \<Rightarrow> kservice \<Rightarrow> ('w, err option) op"
  kb_svc_delete :: "ctx \<Rightarrow> string \<Rightarrow> string \<Rightarrow> ('w, err option) op"
  kb_IsNotFound :: "err \<Rightarrow> bool"

inductive kube_move :: "'w kube \<Rightarrow> 'w \<Rightarrow> 'w \<Rightarrow> bool" for K where
  "kb_pod_create K c ns p w = (e, w') \<Longrightarrow> kube_move K w w'"
| "kb_pod_get K c ns n w = (pr, w') \<Longrightarrow> kube_move K w w'"
| "kb_pod_delete K c ns n w = (e, w') \<Longrightarrow> kube_move K w w'"
| "kb_pod_list K c ns lo w = (pl, w') \<Longrightarrow> kube_move K w w'"
| "kb_svc_get K c ns n w = (sr, w') \<Longrightarrow> kube_move K w w'"
| "kb_svc_create K c ns s w = (e, w') \<Longrightarrow> kube_move K w w'"
| "kb_svc_update K c ns s w = (e, w') \<Longrightarrow> kube_move K w w'"
| "kb_svc_delete K c ns n w = (e, w') \<Longrightarrow> kube_move K w w'"

section \<open>What the API server promises\<close>

text \<open>
  \<open>pods w ns\<close> and \<open>svcs w ns\<close> are the objects stored for a namespace. A deleted pod is
  gone or terminating. A list call answers with pods that exist and match the selector
  (the one label selector the source uses). The server keeps the metadata, spec and selector it is given.
\<close>

locale kube_server =
  fixes K :: "'w kube" and pods :: "'w \<Rightarrow> string \<Rightarrow> string \<rightharpoonup> pod"
    and svcs :: "'w \<Rightarrow> string \<Rightarrow> string \<rightharpoonup> kservice"
  assumes pod_create_ok: "kb_pod_create K c ns p w = (None, w') \<Longrightarrow>
      pods w ns (pod_name p) = None \<and>
      (\<exists>p'. pods w' ns = (pods w ns)(pod_name p \<mapsto> p') \<and> pod_name p' = pod_name p \<and>
        pod_labels p' = pod_labels p \<and> pod_spec p' = pod_spec p)"
    and pod_create_err: "kb_pod_create K c ns p w = (Some e, w') \<Longrightarrow>
      pods w' ns = pods w ns \<or> (\<exists>p'. pods w' ns = (pods w ns)(pod_name p \<mapsto> p'))"
    and pod_get_ok: "kb_pod_get K c ns n w = (Inr p, w') \<Longrightarrow> pods w ns n = Some p"
    and pod_get_missing: "kb_pod_get K c ns n w = (Inl e, w') \<Longrightarrow> kb_IsNotFound K e \<Longrightarrow>
      pods w ns n = None"
    and pod_get_pods: "kb_pod_get K c ns n w = (pr, w') \<Longrightarrow> pods w' = pods w"
    and pod_delete_ok: "kb_pod_delete K c ns n w = (None, w') \<Longrightarrow>
      (pods w' ns n = None \<or> (\<exists>p. pods w' ns n = Some p \<and> pod_deletion p \<noteq> None)) \<and>
      (\<forall>m. m \<noteq> n \<longrightarrow> pods w' ns m = pods w ns m)"
    and pod_delete_missing: "kb_pod_delete K c ns n w = (Some e, w') \<Longrightarrow> kb_IsNotFound K e \<Longrightarrow>
      pods w ns n = None \<and> pods w' ns = pods w ns"
    and pod_list_ok: "kb_pod_list K c ns lo w = (Inr (ps, tok), w') \<Longrightarrow> p \<in> set ps \<Longrightarrow>
      pods w ns (pod_name p) = Some p \<and>
      (lo_selector lo = ''managed-by=scheduler'' \<longrightarrow> pod_labels p ''managed-by'' = Some ''scheduler'')"
    and svc_get_ok: "kb_svc_get K c ns n w = (Inr s, w') \<Longrightarrow>
      svcs w ns n = Some s \<and> svc_name s = n"
    and svc_get_svcs: "kb_svc_get K c ns n w = (sr, w') \<Longrightarrow> svcs w' = svcs w"
    and svc_create_ok: "kb_svc_create K c ns s w = (None, w') \<Longrightarrow>
      svcs w ns (svc_name s) = None \<and>
      svcs w' ns = (svcs w ns)(svc_name s \<mapsto> s)"
    and svc_update_ok: "kb_svc_update K c ns s w = (None, w') \<Longrightarrow>
      svcs w' ns = (svcs w ns)(svc_name s \<mapsto> s)"

end
