(* ===== verification/Cluster_Sim.thy ===== *)
theory Cluster_Sim
  imports Redis_API Kube_API
begin

text \<open>
  A concrete world: one Redis keyspace, the objects of a Kubernetes cluster, a clock that
  every call advances by a millisecond, and the two flags that make the servers
  unreachable. It shows that the contracts \<open>redis_server\<close> and \<open>kube_server\<close> can be kept,
  and it is what the concrete runs of the development evaluate on. (A key that holds
  another type than a command expects counts as empty.)
\<close>

record world =
  w_db :: redis_db
  w_clk :: int
  w_up :: bool
  w_pods :: "((string \<times> string) \<times> pod) list"
  w_svcs :: "((string \<times> string) \<times> kservice) list"
  w_kube_up :: bool
  w_uuid :: "8 word"

definition tick :: "world \<Rightarrow> world" where
  "tick w = w\<lparr>w_clk := w_clk w + millis 1\<rparr>"

definition empty_db :: redis_db where
  "empty_db = \<lparr>keys = Map.empty, pubs = []\<rparr>"

definition init_world :: world where
  "init_world = \<lparr>w_db = empty_db, w_clk = seconds 1000, w_up = True, w_pods = [], w_svcs = [],
     w_kube_up = True, w_uuid = 7\<rparr>"

definition sim_runtime :: "world runtime" where
  "sim_runtime = \<lparr>rt_now = w_clk, rt_uuid0 = (\<lambda>w. (w_uuid w, w\<lparr>w_uuid := w_uuid w + 1\<rparr>))\<rparr>"

lemma tick_simps [simp]:
  "w_clk (tick w) = w_clk w + millis 1" "w_db (tick w) = w_db w" "w_up (tick w) = w_up w"
  "w_pods (tick w) = w_pods w" "w_svcs (tick w) = w_svcs w" "w_kube_up (tick w) = w_kube_up w"
  "w_uuid (tick w) = w_uuid w"
  by (simp_all add: tick_def)

section \<open>Redis\<close>

definition down :: err where "down = NetErr ''connection refused'' False"

definition redis_call :: "ctx \<Rightarrow> (int \<Rightarrow> redis_db \<Rightarrow> (err + 'a) \<times> redis_db) \<Rightarrow> (world, err + 'a) op" where
  "redis_call c f w =
     (case ctx_err c (w_clk w) of
        Some e \<Rightarrow> (Inl e, tick w)
      | None \<Rightarrow>
          (if \<not> w_up w then (Inl down, tick w)
           else let (x, D) = f (w_clk w + millis 1) (w_db w) in (x, (tick w)\<lparr>w_db := D\<rparr>)))"

definition get_reply :: "int \<Rightarrow> redis_db \<Rightarrow> string \<Rightarrow> err + string" where
  "get_reply t D k =
     (case lookup t D k of
        None \<Rightarrow> Inl RedisNil
      | Some (RStr v) \<Rightarrow> Inr v
      | Some _ \<Rightarrow> Inl (ErrText ''WRONGTYPE''))"

fun pcmd_reply :: "int \<Rightarrow> redis_db \<Rightarrow> pcmd \<Rightarrow> err + string" where
  "pcmd_reply t D (PGet k) = get_reply t D k"
| "pcmd_reply t D c = Inr ''OK''"

fun exec_replies :: "int \<Rightarrow> pcmd list \<Rightarrow> redis_db \<Rightarrow> (err + string) list" where
  "exec_replies t [] D = []"
| "exec_replies t (c # cs) D = pcmd_reply t D c # exec_replies t cs (run_pcmd t c D)"

fun first_error :: "(err + 'a) list \<Rightarrow> err option" where
  "first_error [] = None"
| "first_error (Inl e # xs) = Some e"
| "first_error (Inr x # xs) = first_error xs"

definition sim_Exec :: "ctx \<Rightarrow> bool \<Rightarrow> pcmd list \<Rightarrow> (world, err option \<times> (err + string) list) op" where
  "sim_Exec c tx cs w =
     (case redis_call c (\<lambda>t D. (Inr (exec_replies t cs D), run_pcmds t cs D)) w of
        (Inl e, w') \<Rightarrow> ((Some e, []), w')
      | (Inr rs, w') \<Rightarrow> ((first_error rs, rs), w'))"

definition sim_redis :: "world redis" where
  "sim_redis =
     \<lparr>rd_Get = (\<lambda>c k. redis_call c (\<lambda>t D. (get_reply t D k, D))),
      rd_SetNX = (\<lambda>c k v ttl. redis_call c (\<lambda>t D.
        if lookup t D k = None then (Inr True, put k (RStr v) (Some (t + ttl)) D) else (Inr False, D))),
      rd_Exists = (\<lambda>c k. redis_call c (\<lambda>t D. (Inr (if lookup t D k = None then 0 else 1), D))),
      rd_Del = (\<lambda>c k. redis_call c (\<lambda>t D. (Inr (if lookup t D k = None then 0 else 1), del k D))),
      rd_SMembers = (\<lambda>c k. redis_call c (\<lambda>t D.
        (if finite (smembers t D k) then Inr (sorted_list_of_set (smembers t D k))
         else Inl down, D))),
      rd_ZAdd = (\<lambda>c k s m. redis_call c (\<lambda>t D. (Inr 1, zput t k (zadd s m (zmembers t D k)) D))),
      rd_ZPopMin = (\<lambda>c k i. redis_call c (\<lambda>t D.
        (Inr (take (nat i) (zmembers t D k)), zput t k (drop (nat i) (zmembers t D k)) D))),
      rd_ZCard = (\<lambda>c k. redis_call c (\<lambda>t D. (Inr (int (length (zmembers t D k))), D))),
      rd_ZRange = (\<lambda>c k i j. redis_call c (\<lambda>t D. (Inr (zmembers t D k), D))),
      rd_ZRem = (\<lambda>c k m. redis_call c (\<lambda>t D. (Inr 1, zput t k (zdel m (zmembers t D k)) D))),
      rd_Exec = sim_Exec\<rparr>"

lemma redis_call_clk: "redis_call c f w = (x, w') \<Longrightarrow> w_clk w' = w_clk w + millis 1"
  by (auto simp: redis_call_def Let_def split: option.splits if_splits prod.splits)

lemma redis_call_Inr:
  "redis_call c f w = (Inr x, w') \<Longrightarrow>
     f (w_clk w') (w_db w) = (Inr x, w_db w') \<and> w_clk w' = w_clk w + millis 1"
  by (auto simp: redis_call_def Let_def split: option.splits if_splits prod.splits)

lemma redis_call_Inl:
  "redis_call c f w = (Inl e, w') \<Longrightarrow> (w_db w' = w_db w \<and> e \<noteq> RedisNil \<and> \<not> errors_is e ErrPoolEmpty) \<or>
     f (w_clk w') (w_db w) = (Inl e, w_db w')"
  by (auto simp: redis_call_def Let_def down_def split: option.splits if_splits prod.splits
      dest: ctx_err_cases)

lemma redis_call_done:
  "redis_call c f w = (x, w') \<Longrightarrow> ctx_err c (w_clk w) \<noteq> None \<Longrightarrow> \<exists>e. x = Inl e \<and> e \<noteq> RedisNil"
  by (auto simp: redis_call_def split: option.splits dest: ctx_err_cases)

lemma redis_call_read:
  "redis_call c (\<lambda>t D. (g t D, D)) w = (x, w') \<Longrightarrow> w_db w' = w_db w"
  by (auto simp: redis_call_def split: option.splits if_splits)

lemma get_reply_simps [simp]:
  "get_reply t D k = Inr v \<longleftrightarrow> lookup t D k = Some (RStr v)"
  "get_reply t D k = Inl RedisNil \<longleftrightarrow> lookup t D k = None"
  by (auto simp: get_reply_def split: option.splits rval.splits)

lemma run_gets [simp]: "run_pcmds t (map PGet ks) D = D"
  by (induction ks) simp_all

lemma replies_gets: "exec_replies t (map PGet ks) D = map (get_reply t D) ks"
  by (induction ks) simp_all

lemma sim_Exec_ok:
  "sim_Exec c tx cs w = ((None, rr), w') \<Longrightarrow> w_db w' = run_pcmds (w_clk w') cs (w_db w)"
  by (auto simp: sim_Exec_def split: prod.splits sum.splits dest: redis_call_Inr)

lemma sim_Exec_err:
  "sim_Exec c tx cs w = (x, w') \<Longrightarrow>
     w_db w' = w_db w \<or> w_db w' = run_pcmds (w_clk w') cs (w_db w)"
  by (auto simp: sim_Exec_def split: prod.splits sum.splits dest: redis_call_Inr redis_call_Inl)

lemma sim_Exec_pipe:
  "sim_Exec c tx cs w = (x, w') \<Longrightarrow> \<exists>cs'. subseq cs' cs \<and> w_db w' = run_pcmds (w_clk w') cs' (w_db w)"
  using sim_Exec_err [of c tx cs w x w'] by (metis run_pcmds_Nil list_emb_Nil subseq_order.order_refl)

lemma sim_Exec_gets:
  "sim_Exec c tx (map PGet ks) w = ((eo, rr), w') \<Longrightarrow> eo = None \<or> eo = Some RedisNil \<Longrightarrow>
     rr = map (get_reply (w_clk w') (w_db w)) ks"
  by (auto simp: sim_Exec_def replies_gets split: prod.splits sum.splits
      dest: redis_call_Inr redis_call_Inl)

lemma sim_Exec_clk: "sim_Exec c tx cs w = (x, w') \<Longrightarrow> w_clk w' = w_clk w + millis 1"
  by (auto simp: sim_Exec_def split: prod.splits sum.splits dest: redis_call_clk)

interpretation sim: redis_server sim_redis w_db w_clk
proof (unfold_locales, goal_cases)
  case (1 w w')
  then show ?case
    by (cases rule: redis_move.cases)
       (auto simp: sim_redis_def millis_def dest!: redis_call_clk sim_Exec_clk)
next
  case (2 c k w v w')
  then show ?case by (auto simp: sim_redis_def dest!: redis_call_Inr)
next
  case (3 c k w w')
  then show ?case by (auto simp: sim_redis_def dest!: redis_call_Inl)
next
  case (13 c k w ms w')
  then show ?case by (force simp: sim_redis_def split: if_splits dest: redis_call_Inr)
qed (auto simp: sim_redis_def split: if_splits
      dest: redis_call_Inr redis_call_done redis_call_read redis_call_Inl
        sim_Exec_ok sim_Exec_err sim_Exec_gets sim_Exec_pipe)

section \<open>Kubernetes\<close>

definition not_found :: err where "not_found = ErrText ''not found''"
definition already_exists :: err where "already_exists = ErrText ''already exists''"

definition kube_call :: "ctx \<Rightarrow> (world \<Rightarrow> (err + 'a) \<times> world) \<Rightarrow> (world, err + 'a) op" where
  "kube_call c f w =
     (case ctx_err c (w_clk w) of
        Some e \<Rightarrow> (Inl e, tick w)
      | None \<Rightarrow> if \<not> w_kube_up w then (Inl down, tick w) else f (tick w))"

definition err_of :: "(err + unit) \<times> world \<Rightarrow> err option \<times> world" where
  "err_of x = (case x of (Inl e, w) \<Rightarrow> (Some e, w) | (Inr u, w) \<Rightarrow> (None, w))"

definition sim_pods :: "world \<Rightarrow> string \<Rightarrow> string \<rightharpoonup> pod" where
  "sim_pods w ns n = map_of (w_pods w) (ns, n)"

definition sim_svcs :: "world \<Rightarrow> string \<Rightarrow> string \<rightharpoonup> kservice" where
  "sim_svcs w ns n = map_of (w_svcs w) (ns, n)"

definition remove_key :: "'k \<Rightarrow> ('k \<times> 'v) list \<Rightarrow> ('k \<times> 'v) list" where
  "remove_key k xs = filter (\<lambda>x. fst x \<noteq> k) xs"

text \<open>A list call answers with one page: the pods of the namespace that match the label.\<close>

definition sim_page :: "world \<Rightarrow> string \<Rightarrow> pod list" where
  "sim_page w ns =
     filter (\<lambda>p. sim_pods w ns (pod_name p) = Some p \<and> pod_labels p ''managed-by'' = Some ''scheduler'')
       (map snd (w_pods w))"

definition sim_kube :: "world kube" where
  "sim_kube =
     \<lparr>kb_pod_create = (\<lambda>c ns p w. err_of (kube_call c (\<lambda>w.
        if sim_pods w ns (pod_name p) \<noteq> None then (Inl already_exists, w)
        else (Inr (), w\<lparr>w_pods := ((ns, pod_name p), p\<lparr>pod_created := w_clk w, pod_phase := PodPending\<rparr>)
                # w_pods w\<rparr>)) w)),
      kb_pod_get = (\<lambda>c ns n. kube_call c (\<lambda>w.
        case sim_pods w ns n of None \<Rightarrow> (Inl not_found, w) | Some p \<Rightarrow> (Inr p, w))),
      kb_pod_delete = (\<lambda>c ns n w. err_of (kube_call c (\<lambda>w.
        if sim_pods w ns n = None then (Inl not_found, w)
        else (Inr (), w\<lparr>w_pods := remove_key (ns, n) (w_pods w)\<rparr>)) w)),
      kb_pod_list = (\<lambda>c ns lo. kube_call c (\<lambda>w. (Inr (sim_page w ns, ''''), w))),
      kb_svc_get = (\<lambda>c ns n. kube_call c (\<lambda>w.
        case sim_svcs w ns n of
          None \<Rightarrow> (Inl not_found, w)
        | Some s \<Rightarrow> (if svc_name s = n then Inr s else Inl down, w))),
      kb_svc_create = (\<lambda>c ns s w. err_of (kube_call c (\<lambda>w.
        if sim_svcs w ns (svc_name s) \<noteq> None then (Inl already_exists, w)
        else (Inr (), w\<lparr>w_svcs := ((ns, svc_name s), s) # w_svcs w\<rparr>)) w)),
      kb_svc_update = (\<lambda>c ns s w. err_of (kube_call c (\<lambda>w.
        if sim_svcs w ns (svc_name s) = None then (Inl not_found, w)
        else (Inr (), w\<lparr>w_svcs := ((ns, svc_name s), s) # remove_key (ns, svc_name s) (w_svcs w)\<rparr>)) w)),
      kb_svc_delete = (\<lambda>c ns n w. err_of (kube_call c (\<lambda>w.
        if sim_svcs w ns n = None then (Inl not_found, w)
        else (Inr (), w\<lparr>w_svcs := remove_key (ns, n) (w_svcs w)\<rparr>)) w)),
      kb_IsNotFound = (\<lambda>e. e = not_found)\<rparr>"

lemma map_of_remove_key: "map_of (remove_key k xs) k' = (if k' = k then None else map_of xs k')"
  by (induction xs) (auto simp: remove_key_def)

lemma err_of_eq [simp]:
  "err_of x = (None, w) \<longleftrightarrow> x = (Inr (), w)"
  "err_of x = (Some e, w) \<longleftrightarrow> x = (Inl e, w)"
  by (auto simp: err_of_def split: prod.splits sum.splits)

lemma kube_call_cases:
  "kube_call c f w = (x, w') \<Longrightarrow>
     (\<exists>e. x = Inl e \<and> e \<noteq> not_found \<and> w' = tick w) \<or> f (tick w) = (x, w')"
  by (auto simp: kube_call_def down_def not_found_def split: option.splits if_splits dest: ctx_err_cases)

lemma sim_pods_tick [simp]: "sim_pods (tick w) = sim_pods w"
  by (simp add: sim_pods_def fun_eq_iff)

lemma sim_svcs_tick [simp]: "sim_svcs (tick w) = sim_svcs w"
  by (simp add: sim_svcs_def fun_eq_iff)

interpretation sim_k: kube_server sim_kube sim_pods sim_svcs
proof (unfold_locales, goal_cases)
  case (1 c ns p w w')
  then show ?case
    by (auto simp: sim_kube_def sim_pods_def fun_eq_iff split: if_splits dest!: kube_call_cases)
next
  case (2 c ns p w e w')
  then show ?case
    by (auto simp: sim_kube_def split: if_splits dest!: kube_call_cases)
next
  case (6 c ns n w w')
  then show ?case
    by (auto simp: sim_kube_def sim_pods_def map_of_remove_key split: if_splits dest!: kube_call_cases)
next
  case (8 c ns lo w ps tok w' p)
  then show ?case by (auto simp: sim_kube_def sim_page_def dest!: kube_call_cases)
next
  case (12 c ns s w w')
  then show ?case
    by (auto simp: sim_kube_def sim_svcs_def map_of_remove_key fun_eq_iff split: if_splits
        dest!: kube_call_cases)
next
  case (11 c ns s w w')
  then show ?case
    by (auto simp: sim_kube_def sim_svcs_def fun_eq_iff split: if_splits dest!: kube_call_cases)
qed (auto simp: sim_kube_def split: if_splits option.splits dest!: kube_call_cases)

section \<open>Both servers and the process\<close>

text \<open>
  The two servers are independent: a call to one leaves the content of the other alone,
  and neither turns the clock back. The process reads the same clock.
\<close>

locale cluster = redis_server R db clk + kube_server K pods svcs
  for R :: "'w redis" and db :: "'w \<Rightarrow> redis_db" and clk :: "'w \<Rightarrow> int"
    and K :: "'w kube" and pods :: "'w \<Rightarrow> string \<Rightarrow> string \<rightharpoonup> pod"
    and svcs :: "'w \<Rightarrow> string \<Rightarrow> string \<rightharpoonup> kservice" +
  fixes rt :: "'w runtime"
  assumes kube_frame: "kube_move K w w' \<Longrightarrow> db w' = db w \<and> clk w \<le> clk w'"
    and redis_frame: "redis_move R w w' \<Longrightarrow> pods w' = pods w \<and> svcs w' = svcs w"
    and now_clk: "rt_now rt = clk"
    and uuid_frame: "rt_uuid0 rt w = (b, w') \<Longrightarrow>
      db w' = db w \<and> clk w' = clk w \<and> pods w' = pods w \<and> svcs w' = svcs w"
begin

lemmas kube_frames = kube_move.intros [THEN kube_frame]
lemmas redis_frames = redis_move.intros [THEN redis_frame]

end

lemma redis_call_frame:
  "redis_call c f w = (x, w') \<Longrightarrow> w_pods w' = w_pods w \<and> w_svcs w' = w_svcs w"
  by (auto simp: redis_call_def Let_def split: option.splits if_splits prod.splits)

lemma sim_Exec_frame:
  "sim_Exec c tx cs w = (x, w') \<Longrightarrow> w_pods w' = w_pods w \<and> w_svcs w' = w_svcs w"
  by (auto simp: sim_Exec_def split: prod.splits sum.splits dest: redis_call_frame)

lemma sim_redis_frame: "redis_move sim_redis w w' \<Longrightarrow> w_pods w' = w_pods w \<and> w_svcs w' = w_svcs w"
  by (erule redis_move.cases) (auto simp: sim_redis_def dest: redis_call_frame sim_Exec_frame)

lemma err_of_frame:
  "(\<And>y. x = (y, w') \<Longrightarrow> P) \<Longrightarrow> err_of x = (e, w') \<Longrightarrow> P"
  by (auto simp: err_of_def split: prod.splits sum.splits)

lemma sim_kube_frame: "kube_move sim_kube w w' \<Longrightarrow> w_db w' = w_db w \<and> w_clk w \<le> w_clk w'"
proof (erule kube_move.cases, goal_cases)
  case (1 c ns p v e v')
  then show ?case by (cases e) (auto simp: sim_kube_def millis_def split: if_splits dest!: kube_call_cases)
next
  case (3 c ns n v e v')
  then show ?case by (cases e) (auto simp: sim_kube_def millis_def split: if_splits dest!: kube_call_cases)
next
  case (6 c ns s v e v')
  then show ?case by (cases e) (auto simp: sim_kube_def millis_def split: if_splits dest!: kube_call_cases)
next
  case (7 c ns s v e v')
  then show ?case by (cases e) (auto simp: sim_kube_def millis_def split: if_splits dest!: kube_call_cases)
next
  case (8 c ns n v e v')
  then show ?case by (cases e) (auto simp: sim_kube_def millis_def split: if_splits dest!: kube_call_cases)
qed (auto simp: sim_kube_def millis_def split: if_splits option.splits dest!: kube_call_cases)

interpretation sim_c: cluster sim_redis w_db w_clk sim_kube sim_pods sim_svcs sim_runtime
proof (unfold_locales, goal_cases)
  case (1 w w')
  then show ?case by (rule sim_kube_frame)
next
  case (2 w w')
  then show ?case using sim_redis_frame [of w w'] by (simp add: sim_pods_def sim_svcs_def fun_eq_iff)
qed (auto simp: sim_runtime_def sim_pods_def sim_svcs_def fun_eq_iff)

text \<open>For evaluating a run: the definitions of the simulated servers.\<close>

lemmas sim_eval = sim_redis_def sim_kube_def redis_call_def kube_call_def sim_Exec_def err_of_def
  init_world_def empty_db_def tick_def sim_runtime_def down_def get_reply_def lookup_def put_def
  del_def publish_def alive_def smembers_def zmembers_def expiry_def sput_def zput_def zadd_def
  zdel_def zless_def durations ctx_err_def background_def with_timeout_def sim_pods_def
  sim_svcs_def remove_key_def sim_page_def not_found_def already_exists_def

end
