(* ===== verification/Ids.thy ===== *)
theory Ids
  imports Prelude "HOL-Library.List_Lexorder" "HOL-Library.Char_ord"
begin

text \<open>
  Identifiers and pod events: \<open>scheduler/internal/types/ids.go\<close> and
  \<open>scheduler/internal/types/pod_event.go\<close>.
\<close>

section \<open>Typed identifiers\<close>

definition SandboxPrefix :: string where "SandboxPrefix = ''sandbox-''"
definition ProjectPrefix :: string where "ProjectPrefix = ''project-''"

datatype sandbox_id = SandboxID (sid: string)
datatype project_id = ProjectID (pid: string)

text \<open>Projects are ordered as their texts, so that a finite map of them has a canonical listing.\<close>

instantiation project_id :: linorder
begin

definition less_eq_project_id :: "project_id \<Rightarrow> project_id \<Rightarrow> bool" where
  "p \<le> q \<longleftrightarrow> pid p \<le> pid q"

definition less_project_id :: "project_id \<Rightarrow> project_id \<Rightarrow> bool" where
  "p < q \<longleftrightarrow> pid p < pid q"

instance
  by standard (auto simp: less_eq_project_id_def less_project_id_def project_id.expand)

end

definition NewSandboxID :: "string \<Rightarrow> err + sandbox_id" where
  "NewSandboxID s =
     (let cleanID = trim_prefix SandboxPrefix s
      in if cleanID = '''' then Inl ErrEmptyID else Inr (SandboxID cleanID))"

definition sandbox_IsValid :: "sandbox_id \<Rightarrow> bool" where
  "sandbox_IsValid s \<longleftrightarrow> sid s \<noteq> ''''"

definition sandbox_WithPrefix :: "sandbox_id \<Rightarrow> string" where
  "sandbox_WithPrefix s = (if \<not> sandbox_IsValid s then '''' else SandboxPrefix @ sid s)"

definition NewProjectID :: "string \<Rightarrow> err + project_id" where
  "NewProjectID s =
     (let cleanID = trim_prefix ProjectPrefix s
      in if cleanID = '''' then Inl ErrEmptyID else Inr (ProjectID cleanID))"

definition NewProjectIDWithoutPrefix :: "string \<Rightarrow> err + project_id" where
  "NewProjectIDWithoutPrefix s = NewProjectID (ProjectPrefix @ s)"

definition project_IsValid :: "project_id \<Rightarrow> bool" where
  "project_IsValid p \<longleftrightarrow> pid p \<noteq> ''''"

definition project_WithPrefix :: "project_id \<Rightarrow> string" where
  "project_WithPrefix p = (if \<not> project_IsValid p then '''' else ProjectPrefix @ pid p)"

section \<open>Generated identifiers\<close>

definition charset :: string where
  "charset = ''0123456789abcdefghijklmnopqrstuvwxyz''"

text \<open>The digit loop; \<open>acc\<close> is the \<open>strings.Builder\<close>.\<close>

function base36_loop :: "int \<Rightarrow> string \<Rightarrow> string" where
  "base36_loop n acc =
     (if n > 0 then base36_loop (n div 36) (acc @ [charset ! nat (n mod 36)]) else acc)"
  by pat_completeness auto
termination
  by (relation "measure (\<lambda>(n, acc). nat n)") auto

declare base36_loop.simps [simp del]

text \<open>The in-place reversal: \<open>i\<close> and \<open>j\<close> run towards each other, swapping.\<close>

function swap_loop :: "int \<Rightarrow> int \<Rightarrow> string \<Rightarrow> string" where
  "swap_loop i j rs =
     (if i < j then swap_loop (i + 1) (j - 1)
        (rs[nat i := rs ! nat j, nat j := rs ! nat i])
      else rs)"
  by pat_completeness auto
termination
  by (relation "measure (\<lambda>(i, j, rs). nat (j - i))") auto

declare swap_loop.simps [simp del]

definition encodeBase36 :: "int \<Rightarrow> string" where
  "encodeBase36 n =
     (if n = 0 then ''0''
      else let runes = base36_loop n '''' in swap_loop 0 (int (length runes) - 1) runes)"

text \<open>\<open>nanos\<close> is \<open>time.Now().UnixNano()\<close>, \<open>b\<close> the first byte of \<open>uuid.New()\<close>.\<close>

definition GenerateSandboxID :: "int \<Rightarrow> 8 word \<Rightarrow> sandbox_id" where
  "GenerateSandboxID nanos b =
     (let randomNum = wrap64 (nanos + uint b);
          s = encodeBase36 randomNum
      in SandboxID (if length s > 20 then take 20 s else s))"

section \<open>Pod events\<close>

datatype pod_event_type = PodAlreadyDeleted | PodToBeDeleted

record pod_event =
  ev_sandbox :: sandbox_id
  ev_type :: pod_event_type

definition AlreadyDeleted :: "pod_event \<Rightarrow> bool" where
  "AlreadyDeleted e \<longleftrightarrow> ev_type e = PodAlreadyDeleted"

definition ToBeDeleted :: "pod_event \<Rightarrow> bool" where
  "ToBeDeleted e \<longleftrightarrow> ev_type e = PodToBeDeleted"

section \<open>Facts on prefixes\<close>

lemma SandboxPrefix_ne [simp]: "SandboxPrefix \<noteq> []"
  by (simp add: SandboxPrefix_def)

lemma ProjectPrefix_ne [simp]: "ProjectPrefix \<noteq> []"
  by (simp add: ProjectPrefix_def)

lemma NewSandboxID_plain [ids]:
  "sandbox_IsValid s \<Longrightarrow> \<not> prefix SandboxPrefix (sid s) \<Longrightarrow> NewSandboxID (sid s) = Inr s"
  by (cases s) (simp add: NewSandboxID_def sandbox_IsValid_def)

lemma NewProjectID_plain [ids]:
  "project_IsValid p \<Longrightarrow> \<not> prefix ProjectPrefix (pid p) \<Longrightarrow> NewProjectID (pid p) = Inr p"
  by (cases p) (simp add: NewProjectID_def project_IsValid_def)

lemma NewSandboxID_WithPrefix [ids]:
  "sandbox_IsValid s \<Longrightarrow> NewSandboxID (sandbox_WithPrefix s) = Inr s"
  by (cases s) (simp add: NewSandboxID_def sandbox_WithPrefix_def sandbox_IsValid_def)

lemma NewProjectIDWithoutPrefix_eq [ids]:
  "NewProjectIDWithoutPrefix s = (if s = '''' then Inl ErrEmptyID else Inr (ProjectID s))"
  by (simp add: NewProjectIDWithoutPrefix_def NewProjectID_def)

lemma NewSandboxID_valid [ids]: "NewSandboxID s = Inr i \<Longrightarrow> sandbox_IsValid i"
  by (auto simp: NewSandboxID_def sandbox_IsValid_def Let_def split: if_splits)

lemma NewProjectID_valid [ids]: "NewProjectID s = Inr i \<Longrightarrow> project_IsValid i"
  by (auto simp: NewProjectID_def project_IsValid_def Let_def split: if_splits)

lemma NewSandboxID_error:
  "NewSandboxID s = Inl e \<longleftrightarrow> e = ErrEmptyID \<and> (s = '''' \<or> s = SandboxPrefix)"
  by (auto simp: NewSandboxID_def Let_def trim_prefix_Nil_iff)

lemma sandbox_WithPrefix_inj:
  "sandbox_WithPrefix a = sandbox_WithPrefix b \<Longrightarrow> a = b"
  by (cases a; cases b) (auto simp: sandbox_WithPrefix_def sandbox_IsValid_def split: if_splits)

lemma project_WithPrefix_inj:
  "project_WithPrefix a = project_WithPrefix b \<Longrightarrow> a = b"
  by (cases a; cases b) (auto simp: project_WithPrefix_def project_IsValid_def split: if_splits)

text \<open>Identifiers that survive being written and read back.\<close>

definition plain_sandbox :: "sandbox_id \<Rightarrow> bool" where
  "plain_sandbox s \<longleftrightarrow> sandbox_IsValid s \<and> \<not> prefix SandboxPrefix (sid s)"

definition plain_project :: "project_id \<Rightarrow> bool" where
  "plain_project p \<longleftrightarrow> project_IsValid p \<and> \<not> prefix ProjectPrefix (pid p)"

lemma plain_sandbox_parse [ids, simp]: "plain_sandbox s \<Longrightarrow> NewSandboxID (sid s) = Inr s"
  by (simp add: plain_sandbox_def NewSandboxID_plain)

lemma plain_project_parse [ids, simp]: "plain_project p \<Longrightarrow> NewProjectID (pid p) = Inr p"
  by (simp add: plain_project_def NewProjectID_plain)

lemmas plain_ids_eval = plain_project_def plain_sandbox_def project_IsValid_def sandbox_IsValid_def
  SandboxPrefix_def ProjectPrefix_def

section \<open>The base-36 encoder\<close>

text \<open>The reference: digits, most significant first.\<close>

function digits36 :: "int \<Rightarrow> string" where
  "digits36 n = (if n > 0 then digits36 (n div 36) @ [charset ! nat (n mod 36)] else '''')"
  by pat_completeness auto
termination
  by (relation "measure nat") auto

declare digits36.simps [simp del]

text \<open>The value of a digit string: the inverse of the encoder.\<close>

definition digit_val :: "char \<Rightarrow> int" where
  "digit_val c = int (length (takeWhile (\<lambda>x. x \<noteq> c) charset))"

definition val36 :: "string \<Rightarrow> int" where
  "val36 s = foldl (\<lambda>a c. a * 36 + digit_val c) 0 s"

lemma length_charset [simp]: "length charset = 36"
  by (simp add: charset_def)

lemma distinct_charset: "distinct charset"
  by (simp add: charset_def)

lemma digit_val_nth: "k < 36 \<Longrightarrow> digit_val (charset ! k) = int k"
  unfolding digit_val_def
  by (subst takeWhile_eq_take_P_nth [of k])
     (auto simp: nth_eq_iff_index_eq [OF distinct_charset])

lemma val36_snoc: "val36 (s @ [c]) = val36 s * 36 + digit_val c"
  by (simp add: val36_def)

lemma base36_loop_digits: "base36_loop n acc = acc @ rev (digits36 n)"
proof (induction n acc rule: base36_loop.induct)
  case (1 n acc)
  then show ?case
    by (cases "n > 0") (simp_all add: base36_loop.simps [of n acc] digits36.simps [of n])
qed

lemma swap_loop_rev:
  "swap_loop (int (length xs)) (int (length xs + length ys) - 1) (xs @ ys @ zs) = xs @ rev ys @ zs"
proof (induction "length ys" arbitrary: xs ys zs rule: less_induct)
  case less
  show ?case
  proof (cases "length ys < 2")
    case True
    then have "rev ys = ys" by (cases ys) auto
    with True show ?thesis by (subst swap_loop.simps) simp
  next
    case False
    then obtain a b m where ys: "ys = a # m @ [b]"
      by (cases ys; cases "tl ys" rule: rev_cases) auto
    let ?rs = "xs @ ys @ zs" and ?i = "length xs" and ?j = "length xs + length m + 1"
    have "?rs[?i := ?rs ! ?j, ?j := ?rs ! ?i] = (xs @ [b]) @ m @ (a # zs)"
      by (simp add: ys list_update_append nth_append)
    moreover have "swap_loop (int ?i + 1) (int ?j - 1) ((xs @ [b]) @ m @ (a # zs)) =
        (xs @ [b]) @ rev m @ (a # zs)"
      using less.hyps [of m "xs @ [b]" "a # zs"] by (simp add: ys algebra_simps)
    ultimately show ?thesis
      by (subst swap_loop.simps) (simp add: ys nat_add_distrib algebra_simps)
  qed
qed

lemma encodeBase36_digits: "encodeBase36 n = (if n = 0 then ''0'' else digits36 n)"
  using swap_loop_rev [of "[]" "base36_loop n ''''" "[]"]
  by (simp add: encodeBase36_def base36_loop_digits Let_def)

lemma val36_digits36: "0 \<le> n \<Longrightarrow> val36 (digits36 n) = n"
proof (induction n rule: digits36.induct)
  case (1 n)
  show ?case
  proof (cases "n > 0")
    case True
    then have "val36 (digits36 (n div 36)) = n div 36" by (intro "1.IH") simp_all
    moreover have "digit_val (charset ! nat (n mod 36)) = n mod 36"
      by (subst digit_val_nth) simp_all
    ultimately show ?thesis using True by (simp add: digits36.simps [of n] val36_snoc)
  next
    case False
    with "1.prems" have "n = 0" by simp
    then show ?thesis by (simp add: digits36.simps [of 0] val36_def)
  qed
qed

lemma digits36_charset: "set (digits36 n) \<subseteq> set charset"
proof (induction n rule: digits36.induct)
  case (1 n)
  have "charset ! nat (n mod 36) \<in> set charset" by (rule nth_mem) simp
  with 1 show ?case by (cases "n > 0") (auto simp: digits36.simps [of n])
qed

lemma digits36_length: "n < 36 ^ k \<Longrightarrow> length (digits36 n) \<le> k"
proof (induction k arbitrary: n)
  case 0
  then show ?case by (simp add: digits36.simps [of n])
next
  case (Suc k)
  then have "length (digits36 (n div 36)) \<le> k" by (intro Suc.IH) simp
  then show ?case by (simp add: digits36.simps [of n])
qed

lemma digits36_Nil_iff: "digits36 n = '''' \<longleftrightarrow> n \<le> 0"
  by (simp add: digits36.simps [of n])

text \<open>The first digit is never 0: the code of a positive number is canonical.\<close>

lemma digits36_lead: "n > 0 \<Longrightarrow> hd (digits36 n) \<noteq> CHR ''0''"
proof (induction n rule: digits36.induct)
  case (1 n)
  show ?case
  proof (cases "n div 36 > 0")
    case True
    then have "hd (digits36 (n div 36)) \<noteq> CHR ''0''" using 1 by blast
    with True "1.prems" show ?thesis
      by (simp add: digits36.simps [of n] hd_append digits36_Nil_iff)
  next
    case False
    then have "digits36 (n div 36) = ''''" by (simp add: digits36_Nil_iff)
    moreover have "n mod 36 = n" using False "1.prems" by simp
    moreover have "charset ! nat n \<noteq> charset ! 0"
      using False "1.prems" by (subst nth_eq_iff_index_eq [OF distinct_charset]) simp_all
    moreover have "charset ! 0 = CHR ''0''" by (simp add: charset_def)
    ultimately show ?thesis using "1.prems" by (simp add: digits36.simps [of n])
  qed
qed

lemma encodeBase36_length: "n < 2 ^ 63 \<Longrightarrow> length (encodeBase36 n) \<le> 13"
  using digits36_length [of n 13] by (simp add: encodeBase36_digits)

lemma val36_encode: "0 \<le> n \<Longrightarrow> val36 (encodeBase36 n) = n"
proof (cases "n = 0")
  case True
  then show ?thesis by (simp add: encodeBase36_digits val36_def digit_val_def charset_def)
next
  case False
  then show "0 \<le> n \<Longrightarrow> val36 (encodeBase36 n) = n"
    by (simp add: encodeBase36_digits val36_digits36)
qed

section \<open>Properties of identifiers\<close>

text \<open>
  Base-36 round trip. For a number that is not negative the encoder's text decodes to
  the number, uses digits and lower-case letters only, is not empty, has no leading zero
  (except for 0 itself), and has at most 13 characters for an \<open>int64\<close>.
\<close>

lemma encodeBase36_roundtrip:
  assumes "0 \<le> n"
  shows "val36 (encodeBase36 n) = n \<and> set (encodeBase36 n) \<subseteq> set charset \<and>
    encodeBase36 n \<noteq> '''' \<and> (n > 0 \<longrightarrow> hd (encodeBase36 n) \<noteq> CHR ''0'') \<and>
    (n < 2 ^ 63 \<longrightarrow> length (encodeBase36 n) \<le> 13)"
proof (cases "n = 0")
  case True
  then show ?thesis using val36_encode [of 0] by (simp add: encodeBase36_digits charset_def)
next
  case False
  then show ?thesis
    using assms val36_encode [of n] digits36_charset [of n] digits36_lead [of n]
      encodeBase36_length [of n]
    by (auto simp: encodeBase36_digits digits36_Nil_iff)
qed

lemma charset_no_dash: "CHR ''-'' \<notin> set charset"
  by (simp add: charset_def)

lemma encodeBase36_inj: "0 \<le> n \<Longrightarrow> 0 \<le> m \<Longrightarrow> encodeBase36 n = encodeBase36 m \<longleftrightarrow> n = m"
  using val36_encode [of n] val36_encode [of m] by metis

lemma generated_text:
  assumes "0 \<le> nanos" and "nanos + 255 < 2 ^ 63"
  shows "sid (GenerateSandboxID nanos b) = encodeBase36 (nanos + uint b)"
    and "0 \<le> nanos + uint b" and "nanos + uint b < 2 ^ 63"
proof -
  have "0 \<le> uint b \<and> uint b < 2 ^ 8" using uint_range_size [of b] by (simp add: word_size)
  then show *: "0 \<le> nanos + uint b" "nanos + uint b < 2 ^ 63" using assms by simp_all
  then have "length (encodeBase36 (nanos + uint b)) \<le> 13" by (intro encodeBase36_length)
  then show "sid (GenerateSandboxID nanos b) = encodeBase36 (nanos + uint b)"
    using * by (simp add: GenerateSandboxID_def wrap64_id Let_def)
qed

text \<open>
  C40 (generated identifiers). Until the nanosecond clock comes within 256 of its 64-bit
  limit, a generated sandbox identifier is the base-36 text of clock plus random byte,
  never truncated; it consists of digits and lower-case letters only, so that the pod name
  made from it is one that parses back; and two generations give the same identifier
  exactly when clock plus byte agree, so never when they are 256 nanoseconds apart.
\<close>

theorem generated_ids:
  assumes "0 \<le> n" and "n + 255 < 2 ^ 63" and "0 \<le> m" and "m + 255 < 2 ^ 63"
  shows "sid (GenerateSandboxID n b) = encodeBase36 (n + uint b) \<and>
    set (sid (GenerateSandboxID n b)) \<subseteq> set charset \<and>
    NewSandboxID (sandbox_WithPrefix (GenerateSandboxID n b)) = Inr (GenerateSandboxID n b) \<and>
    NewSandboxID (sid (GenerateSandboxID n b)) = Inr (GenerateSandboxID n b) \<and>
    (GenerateSandboxID n b = GenerateSandboxID m b' \<longleftrightarrow> n + uint b = m + uint b') \<and>
    (n + 256 \<le> m \<longrightarrow> GenerateSandboxID n b \<noteq> GenerateSandboxID m b')"
proof -
  let ?s = "GenerateSandboxID n b"
  note g = generated_text [OF assms(1,2), of b] and g' = generated_text [OF assms(3,4), of b']
  have chars: "set (sid ?s) \<subseteq> set charset"
    using g digits36_charset [of "n + uint b"] by (auto simp: encodeBase36_digits charset_def)
  have ne: "sid ?s \<noteq> ''''" using g by (auto simp: encodeBase36_digits digits36_Nil_iff)
  have "\<not> prefix SandboxPrefix (sid ?s)"
    using chars charset_no_dash by (auto simp: SandboxPrefix_def prefix_def)
  moreover have "?s = GenerateSandboxID m b' \<longleftrightarrow> n + uint b = m + uint b'"
    using g g' encodeBase36_inj [of "n + uint b" "m + uint b'"] by (metis sandbox_id.expand)
  moreover have "n + 256 \<le> m \<Longrightarrow> n + uint b \<noteq> m + uint b'"
  proof -
    assume "n + 256 \<le> m"
    moreover have "uint b < 256" using uint_range_size [of b] by (simp add: word_size)
    ultimately show ?thesis using uint_ge_0 [of b'] by linarith
  qed
  ultimately show ?thesis
    using g(1) chars ne NewSandboxID_plain [of ?s] NewSandboxID_WithPrefix [of ?s]
    by (auto simp: sandbox_IsValid_def)
qed

theorem generated_ids_witness:
  "GenerateSandboxID 1700000000000000000 3 \<noteq> GenerateSandboxID 1700000000000000256 200"
  using generated_ids [of 1700000000000000000 1700000000000000256 3 200] by simp

text \<open>
  Printing a valid identifier with its prefix and parsing it gives the
  identifier back, for sandboxes and projects alike; whatever a parse returns is valid and
  is printed and parsed to itself; a parse fails exactly on the empty text and on the bare
  prefix; and different valid identifiers have different printed forms.
\<close>

lemma id_prefix_roundtrip:
  "(sandbox_IsValid s \<longrightarrow> NewSandboxID (sandbox_WithPrefix s) = Inr s) \<and>
   (project_IsValid p \<longrightarrow> NewProjectID (project_WithPrefix p) = Inr p) \<and>
   (NewSandboxID x = Inr s \<longrightarrow> sandbox_IsValid s) \<and> (NewProjectID x = Inr p \<longrightarrow> project_IsValid p) \<and>
   ((\<exists>e. NewSandboxID x = Inl e) \<longleftrightarrow> x = '''' \<or> x = ''sandbox-'') \<and>
   (sandbox_WithPrefix s = sandbox_WithPrefix s' \<longrightarrow> s = s') \<and>
   (project_WithPrefix p = project_WithPrefix p' \<longrightarrow> p = p')"
proof -
  have "project_IsValid p \<Longrightarrow> NewProjectID (project_WithPrefix p) = Inr p"
    by (cases p) (simp add: NewProjectID_def project_WithPrefix_def project_IsValid_def)
  moreover have "(\<exists>e. NewSandboxID x = Inl e) \<longleftrightarrow> x = '''' \<or> x = ''sandbox-''"
    by (auto simp: NewSandboxID_error SandboxPrefix_def)
  ultimately show ?thesis
    using NewSandboxID_WithPrefix NewSandboxID_valid NewProjectID_valid sandbox_WithPrefix_inj
      project_WithPrefix_inj by blast
qed

end
