(* ===== verification/Project_Store.thy ===== *)
theory Project_Store
  imports Cluster_Sim Ids "HOL-Library.AList"
begin

text \<open>
  The project store: the interface \<open>persistence.Store\<close> (\<open>store.go\<close>) and its Redis
  implementation \<open>redisStore\<close> (\<open>redis.go\<close>), with the messages it publishes and parses.
\<close>

section \<open>The interface\<close>

record 'w store =
  st_GetProjectSandbox :: "ctx \<Rightarrow> project_id \<Rightarrow> ('w, err + sandbox_id) op"
  st_SetProjectSandbox :: "ctx \<Rightarrow> project_id \<Rightarrow> sandbox_id \<Rightarrow> ('w, err option) op"
  st_FindProjectForSandbox :: "ctx \<Rightarrow> sandbox_id \<Rightarrow> ('w, err + project_id) op"
  st_RemoveSandboxMapping :: "ctx \<Rightarrow> sandbox_id \<Rightarrow> ('w, err option) op"
  st_IsSandboxReleased :: "ctx \<Rightarrow> sandbox_id \<Rightarrow> ('w, err + bool) op"
  st_GetAllProjectSandboxMappings :: "ctx \<Rightarrow> ('w, err + (project_id \<rightharpoonup> sandbox_id)) op"

section \<open>The Redis store\<close>

definition pendingKeyTTL :: int where "pendingKeyTTL = minutes 1"
definition idempotenceKeyTTL :: int where "idempotenceKeyTTL = minutes 10"
definition defaultKeyPrefix :: string where "defaultKeyPrefix = ''sch:''"
definition projectUpdateChannel :: string where
  "projectUpdateChannel = ''project-sandbox-updates''"
definition projectSetKey :: string where "projectSetKey = ''all-projects-set''"

record 'w redisStore =
  client :: "'w redis"
  keyPrefix :: string

definition newRedisStore :: "'w redis option \<Rightarrow> string \<Rightarrow> err + 'w redisStore" where
  "newRedisStore cl pfx =
     (case cl of
        None \<Rightarrow> Inl (ErrText ''redis client is required'')
      | Some c \<Rightarrow> Inr \<lparr>client = c, keyPrefix = (if pfx = '''' then defaultKeyPrefix else pfx)\<rparr>)"

definition formReleasedKey :: "'w redisStore \<Rightarrow> sandbox_id \<Rightarrow> string" where
  "formReleasedKey r s = keyPrefix r @ ''released:'' @ sid s"

definition formProjectSandboxKey :: "'w redisStore \<Rightarrow> project_id \<Rightarrow> string" where
  "formProjectSandboxKey r p = keyPrefix r @ ''project:'' @ pid p"

definition formSandboxProjectKey :: "'w redisStore \<Rightarrow> sandbox_id \<Rightarrow> string" where
  "formSandboxProjectKey r s = keyPrefix r @ ''sandbox:'' @ sid s"

definition formAllProjectsSetKey :: "'w redisStore \<Rightarrow> string" where
  "formAllProjectsSetKey r = keyPrefix r @ projectSetKey"

definition IsSandboxReleased ::
  "'w redisStore \<Rightarrow> ctx \<Rightarrow> sandbox_id \<Rightarrow> ('w, err + bool) op" where
  "IsSandboxReleased r c s w =
     (case rd_Exists (client r) c (formReleasedKey r s) w of
        (Inl e, w1) \<Rightarrow>
          (Inl (ErrWrap (''failed to check if sandbox '' @ sid s @ '' is released: '') e), w1)
      | (Inr n, w1) \<Rightarrow> (Inr (n > 0), w1))"

definition store_GetProjectSandbox ::
  "'w redisStore \<Rightarrow> ctx \<Rightarrow> project_id \<Rightarrow> ('w, err + sandbox_id) op" where
  "store_GetProjectSandbox r c p w =
     (case rd_Get (client r) c (formProjectSandboxKey r p) w of
        (Inl e, w1) \<Rightarrow>
          (if e = RedisNil then (Inl ErrNotFound, w1)
           else (Inl (ErrWrap (''failed to get sandbox for project '' @ pid p @ '': '') e), w1))
      | (Inr v, w1) \<Rightarrow>
          (case NewSandboxID v of
             Inl e \<Rightarrow> (Inl (ErrWrap ''invalid sandbox ID: '' e), w1)
           | Inr s \<Rightarrow> (Inr s, w1)))"

definition projectSandboxTTL :: int where "projectSandboxTTL = hours 24"

definition update_message :: "project_id \<Rightarrow> sandbox_id \<Rightarrow> string" where
  "update_message p s = pid p @ '':update:'' @ sid s"

definition removal_message :: "project_id \<Rightarrow> string" where
  "removal_message p = pid p @ '':remove:''"

definition SetProjectSandbox ::
  "'w redisStore \<Rightarrow> ctx \<Rightarrow> project_id \<Rightarrow> sandbox_id \<Rightarrow> ('w, err option) op" where
  "SetProjectSandbox r c p s w =
     (case rd_Exec (client r) c False
        [PSet (formProjectSandboxKey r p) (sid s) projectSandboxTTL,
         PSet (formSandboxProjectKey r s) (pid p) projectSandboxTTL,
         PSAdd (formAllProjectsSetKey r) (pid p),
         PExpire (formAllProjectsSetKey r) projectSandboxTTL,
         PPublish projectUpdateChannel (update_message p s)] w of
        ((Some e, _), w1) \<Rightarrow> (Some (ErrWrap ''failed to set project-sandbox mapping: '' e), w1)
      | ((None, _), w1) \<Rightarrow> (None, w1))"

definition FindProjectForSandbox ::
  "'w redisStore \<Rightarrow> ctx \<Rightarrow> sandbox_id \<Rightarrow> ('w, err + project_id) op" where
  "FindProjectForSandbox r c s w =
     (case rd_Get (client r) c (formSandboxProjectKey r s) w of
        (Inl e, w1) \<Rightarrow>
          (if e = RedisNil then (Inr (ProjectID ''''), w1)
           else (Inl (ErrWrap (''failed to get project for sandbox '' @ sid s @ '': '') e), w1))
      | (Inr v, w1) \<Rightarrow>
          (case NewProjectID v of
             Inl e \<Rightarrow> (Inl (ErrWrap ''invalid project ID: '' e), w1)
           | Inr p \<Rightarrow> (Inr p, w1)))"

definition removal_pipe :: "'w redisStore \<Rightarrow> project_id \<Rightarrow> sandbox_id \<Rightarrow> pcmd list" where
  "removal_pipe r p s =
     (if p \<noteq> ProjectID '''' then [PDel (formSandboxProjectKey r s)] else []) @
     (if p \<noteq> ProjectID ''''
      then [PDel (formProjectSandboxKey r p), PSRem (formAllProjectsSetKey r) (pid p),
            PPublish projectUpdateChannel (removal_message p)]
      else []) @
     [PSet (formReleasedKey r s) ''1'' (minutes 5)]"

definition RemoveSandboxMapping ::
  "'w redisStore \<Rightarrow> ctx \<Rightarrow> sandbox_id \<Rightarrow> ('w, err option) op" where
  "RemoveSandboxMapping r c s w =
     (case FindProjectForSandbox r c s w of
        (Inl e, w1) \<Rightarrow>
          (Some (ErrWrap (''failed to get project for sandbox '' @ sid s @ '': '') e), w1)
      | (Inr p, w1) \<Rightarrow>
          (case rd_Exec (client r) c False (removal_pipe r p s) w1 of
             ((Some e, _), w2) \<Rightarrow>
               (Some (ErrWrap (''failed to remove sandbox mapping for '' @ sid s @ '': '') e), w2)
           | ((None, _), w2) \<Rightarrow> (None, w2)))"

text \<open>
  One message of the subscription: the arguments of the callback (project, sandbox,
  removal flag), or nothing when the message is skipped.
\<close>

definition parse_update :: "string \<Rightarrow> (project_id \<times> sandbox_id \<times> bool) option" where
  "parse_update payload =
     (let parts = split_n 3 (CHR '':'') payload
      in if length parts \<noteq> 3 then None
         else case NewProjectID (parts ! 0) of
           Inl _ \<Rightarrow> None
         | Inr p \<Rightarrow>
             (let isRemoval = (parts ! 1 = ''remove'')
              in if isRemoval then Some (p, SandboxID '''', True)
                 else case NewSandboxID (parts ! 2) of
                   Inl _ \<Rightarrow> None
                 | Inr s \<Rightarrow> Some (p, s, False)))"

text \<open>
  The receiving goroutine: what \<open>ReceiveMessage\<close> returns, in order; it stops at the first
  error. The result is the sequence of callback calls.
\<close>

fun receive_loop :: "(err + string) list \<Rightarrow> (project_id \<times> sandbox_id \<times> bool) list" where
  "receive_loop [] = []"
| "receive_loop (Inl e # rs) = []"
| "receive_loop (Inr m # rs) =
     (case parse_update m of None \<Rightarrow> receive_loop rs | Some a \<Rightarrow> a # receive_loop rs)"

text \<open>
  Loading all mappings. \<open>ord\<close> is the order in which Go's \<open>range\<close> visits the map
  \<open>cmds\<close>, which the language leaves open.
\<close>

definition queue_gets :: "'w redisStore \<Rightarrow> string list \<Rightarrow> (string \<times> string) list" where
  "queue_gets r ps =
     List.map_filter
       (\<lambda>p. case NewProjectID p of
              Inl _ \<Rightarrow> None
            | Inr i \<Rightarrow> Some (p, formProjectSandboxKey r i)) ps"

definition build_cmds ::
  "(string \<times> string) list \<Rightarrow> (err + string) list \<Rightarrow> (string \<times> (err + string)) list" where
  "build_cmds qs rs = fold (\<lambda>(k, v). AList.update k v) (zip (map fst qs) rs) []"

fun collect_mappings ::
  "(string \<times> (err + string)) list \<Rightarrow> (project_id \<rightharpoonup> sandbox_id) \<Rightarrow>
     err + (project_id \<rightharpoonup> sandbox_id)" where
  "collect_mappings [] m = Inr m"
| "collect_mappings ((p, Inl e) # xs) m =
     (if e = RedisNil then collect_mappings xs m
      else Inl (ErrWrap (''failed to get sandbox for project '' @ p @ '': '') e))"
| "collect_mappings ((p, Inr v) # xs) m =
     (case NewProjectID p of
        Inl _ \<Rightarrow> collect_mappings xs m
      | Inr i \<Rightarrow>
          (case NewSandboxID v of
             Inl _ \<Rightarrow> collect_mappings xs m
           | Inr s \<Rightarrow> collect_mappings xs (m(i \<mapsto> s))))"

definition GetAllProjectSandboxMappings ::
  "((string \<times> (err + string)) list \<Rightarrow> (string \<times> (err + string)) list) \<Rightarrow>
     'w redisStore \<Rightarrow> ctx \<Rightarrow> ('w, err + (project_id \<rightharpoonup> sandbox_id)) op" where
  "GetAllProjectSandboxMappings ord r c w =
     (case rd_SMembers (client r) c (formAllProjectsSetKey r) w of
        (Inl e, w1) \<Rightarrow> (Inl (ErrWrap ''failed to get all project IDs: '' e), w1)
      | (Inr ps, w1) \<Rightarrow>
          (if ps = [] then (Inr Map.empty, w1)
           else let qs = queue_gets r ps in
             (case rd_Exec (client r) c False (map (PGet \<circ> snd) qs) w1 of
                ((eo, rs), w2) \<Rightarrow>
                  (if eo \<noteq> None \<and> eo \<noteq> Some RedisNil
                   then (Inl (ErrWrap ''failed to get all project-sandbox mappings: '' (the eo)), w2)
                   else (collect_mappings (ord (build_cmds qs rs)) Map.empty, w2)))))"

definition redis_Store ::
  "((string \<times> (err + string)) list \<Rightarrow> (string \<times> (err + string)) list) \<Rightarrow>
     'w redisStore \<Rightarrow> 'w store" where
  "redis_Store ord r =
     \<lparr>st_GetProjectSandbox = store_GetProjectSandbox r,
      st_SetProjectSandbox = SetProjectSandbox r,
      st_FindProjectForSandbox = FindProjectForSandbox r,
      st_RemoveSandboxMapping = RemoveSandboxMapping r,
      st_IsSandboxReleased = IsSandboxReleased r,
      st_GetAllProjectSandboxMappings = GetAllProjectSandboxMappings ord r\<rparr>"

section \<open>What the store means\<close>

text \<open>The project a sandbox key holds, and so on, as the store's own readers see it at instant \<open>t\<close>.\<close>

definition mapped_sandbox :: "'w redisStore \<Rightarrow> int \<Rightarrow> redis_db \<Rightarrow> project_id \<Rightarrow> sandbox_id option" where
  "mapped_sandbox r t D p =
     (case lookup t D (formProjectSandboxKey r p) of
        Some (RStr v) \<Rightarrow> (case NewSandboxID v of Inl _ \<Rightarrow> None | Inr s \<Rightarrow> Some s)
      | _ \<Rightarrow> None)"

definition mapped_project :: "'w redisStore \<Rightarrow> int \<Rightarrow> redis_db \<Rightarrow> sandbox_id \<Rightarrow> project_id option" where
  "mapped_project r t D s =
     (case lookup t D (formSandboxProjectKey r s) of
        Some (RStr v) \<Rightarrow> (case NewProjectID v of Inl _ \<Rightarrow> None | Inr p \<Rightarrow> Some p)
      | _ \<Rightarrow> None)"

definition released_at :: "'w redisStore \<Rightarrow> int \<Rightarrow> redis_db \<Rightarrow> sandbox_id \<Rightarrow> bool" where
  "released_at r t D s \<longleftrightarrow> lookup t D (formReleasedKey r s) \<noteq> None"

definition known_projects :: "'w redisStore \<Rightarrow> int \<Rightarrow> redis_db \<Rightarrow> project_id set" where
  "known_projects r t D = {p. pid p \<in> smembers t D (formAllProjectsSetKey r)}"

lemmas store_keys = formReleasedKey_def formProjectSandboxKey_def formSandboxProjectKey_def
  formAllProjectsSetKey_def projectSetKey_def

lemma key_inj [simp]:
  "formProjectSandboxKey r p = formProjectSandboxKey r p' \<longleftrightarrow> p = p'"
  "formSandboxProjectKey r s = formSandboxProjectKey r s' \<longleftrightarrow> s = s'"
  "formReleasedKey r s = formReleasedKey r s' \<longleftrightarrow> s = s'"
  by (auto simp: store_keys project_id.expand sandbox_id.expand)

lemma key_disjoint [simp]:
  "formProjectSandboxKey r p \<noteq> formSandboxProjectKey r s"
  "formSandboxProjectKey r s \<noteq> formProjectSandboxKey r p"
  "formProjectSandboxKey r p \<noteq> formReleasedKey r s"
  "formReleasedKey r s \<noteq> formProjectSandboxKey r p"
  "formProjectSandboxKey r p \<noteq> formAllProjectsSetKey r"
  "formAllProjectsSetKey r \<noteq> formProjectSandboxKey r p"
  "formSandboxProjectKey r s \<noteq> formReleasedKey r s'"
  "formReleasedKey r s' \<noteq> formSandboxProjectKey r s"
  "formSandboxProjectKey r s \<noteq> formAllProjectsSetKey r"
  "formAllProjectsSetKey r \<noteq> formSandboxProjectKey r s"
  "formReleasedKey r s \<noteq> formAllProjectsSetKey r"
  "formAllProjectsSetKey r \<noteq> formReleasedKey r s"
  by (simp_all add: store_keys)

lemmas store_views = mapped_sandbox_def mapped_project_def released_at_def known_projects_def

lemma mapped_project_later:
  "mapped_project r t' D s = Some p \<Longrightarrow> t \<le> t' \<Longrightarrow> mapped_project r t D s = Some p"
  by (auto simp: mapped_project_def split: option.splits rval.splits sum.splits dest: lookup_later)

section \<open>The contract of the store\<close>

text \<open>
  \<open>fw\<close>, \<open>bw\<close>: the project-to-sandbox mapping and its reverse as they stand at an
  instant; \<open>rel\<close>: the sandboxes marked released; \<open>known\<close>: the projects listed.
\<close>

locale project_store =
  fixes S :: "'w store" and clk :: "'w \<Rightarrow> int"
    and fw :: "int \<Rightarrow> 'w \<Rightarrow> project_id \<Rightarrow> sandbox_id option"
    and bw :: "int \<Rightarrow> 'w \<Rightarrow> sandbox_id \<Rightarrow> project_id option"
    and rel :: "int \<Rightarrow> 'w \<Rightarrow> sandbox_id \<Rightarrow> bool"
    and known :: "int \<Rightarrow> 'w \<Rightarrow> project_id set"
  assumes get_found: "st_GetProjectSandbox S c p w = (Inr s, w') \<Longrightarrow> fw (clk w') w p = Some s"
    and get_missing: "st_GetProjectSandbox S c p w = (Inl ErrNotFound, w') \<Longrightarrow> fw (clk w') w p = None"
    and get_frame: "st_GetProjectSandbox S c p w = (x, w') \<Longrightarrow>
      clk w \<le> clk w' \<and> fw t w' = fw t w \<and> bw t w' = bw t w \<and> rel t w' = rel t w"
    and set_maps: "st_SetProjectSandbox S c p s w = (None, w') \<Longrightarrow> plain_project p \<Longrightarrow>
      plain_sandbox s \<Longrightarrow> t < clk w' + projectSandboxTTL \<Longrightarrow>
      fw t w' = (fw t w)(p \<mapsto> s) \<and> bw t w' = (bw t w)(s \<mapsto> p)"
    and set_known: "st_SetProjectSandbox S c p s w = (None, w') \<Longrightarrow> clk w' \<le> t \<Longrightarrow>
      t < clk w' + projectSandboxTTL \<Longrightarrow> p \<in> known t w'"
    and set_frame: "st_SetProjectSandbox S c p s w = (None, w') \<Longrightarrow>
      clk w \<le> clk w' \<and> rel t w' = rel t w"
    and remove_maps: "st_RemoveSandboxMapping S c s w = (None, w') \<Longrightarrow>
      \<exists>t1. clk w \<le> t1 \<and> t1 \<le> clk w' \<and> (\<forall>t.
        (case bw t1 w s of
           None \<Rightarrow> fw t w' = fw t w \<and> bw t w' = bw t w
         | Some p \<Rightarrow> fw t w' = (fw t w)(p := None) \<and> bw t w' = (bw t w)(s := None)))"
    and remove_marks: "st_RemoveSandboxMapping S c s w = (None, w') \<Longrightarrow>
      t < clk w' + minutes 5 \<Longrightarrow> rel t w' s"
    and released_answer: "st_IsSandboxReleased S c s w = (Inr b, w') \<Longrightarrow> b = rel (clk w') w s"
    and released_frame: "st_IsSandboxReleased S c s w = (y, w') \<Longrightarrow>
      clk w \<le> clk w' \<and> fw t w' = fw t w \<and> bw t w' = bw t w \<and> rel t w' = rel t w"
    and all_sound: "st_GetAllProjectSandboxMappings S c w = (Inr m, w') \<Longrightarrow>
      m p = Some s \<Longrightarrow> fw (clk w') w p = Some s"
    and all_complete: "st_GetAllProjectSandboxMappings S c w = (Inr m, w') \<Longrightarrow>
      plain_project p \<Longrightarrow> p \<in> known (clk w') w \<Longrightarrow> fw (clk w') w p = Some s \<Longrightarrow> m p = Some s"
begin

lemma set_then_get:
  assumes "st_SetProjectSandbox S c p s w = (None, w1)" and "plain_project p" and "plain_sandbox s"
    and "st_GetProjectSandbox S c' p w1 = (x, w2)" and "clk w2 < clk w1 + projectSandboxTTL"
  shows "x \<noteq> Inl ErrNotFound \<and> (\<forall>s'. x = Inr s' \<longrightarrow> s' = s)"
  using set_maps [OF assms(1-3,5)] assms(4) get_found get_missing by fastforce

lemma set_overwrites:
  assumes "st_SetProjectSandbox S c p s w = (None, w1)" and "st_SetProjectSandbox S c p s' w1 = (None, w2)"
    and "plain_project p" and "plain_sandbox s" and "plain_sandbox s'" and "s \<noteq> s'"
    and "t < clk w1 + projectSandboxTTL"
  shows "fw t w2 p = Some s' \<and> bw t w2 s = Some p \<and> bw t w2 s' = Some p"
proof -
  have "t < clk w2 + projectSandboxTTL"
    using set_frame [OF assms(2)] assms(7) by (meson add_mono le_less_trans less_le_trans order_refl)
  then show ?thesis
    using set_maps [OF assms(1,3,4,7)] set_maps [OF assms(2,3,5)] assms(6) by simp
qed

text \<open>Releasing a sandbox its project no longer uses still erases the project's mapping.\<close>

lemma stale_release_unmaps:
  assumes "st_SetProjectSandbox S c p s w = (None, w1)" and "st_SetProjectSandbox S c p s' w1 = (None, w2)"
    and "plain_project p" and "plain_sandbox s" and "plain_sandbox s'" and "s \<noteq> s'"
    and "st_RemoveSandboxMapping S c' s w2 = (None, w3)" and "clk w3 < clk w1 + projectSandboxTTL"
  shows "fw t w3 p = None"
proof -
  obtain t1 where t1: "t1 \<le> clk w3" and
    rm: "\<And>t. (case bw t1 w2 s of None \<Rightarrow> fw t w3 = fw t w2 \<and> bw t w3 = bw t w2
       | Some p \<Rightarrow> fw t w3 = (fw t w2)(p := None) \<and> bw t w3 = (bw t w2)(s := None))"
    using remove_maps [OF assms(7)] by blast
  have "bw t1 w2 s = Some p"
    using set_overwrites [OF assms(1-6)] t1 assms(8) by simp
  then show ?thesis using rm [of t] by simp
qed

lemma release_unmaps:
  assumes "st_SetProjectSandbox S c p s w = (None, w1)" and "plain_project p" and "plain_sandbox s"
    and "st_RemoveSandboxMapping S c' s w1 = (None, w2)" and "clk w2 < clk w1 + projectSandboxTTL"
  shows "fw t w2 p = None \<and> bw t w2 s = None \<and> (\<forall>t < clk w2 + minutes 5. rel t w2 s)"
proof -
  obtain t1 where t1: "t1 \<le> clk w2" and
    rm: "\<And>t. (case bw t1 w1 s of None \<Rightarrow> fw t w2 = fw t w1 \<and> bw t w2 = bw t w1
       | Some p \<Rightarrow> fw t w2 = (fw t w1)(p := None) \<and> bw t w2 = (bw t w1)(s := None))"
    using remove_maps [OF assms(4)] by blast
  have "bw t1 w1 s = Some p" using set_maps [OF assms(1-3), of t1] t1 assms(5) by simp
  then show ?thesis using rm [of t] remove_marks [OF assms(4)] by auto
qed

lemma set_then_loaded:
  assumes "st_SetProjectSandbox S c p s w = (None, w1)" and "plain_project p" and "plain_sandbox s"
    and "st_GetAllProjectSandboxMappings S c' w1 = (Inr m, w2)"
    and "clk w1 \<le> clk w2" and "clk w2 < clk w1 + projectSandboxTTL"
  shows "m p = Some s"
  using all_complete [OF assms(4,2)] set_known [OF assms(1,5,6)] set_maps [OF assms(1-3,6)] by simp

end

section \<open>The Redis store keeps the contract\<close>

text \<open>What an entry of \<open>cmds\<close> contributes to the result.\<close>

definition entry_mapping :: "string \<times> (err + string) \<Rightarrow> (project_id \<times> sandbox_id) option" where
  "entry_mapping x =
     (case x of
        (k, Inl e) \<Rightarrow> None
      | (k, Inr v) \<Rightarrow>
          (case (NewProjectID k, NewSandboxID v) of
             (Inr p, Inr s) \<Rightarrow> Some (p, s)
           | _ \<Rightarrow> None))"

lemma entry_mapping_Some:
  "entry_mapping x = Some (p, s) \<longleftrightarrow>
     (\<exists>k v. x = (k, Inr v) \<and> NewProjectID k = Inr p \<and> NewSandboxID v = Inr s)"
  by (auto simp: entry_mapping_def split: prod.splits sum.splits)

lemma collect_mappings_eq:
  "collect_mappings xs m0 = Inr m \<Longrightarrow> m = m0 ++ map_of (rev (List.map_filter entry_mapping xs))"
  by (induction xs m0 rule: collect_mappings.induct)
     (auto simp: entry_mapping_def List.map_filter_simps split: sum.splits if_splits)

lemma map_of_rev_unique:
  assumes "(p, s) \<in> set es" and "\<And>i. (p, i) \<in> set es \<Longrightarrow> i = s"
  shows "map_of (rev es) p = Some s"
proof (cases "map_of (rev es) p")
  case None
  then show ?thesis using assms(1) by (force simp: map_of_eq_None_iff)
next
  case (Some i)
  then have "(p, i) \<in> set es" using map_of_SomeD by fastforce
  then show ?thesis using assms(2) Some by simp
qed

lemma collect_mappings_sound:
  assumes "collect_mappings xs Map.empty = Inr m" and "m p = Some s"
  shows "\<exists>k v. (k, Inr v) \<in> set xs \<and> NewProjectID k = Inr p \<and> NewSandboxID v = Inr s"
proof -
  have "(p, s) \<in> set (List.map_filter entry_mapping xs)"
    using collect_mappings_eq [OF assms(1)] assms(2) map_of_SomeD by fastforce
  then show ?thesis by (auto simp: in_map_filter entry_mapping_Some)
qed

lemma collect_mappings_complete:
  assumes "collect_mappings xs Map.empty = Inr m" and "(k, Inr v) \<in> set xs"
    and "NewProjectID k = Inr p" and "NewSandboxID v = Inr s"
    and "\<And>k v i. (k, Inr v) \<in> set xs \<Longrightarrow> NewProjectID k = Inr p \<Longrightarrow> NewSandboxID v = Inr i \<Longrightarrow> i = s"
  shows "m p = Some s"
proof -
  have "(p, s) \<in> set (List.map_filter entry_mapping xs)"
    using assms(2-4) unfolding in_map_filter entry_mapping_Some by blast
  moreover have "i = s" if "(p, i) \<in> set (List.map_filter entry_mapping xs)" for i
    using that assms(5) unfolding in_map_filter entry_mapping_Some by blast
  ultimately have "map_of (rev (List.map_filter entry_mapping xs)) p = Some s"
    by (rule map_of_rev_unique)
  then show ?thesis using collect_mappings_eq [OF assms(1)] by simp
qed

lemma collect_mappings_errors:
  "collect_mappings xs m0 = Inr m \<Longrightarrow> (k, Inl e) \<in> set xs \<Longrightarrow> e = RedisNil"
  by (induction xs m0 rule: collect_mappings.induct) (auto split: sum.splits if_splits)

lemma set_alist_update: "set (AList.update k v al) \<subseteq> insert (k, v) (set al)"
  by (induction al) auto

lemma cmds_subset:
  "set (fold (\<lambda>(k, v). AList.update k v) zs al) \<subseteq> set al \<union> set zs"
proof (induction zs arbitrary: al)
  case Nil
  then show ?case by simp
next
  case (Cons z zs)
  obtain k v where z: "z = (k, v)" by (cases z)
  show ?case using Cons [of "AList.update k v al"] set_alist_update [of k v al] z by auto
qed

lemma cmds_keys:
  "fst ` set (fold (\<lambda>(k, v). AList.update k v) zs al) = fst ` set al \<union> fst ` set zs"
proof (induction zs arbitrary: al)
  case Nil
  then show ?case by simp
next
  case (Cons z zs)
  obtain k v where z: "z = (k, v)" by (cases z)
  show ?case using Cons [of "AList.update k v al"] z by (auto simp: AList.dom_update)
qed

lemma in_queue_gets:
  "(k, key) \<in> set (queue_gets r ps) \<longleftrightarrow>
     (\<exists>i. k \<in> set ps \<and> NewProjectID k = Inr i \<and> key = formProjectSandboxKey r i)"
  unfolding queue_gets_def in_map_filter
  by (auto split: sum.split_asm intro!: bexI [of _ k])

text \<open>A store whose client is a Redis server; \<open>ord\<close> lists a map's entries in some order.\<close>

locale redis_backed_store = redis_server "client r" db clk
  for r :: "'w redisStore" and db :: "'w \<Rightarrow> redis_db" and clk :: "'w \<Rightarrow> int" +
  fixes ord :: "(string \<times> (err + string)) list \<Rightarrow> (string \<times> (err + string)) list"
  assumes ord_same: "set (ord xs) = set xs"
begin

lemma GetProjectSandbox_Inr:
  "store_GetProjectSandbox r c p w = (Inr s, w') \<Longrightarrow> mapped_sandbox r (clk w') (db w) p = Some s"
  by (auto simp: store_GetProjectSandbox_def mapped_sandbox_def split: prod.splits sum.splits if_splits
      dest!: Get_ok)

lemma GetProjectSandbox_missing:
  "store_GetProjectSandbox r c p w = (Inl ErrNotFound, w') \<Longrightarrow> mapped_sandbox r (clk w') (db w) p = None"
  by (auto simp: store_GetProjectSandbox_def mapped_sandbox_def split: prod.splits sum.splits if_splits
      dest!: Get_nil)

text \<open>A mapping that stands is read, unless the \<open>GET\<close> itself fails.\<close>

lemma GetProjectSandbox_reads:
  assumes "store_GetProjectSandbox r c p w = (x, w')" and "mapped_sandbox r (clk w') (db w) p = Some s"
  shows "if \<exists>e. fst (rd_Get (client r) c (formProjectSandboxKey r p) w) = Inl e
    then \<exists>e. x = Inl e \<and> e \<noteq> ErrNotFound else x = Inr s"
proof -
  obtain y v where g: "rd_Get (client r) c (formProjectSandboxKey r p) w = (y, v)" by fastforce
  have v: "v = w'" using assms(1) g by (auto simp: store_GetProjectSandbox_def split: sum.splits if_splits)
  show ?thesis
  proof (cases y)
    case (Inl e)
    then have "e \<noteq> RedisNil"
      using Get_nil [of c "formProjectSandboxKey r p" w v] g v assms(2) by (auto simp: mapped_sandbox_def)
    then show ?thesis using assms(1) g Inl by (auto simp: store_GetProjectSandbox_def)
  next
    case (Inr t)
    then have "lookup (clk w') (db w) (formProjectSandboxKey r p) = Some (RStr t)" using Get_ok g v by simp
    then have "NewSandboxID t = Inr s" using assms(2) by (auto simp: mapped_sandbox_def split: sum.splits)
    then show ?thesis using assms(1) g Inr by (auto simp: store_GetProjectSandbox_def)
  qed
qed

lemma mapped_sandbox_same:
  "keys D (formProjectSandboxKey r p) = keys D' (formProjectSandboxKey r p) \<Longrightarrow>
   mapped_sandbox r t D p = mapped_sandbox r t D' p"
  by (simp add: mapped_sandbox_def lookup_def)

lemma GetProjectSandbox_db:
  "store_GetProjectSandbox r c p w = (x, w') \<Longrightarrow> db w' = db w \<and> clk w \<le> clk w'"
  by (auto simp: store_GetProjectSandbox_def split: prod.splits sum.splits if_splits
      dest: Get_db redis_moves)

lemma SetProjectSandbox_db:
  "SetProjectSandbox r c p s w = (None, w') \<Longrightarrow> clk w \<le> clk w' \<and>
     db w' = run_pcmds (clk w')
       [PSet (formProjectSandboxKey r p) (sid s) projectSandboxTTL,
        PSet (formSandboxProjectKey r s) (pid p) projectSandboxTTL,
        PSAdd (formAllProjectsSetKey r) (pid p),
        PExpire (formAllProjectsSetKey r) projectSandboxTTL,
        PPublish projectUpdateChannel (update_message p s)] (db w)"
  unfolding SetProjectSandbox_def
  by (auto simp del: run_pcmds_Cons run_pcmds_Nil split: prod.splits option.splits
      dest: Exec_ok redis_moves)

lemma FindProjectForSandbox_db:
  "FindProjectForSandbox r c s w = (x, w') \<Longrightarrow> db w' = db w \<and> clk w \<le> clk w'"
  by (auto simp: FindProjectForSandbox_def split: prod.splits sum.splits if_splits
      dest: Get_db redis_moves)

lemma FindProjectForSandbox_Inr:
  "FindProjectForSandbox r c s w = (Inr p, w') \<Longrightarrow>
     mapped_project r (clk w') (db w) s = (if p = ProjectID '''' then None else Some p)"
  by (auto simp: FindProjectForSandbox_def mapped_project_def project_IsValid_def
      split: prod.splits sum.splits if_splits dest!: Get_nil Get_ok dest: NewProjectID_valid)

lemma RemoveSandboxMapping_db:
  assumes "RemoveSandboxMapping r c s w = (None, w')"
  shows "\<exists>p t1. clk w \<le> t1 \<and> t1 \<le> clk w' \<and>
    mapped_project r t1 (db w) s = (if p = ProjectID '''' then None else Some p) \<and>
    db w' = run_pcmds (clk w') (removal_pipe r p s) (db w)"
proof -
  obtain p w1 rr where f: "FindProjectForSandbox r c s w = (Inr p, w1)"
    and e: "rd_Exec (client r) c False (removal_pipe r p s) w1 = ((None, rr), w')"
    using assms by (auto simp: RemoveSandboxMapping_def split: prod.splits sum.splits option.splits)
  have "clk w1 \<le> clk w'" using e by (rule redis_moves)
  then show ?thesis
    using FindProjectForSandbox_Inr [OF f] FindProjectForSandbox_db [OF f] Exec_ok [OF e] by metis
qed

text \<open>Whatever the outcome of a write: some of its commands, in order, were executed.\<close>

lemma SetProjectSandbox_part:
  "SetProjectSandbox r c p s w = (e, w') \<Longrightarrow> \<exists>cs. subseq cs
     [PSet (formProjectSandboxKey r p) (sid s) projectSandboxTTL,
      PSet (formSandboxProjectKey r s) (pid p) projectSandboxTTL,
      PSAdd (formAllProjectsSetKey r) (pid p), PExpire (formAllProjectsSetKey r) projectSandboxTTL,
      PPublish projectUpdateChannel (update_message p s)] \<and>
    db w' = run_pcmds (clk w') cs (db w)"
  by (auto simp: SetProjectSandbox_def simp del: run_pcmds_Cons split: prod.splits option.splits dest!: Exec_db)

lemma RemoveSandboxMapping_part:
  assumes "RemoveSandboxMapping r c s w = (e, w')"
  shows "\<exists>p cs. subseq cs (removal_pipe r p s) \<and> db w' = run_pcmds (clk w') cs (db w)"
proof -
  obtain x w1 where f: "FindProjectForSandbox r c s w = (x, w1)" by fastforce
  note d = FindProjectForSandbox_db [OF f]
  show ?thesis
  proof (cases x)
    case (Inl er)
    then have "db w' = run_pcmds (clk w') [] (db w)"
      using assms f d by (simp add: RemoveSandboxMapping_def)
    then show ?thesis by (metis list_emb_Nil)
  next
    case (Inr p)
    obtain e' rr where x: "rd_Exec (client r) c False (removal_pipe r p s) w1 = ((e', rr), w')"
      using assms f Inr by (auto simp: RemoveSandboxMapping_def split: prod.splits option.splits)
    show ?thesis using Exec_db [OF x] d by auto
  qed
qed

lemma IsSandboxReleased_db:
  "IsSandboxReleased r c s w = (y, w') \<Longrightarrow> db w' = db w \<and> clk w \<le> clk w'"
  by (auto simp: IsSandboxReleased_def split: prod.splits sum.splits
      dest: Exists_db redis_moves)

lemma IsSandboxReleased_Inr:
  "IsSandboxReleased r c s w = (Inr b, w') \<Longrightarrow> b = released_at r (clk w') (db w) s"
  by (auto simp: IsSandboxReleased_def released_at_def split: prod.splits sum.splits if_splits
      dest!: Exists_ok)

end

lemma build_cmds_entry:
  assumes "(k, x) \<in> set (build_cmds qs rs)" and "length rs = length qs"
  shows "\<exists>i < length qs. fst (qs ! i) = k \<and> rs ! i = x"
proof -
  have "(k, x) \<in> set (zip (map fst qs) rs)"
    using assms(1) cmds_subset [of "zip (map fst qs) rs" "[]"] by (auto simp: build_cmds_def)
  then show ?thesis using assms(2) by (auto simp: set_zip)
qed

lemma build_cmds_keys:
  "length rs = length qs \<Longrightarrow> fst ` set (build_cmds qs rs) = fst ` set qs"
  using cmds_keys [of "zip (map fst qs) rs" "[]"]
  by (simp add: build_cmds_def) (metis length_map list.set_map map_fst_zip)

text \<open>The answers \<open>rs\<close> are what database \<open>D\<close> holds at \<open>t\<close> under the queried keys.\<close>

definition answers :: "int \<Rightarrow> redis_db \<Rightarrow> (string \<times> string) list \<Rightarrow> (err + string) list \<Rightarrow> bool" where
  "answers t D qs rs \<longleftrightarrow> length rs = length qs \<and>
     (\<forall>i < length qs. (\<forall>v. rs ! i = Inr v \<longrightarrow> lookup t D (snd (qs ! i)) = Some (RStr v)) \<and>
        (rs ! i = Inl RedisNil \<longrightarrow> lookup t D (snd (qs ! i)) = None))"

lemma answers_entry:
  assumes "answers t D (queue_gets r ps) rs" and "(k, x) \<in> set (build_cmds (queue_gets r ps) rs)"
    and "NewProjectID k = Inr p"
  shows "(\<forall>v. x = Inr v \<longrightarrow> lookup t D (formProjectSandboxKey r p) = Some (RStr v)) \<and>
    (x = Inl RedisNil \<longrightarrow> lookup t D (formProjectSandboxKey r p) = None)"
proof -
  obtain i where i: "i < length (queue_gets r ps)" "fst (queue_gets r ps ! i) = k" "rs ! i = x"
    using build_cmds_entry [OF assms(2)] assms(1) by (auto simp: answers_def)
  have "(k, snd (queue_gets r ps ! i)) \<in> set (queue_gets r ps)"
    using i by (metis nth_mem prod.collapse)
  then have "snd (queue_gets r ps ! i) = formProjectSandboxKey r p"
    using assms(3) by (auto simp: in_queue_gets)
  then show ?thesis using i assms(1) by (auto simp: answers_def)
qed

context redis_backed_store
begin

lemma GetAll_run:
  assumes "GetAllProjectSandboxMappings ord r c w = (Inr m, w')"
  shows "\<exists>t1 ps rs. t1 \<le> clk w' \<and> set ps = smembers t1 (db w) (formAllProjectsSetKey r) \<and>
    answers (clk w') (db w) (queue_gets r ps) rs \<and>
    collect_mappings (ord (build_cmds (queue_gets r ps) rs)) Map.empty = Inr m"
proof -
  obtain ps w1 where sm: "rd_SMembers (client r) c (formAllProjectsSetKey r) w = (Inr ps, w1)"
    using assms by (auto simp: GetAllProjectSandboxMappings_def split: prod.splits sum.splits)
  have db1: "db w1 = db w" and ps: "set ps = smembers (clk w1) (db w) (formAllProjectsSetKey r)"
    using SMembers_db [OF sm] SMembers_ok [OF sm] by simp_all
  let ?qs = "queue_gets r ps"
  show ?thesis
  proof (cases "ps = []")
    case True
    have "ord [] = []" using ord_same [of "[]"] by simp
    moreover have "w' = w1" and "m = Map.empty"
      using assms sm True by (auto simp: GetAllProjectSandboxMappings_def)
    ultimately show ?thesis using True ps
      by (intro exI [of _ "clk w1"] exI [of _ ps] exI [of _ "[]"])
         (simp add: queue_gets_def answers_def build_cmds_def List.map_filter_simps)
  next
    case False
    obtain eo rs where ex: "rd_Exec (client r) c False (map PGet (map snd ?qs)) w1 = ((eo, rs), w')"
      and eo: "eo = None \<or> eo = Some RedisNil"
      and col: "collect_mappings (ord (build_cmds ?qs rs)) Map.empty = Inr m"
      using assms sm False
      by (auto simp: GetAllProjectSandboxMappings_def Let_def split: prod.splits if_splits)
    have "clk w1 \<le> clk w'" using ex by (rule redis_moves)
    moreover have "answers (clk w') (db w) ?qs rs"
      using Exec_gets [OF ex eo] db1 by (simp add: answers_def)
    ultimately show ?thesis using ps col by blast
  qed
qed

lemma GetAll_sound:
  assumes "GetAllProjectSandboxMappings ord r c w = (Inr m, w')" and "m p = Some s"
  shows "mapped_sandbox r (clk w') (db w) p = Some s"
proof -
  obtain ps rs where ans: "answers (clk w') (db w) (queue_gets r ps) rs"
    and col: "collect_mappings (ord (build_cmds (queue_gets r ps) rs)) Map.empty = Inr m"
    using GetAll_run [OF assms(1)] by blast
  obtain k v where "(k, Inr v) \<in> set (build_cmds (queue_gets r ps) rs)"
    and k: "NewProjectID k = Inr p" and "NewSandboxID v = Inr s"
    using collect_mappings_sound [OF col assms(2)] by (auto simp: ord_same)
  then show ?thesis using answers_entry [OF ans _ k] by (simp add: mapped_sandbox_def)
qed

lemma GetAll_complete:
  assumes "GetAllProjectSandboxMappings ord r c w = (Inr m, w')" and "plain_project p"
    and "p \<in> known_projects r (clk w') (db w)" and "mapped_sandbox r (clk w') (db w) p = Some s"
  shows "m p = Some s"
proof -
  obtain t1 ps rs where t1: "t1 \<le> clk w'"
    and ps: "set ps = smembers t1 (db w) (formAllProjectsSetKey r)"
    and ans: "answers (clk w') (db w) (queue_gets r ps) rs"
    and col: "collect_mappings (ord (build_cmds (queue_gets r ps) rs)) Map.empty = Inr m"
    using GetAll_run [OF assms(1)] by blast
  let ?cmds = "build_cmds (queue_gets r ps) rs"
  have "pid p \<in> set ps"
    using assms(3) t1 ps by (auto simp: known_projects_def smembers_def
        split: option.splits rval.splits dest: lookup_later)
  then have "(pid p, formProjectSandboxKey r p) \<in> set (queue_gets r ps)"
    using assms(2) by (simp add: in_queue_gets)
  then have "pid p \<in> fst ` set (queue_gets r ps)" by (metis fst_conv imageI)
  then have "pid p \<in> fst ` set ?cmds"
    using build_cmds_keys [of rs "queue_gets r ps"] ans by (simp add: answers_def)
  then obtain x where x: "(pid p, x) \<in> set ?cmds" by auto
  obtain v where v: "lookup (clk w') (db w) (formProjectSandboxKey r p) = Some (RStr v)"
    and s: "NewSandboxID v = Inr s"
    using assms(4) by (auto simp: mapped_sandbox_def split: option.splits rval.splits sum.splits)
  have same: "u = v" if "(k, Inr u) \<in> set ?cmds" and "NewProjectID k = Inr p" for k u
    using answers_entry [OF ans that] v by simp
  have "x = Inr v"
  proof (cases x)
    case (Inl e)
    then have "e = RedisNil"
      using collect_mappings_errors [OF col] x by (simp add: ord_same)
    then show ?thesis using answers_entry [OF ans x] assms(2) Inl v by simp
  next
    case (Inr u)
    then show ?thesis using same x assms(2) by simp
  qed
  show ?thesis
  proof (rule collect_mappings_complete [OF col _ plain_project_parse [OF assms(2)] s])
    show "(pid p, Inr v) \<in> set (ord ?cmds)" using x \<open>x = Inr v\<close> by (simp add: ord_same)
    fix k u i
    assume "(k, Inr u) \<in> set (ord ?cmds)" and "NewProjectID k = Inr p" and "NewSandboxID u = Inr i"
    then show "i = s" using same [of k u] s by (simp add: ord_same)
  qed
qed

end

lemma run_removal:
  "p \<noteq> ProjectID '''' \<Longrightarrow>
     mapped_sandbox r t (run_pcmds u (removal_pipe r p s) D) = (mapped_sandbox r t D)(p := None) \<and>
     mapped_project r t (run_pcmds u (removal_pipe r p s) D) = (mapped_project r t D)(s := None)"
  by (auto simp: removal_pipe_def mapped_sandbox_def mapped_project_def fun_eq_iff lookup_sput)

lemma run_removal_none:
  "mapped_sandbox r t (run_pcmds u (removal_pipe r (ProjectID '''') s) D) = mapped_sandbox r t D \<and>
   mapped_project r t (run_pcmds u (removal_pipe r (ProjectID '''') s) D) = mapped_project r t D"
  by (auto simp: removal_pipe_def mapped_sandbox_def mapped_project_def fun_eq_iff)

lemma run_removal_released:
  "t < u + minutes 5 \<Longrightarrow> released_at r t (run_pcmds u (removal_pipe r p s) D) s"
  by (auto simp: removal_pipe_def released_at_def)

sublocale redis_backed_store \<subseteq> ps: project_store "redis_Store ord r" clk
  "\<lambda>t w. mapped_sandbox r t (db w)" "\<lambda>t w. mapped_project r t (db w)"
  "\<lambda>t w. released_at r t (db w)" "\<lambda>t w. known_projects r t (db w)"
proof (unfold_locales, goal_cases)
  case (4 c p s w w' t)
  then show ?case
    using SetProjectSandbox_db [of c p s w w']
    by (auto simp: redis_Store_def mapped_sandbox_def mapped_project_def fun_eq_iff lookup_sput
        split: option.splits)
next
  case (5 c p s w w' t)
  then show ?case
    using SetProjectSandbox_db [of c p s w w']
    by (auto simp: redis_Store_def known_projects_def lookup_sput smembers_def expiry_alive
        split: option.splits)
next
  case (6 c p s w w' t)
  then show ?case
    using SetProjectSandbox_db [of c p s w w']
    by (auto simp: redis_Store_def released_at_def fun_eq_iff lookup_sput split: option.splits)
next
  case (7 c s w w')
  then obtain p t1 where t1: "clk w \<le> t1" "t1 \<le> clk w'"
    and p: "mapped_project r t1 (db w) s = (if p = ProjectID '''' then None else Some p)"
    and db': "db w' = run_pcmds (clk w') (removal_pipe r p s) (db w)"
    using RemoveSandboxMapping_db [of c s w w'] by (auto simp: redis_Store_def)
  show ?case
    using t1 p by (intro exI [of _ t1]) (simp add: db' run_removal run_removal_none)
next
  case (8 c s w w' t)
  then show ?case
    using RemoveSandboxMapping_db [of c s w w'] run_removal_released [of t "clk w'"]
    by (auto simp: redis_Store_def)
next
  case (1 c p w s w')
  then show ?case by (simp add: redis_Store_def GetProjectSandbox_Inr)
next
  case (2 c p w w')
  then show ?case by (simp add: redis_Store_def GetProjectSandbox_missing)
next
  case (3 c p w x w' t)
  then show ?case using GetProjectSandbox_db [of c p w x w'] by (simp add: redis_Store_def)
next
  case (9 c s w b w')
  then show ?case by (simp add: redis_Store_def IsSandboxReleased_Inr)
next
  case (10 c s w y w' t)
  then show ?case using IsSandboxReleased_db [of c s w y w'] by (simp add: redis_Store_def)
next
  case (11 c w m w' p s)
  then show ?case using GetAll_sound [of c w m w' p s] by (simp add: redis_Store_def)
next
  case (12 c w m w' p s)
  then show ?case using GetAll_complete [of c w m w' p s] by (simp add: redis_Store_def)
qed

context redis_backed_store
begin

lemma contract:
  "project_store (redis_Store ord r) clk
     (\<lambda>t w. mapped_sandbox r t (db w)) (\<lambda>t w. mapped_project r t (db w))
     (\<lambda>t w. released_at r t (db w)) (\<lambda>t w. known_projects r t (db w))"
  by (rule ps.project_store_axioms)

end

section \<open>The store on the simulated server\<close>

definition sim_store :: "world redisStore" where
  "sim_store = \<lparr>client = sim_redis, keyPrefix = defaultKeyPrefix\<rparr>"

lemma sim_store_simps [simp]: "client sim_store = sim_redis"
  by (simp add: sim_store_def)

interpretation sim_ps: redis_backed_store sim_store w_db w_clk "\<lambda>xs. xs"
  by (unfold_locales) (simp_all add: sim.redis_server_axioms [unfolded redis_server_def])

lemma redis_backed_store_id:
  "redis_server (client r) db clk \<Longrightarrow> redis_backed_store r db clk (\<lambda>xs. xs)"
  by (simp add: redis_backed_store_def redis_backed_store_axioms_def)

lemma redis_store_contract:
  "redis_server (client r) db clk \<Longrightarrow> project_store (redis_Store (\<lambda>xs. xs) r) clk
     (\<lambda>t w. mapped_sandbox r t (db w)) (\<lambda>t w. mapped_project r t (db w))
     (\<lambda>t w. released_at r t (db w)) (\<lambda>t w. known_projects r t (db w))"
  by (rule redis_backed_store.contract [OF redis_backed_store_id])

lemma redis_Store_simps [simp]:
  "st_GetProjectSandbox (redis_Store ord r) = store_GetProjectSandbox r"
  "st_SetProjectSandbox (redis_Store ord r) = SetProjectSandbox r"
  "st_FindProjectForSandbox (redis_Store ord r) = FindProjectForSandbox r"
  "st_RemoveSandboxMapping (redis_Store ord r) = RemoveSandboxMapping r"
  "st_IsSandboxReleased (redis_Store ord r) = IsSandboxReleased r"
  "st_GetAllProjectSandboxMappings (redis_Store ord r) = GetAllProjectSandboxMappings ord r"
  by (simp_all add: redis_Store_def)

lemmas store_eval = SetProjectSandbox_def store_GetProjectSandbox_def RemoveSandboxMapping_def
  FindProjectForSandbox_def IsSandboxReleased_def GetAllProjectSandboxMappings_def removal_pipe_def
  sim_store_def store_keys defaultKeyPrefix_def projectSandboxTTL_def projectUpdateChannel_def
  update_message_def removal_message_def NewSandboxID_def NewProjectID_def trim_prefix_def
  SandboxPrefix_def ProjectPrefix_def

section \<open>Properties of the store\<close>

text \<open>
  C19 (a written mapping is read back). After \<open>SetProjectSandbox\<close> has succeeded, and for
  24 hours, in any later world that still has the project's key as it was written,
  \<open>GetProjectSandbox\<close> of the project returns the sandbox written, unless its \<open>GET\<close> fails:
  then, and only then, it returns an error, which is not the one for a project without a
  sandbox. The identifiers must not themselves start with the prefix the readers strip.
\<close>

theorem store_set_then_get:
  assumes "redis_server (client r) db clk"
    and "SetProjectSandbox r c p s w = (None, w1)" and "plain_project p" and "plain_sandbox s"
    and "keys (db v) (formProjectSandboxKey r p) = keys (db w1) (formProjectSandboxKey r p)"
    and "store_GetProjectSandbox r c' p v = (x, w2)" and "clk w2 < clk w1 + hours 24"
  shows "if \<exists>e. fst (rd_Get (client r) c' (formProjectSandboxKey r p) v) = Inl e
    then \<exists>e. x = Inl e \<and> e \<noteq> ErrNotFound else x = Inr s"
proof -
  have "mapped_sandbox r (clk w2) (db w1) p = Some s"
    using project_store.set_maps [OF redis_store_contract [OF assms(1)], of c p s w w1 "clk w2"] assms(2-4,7)
    by (simp add: projectSandboxTTL_def)
  then have "mapped_sandbox r (clk w2) (db v) p = Some s"
    using redis_backed_store.mapped_sandbox_same [OF redis_backed_store_id [OF assms(1)] assms(5)] by simp
  then show ?thesis
    by (rule redis_backed_store.GetProjectSandbox_reads [OF redis_backed_store_id [OF assms(1)] assms(6)])
qed

theorem store_set_then_get_witness:
  "fst (store_GetProjectSandbox sim_store background (ProjectID ''a'')
     (snd (SetProjectSandbox sim_store background (ProjectID ''a'') (SandboxID ''s'') init_world)))
   = Inr (SandboxID ''s'')"
proof -
  let ?w1 = "snd (SetProjectSandbox sim_store background (ProjectID ''a'') (SandboxID ''s'') init_world)"
  let ?g = "store_GetProjectSandbox sim_store background (ProjectID ''a'') ?w1"
  have 1: "SetProjectSandbox sim_store background (ProjectID ''a'') (SandboxID ''s'') init_world = (None, ?w1)"
    by (simp add: store_eval sim_eval)
  have 2: "w_clk (snd ?g) < w_clk ?w1 + hours 24"
    by (simp add: store_eval sim_eval)
  have 3: "\<not> (\<exists>e. fst (rd_Get (client sim_store) background
      (formProjectSandboxKey sim_store (ProjectID ''a'')) ?w1) = Inl e)"
    by (simp add: store_eval sim_eval)
  show ?thesis
    using store_set_then_get [where db = w_db and r = sim_store and v = ?w1, OF _ 1 _ _ _ _ 2,
        where x = "fst ?g" and c' = background] sim.redis_server_axioms 3
    by (auto simp: plain_ids_eval)
qed

text \<open>
  A release unmaps. Releasing the sandbox a project was given erases the project's
  mapping for good, and for five minutes the sandbox is reported as released.
\<close>

lemma store_release_unmaps:
  assumes "redis_server (client r) db clk"
    and "SetProjectSandbox r c p s w = (None, w1)" and "plain_project p" and "plain_sandbox s"
    and "RemoveSandboxMapping r c' s w1 = (None, w2)" and "clk w2 < clk w1 + hours 24"
  shows "(\<forall>t. mapped_sandbox r t (db w2) p = None) \<and>
    (\<forall>c'' b w3. IsSandboxReleased r c'' s w2 = (Inr b, w3) \<and> clk w3 < clk w2 + minutes 5 \<longrightarrow> b)"
proof -
  note S = redis_store_contract [OF assms(1)]
  have rel: "mapped_sandbox r t (db w2) p = None \<and> (\<forall>t < clk w2 + minutes 5. released_at r t (db w2) s)" for t
    using project_store.release_unmaps [OF S, of c p s w w1 c' w2 t] assms(2-)
    by (simp add: projectSandboxTTL_def)
  then show ?thesis using project_store.released_answer [OF S, of _ s w2]
    unfolding redis_Store_simps by blast
qed

text \<open>
  A late release hits the new sandbox. When a project has been moved from one sandbox
  to another and the old sandbox is released afterwards, the project's mapping to the
  new, live sandbox is erased: the project is then reported to have no sandbox.
\<close>

lemma store_stale_release:
  assumes "redis_server (client r) db clk"
    and "SetProjectSandbox r c p s w = (None, w1)" and "SetProjectSandbox r c p s' w1 = (None, w2)"
    and "plain_project p" and "plain_sandbox s" and "plain_sandbox s'" and "s \<noteq> s'"
    and "RemoveSandboxMapping r c' s w2 = (None, w3)" and "clk w3 < clk w1 + hours 24"
  shows "(\<forall>t < clk w1 + hours 24. mapped_sandbox r t (db w2) p = Some s') \<and>
    (\<forall>t. mapped_sandbox r t (db w3) p = None)"
proof -
  note S = redis_store_contract [OF assms(1)]
  show ?thesis
    using project_store.set_overwrites [OF S, of c p s w w1 s' w2]
      project_store.stale_release_unmaps [OF S, of c p s w w1 s' w2 c' w3] assms(2-)
    by (simp add: projectSandboxTTL_def)
qed

text \<open>A mapping written for a project whose identifier starts with the prefix.\<close>

context redis_backed_store
begin

lemma prefixed_reread:
  assumes "SetProjectSandbox r c (ProjectID (ProjectPrefix @ v)) s w = (None, w1)" and "v \<noteq> ''''"
    and "t < clk w1 + projectSandboxTTL"
  shows "mapped_project r t (db w1) s = Some (ProjectID v)"
  using SetProjectSandbox_db [OF assms(1)] assms(2,3)
  by (simp add: mapped_project_def lookup_sput NewProjectID_def split: option.splits)

lemma set_keeps_other:
  assumes "SetProjectSandbox r c p s w = (None, w1)" and "q \<noteq> p"
  shows "mapped_sandbox r t (db w1) q = mapped_sandbox r t (db w) q"
  using SetProjectSandbox_db [OF assms(1)] assms(2)
  by (simp add: mapped_sandbox_def lookup_sput split: option.splits)

lemma set_maps_fw:
  assumes "SetProjectSandbox r c p s w = (None, w1)" and "plain_sandbox s"
    and "t < clk w1 + projectSandboxTTL"
  shows "mapped_sandbox r t (db w1) p = Some s"
  using SetProjectSandbox_db [OF assms(1)] assms(2,3)
  by (simp add: mapped_sandbox_def lookup_sput split: option.splits)

lemma remove_known:
  assumes "RemoveSandboxMapping r c s w = (None, w1)"
    and "\<And>t1. clk w \<le> t1 \<Longrightarrow> t1 \<le> clk w1 \<Longrightarrow> mapped_project r t1 (db w) s = Some p"
  shows "mapped_sandbox r t (db w1) = (mapped_sandbox r t (db w))(p := None)"
proof -
  obtain q t1 where "clk w \<le> t1" "t1 \<le> clk w1"
    and q: "mapped_project r t1 (db w) s = (if q = ProjectID '''' then None else Some q)"
    and d: "db w1 = run_pcmds (clk w1) (removal_pipe r q s) (db w)"
    using RemoveSandboxMapping_db [OF assms(1)] by blast
  then have "q \<noteq> ProjectID '''' \<and> q = p" using assms(2) [of t1] by (simp split: if_splits)
  then show ?thesis using run_removal [of q r t "clk w1" s "db w"] d by metis
qed

lemma prefixed_release:
  assumes "SetProjectSandbox r c (ProjectID (ProjectPrefix @ v)) s w = (None, w1)" and "v \<noteq> ''''"
    and "plain_sandbox s" and "RemoveSandboxMapping r c' s w1 = (None, w2)"
    and "clk w2 < clk w1 + projectSandboxTTL"
  shows "mapped_sandbox r t (db w2) (ProjectID v) = None \<and>
    (t \<le> clk w2 \<longrightarrow> mapped_sandbox r t (db w2) (ProjectID (ProjectPrefix @ v)) = Some s)"
proof -
  have ne: "ProjectID (ProjectPrefix @ v) \<noteq> ProjectID v" by (simp add: ProjectPrefix_def)
  have "mapped_sandbox r t (db w2) = (mapped_sandbox r t (db w1))(ProjectID v := None)"
    using remove_known [OF assms(4)] prefixed_reread [OF assms(1,2)] assms(5) by simp
  then show ?thesis using set_maps_fw [OF assms(1,3), of t] ne assms(5) by simp
qed

end

text \<open>
  A release that reaches another project. When the project identifier itself starts with
  \<open>project-\<close>, the reverse mapping is read back with that prefix stripped: releasing the
  sandbox of project \<open>project-v\<close> erases the mapping of the unrelated project \<open>v\<close> and keeps
  its own mapping to the released sandbox.
\<close>

lemma store_release_wrong_project:
  assumes "redis_server (client r) db clk"
    and "SetProjectSandbox r c (ProjectID (ProjectPrefix @ v)) s w = (None, w1)" and "v \<noteq> ''''"
    and "plain_sandbox s" and "RemoveSandboxMapping r c' s w1 = (None, w2)"
    and "clk w2 < clk w1 + hours 24"
  shows "mapped_sandbox r t (db w2) (ProjectID v) = None \<and>
    (t \<le> clk w2 \<longrightarrow> mapped_sandbox r t (db w2) (ProjectID (ProjectPrefix @ v)) = Some s)"
  using redis_backed_store.prefixed_release [OF redis_backed_store_id [OF assms(1)], of c v s w w1 c' w2 t]
    assms(2-) by (simp add: projectSandboxTTL_def)

text \<open>
  Loading all mappings: every entry is a current mapping, and every listed project with a
  readable identifier has exactly the entry the store holds for it, whatever the order in
  which the map of pipeline results is visited.
\<close>

lemma all_mappings:
  assumes "redis_server (client r) db clk" and "\<And>xs. set (ord xs) = set xs"
    and "GetAllProjectSandboxMappings ord r c w = (Inr m, w')"
  shows "m \<subseteq>\<^sub>m mapped_sandbox r (clk w') (db w) \<and>
    (\<forall>p. plain_project p \<and> p \<in> known_projects r (clk w') (db w) \<longrightarrow>
      m p = mapped_sandbox r (clk w') (db w) p)"
proof -
  have L: "redis_backed_store r db clk ord"
    using assms(1,2) by (simp add: redis_backed_store_def redis_backed_store_axioms_def)
  have le: "m \<subseteq>\<^sub>m mapped_sandbox r (clk w') (db w)"
    using redis_backed_store.GetAll_sound [OF L assms(3)]
    by (auto simp: map_le_def dom_def)
  have "m p = mapped_sandbox r (clk w') (db w) p"
    if "plain_project p" and "p \<in> known_projects r (clk w') (db w)" for p
    using redis_backed_store.GetAll_complete [OF L assms(3) that]
      redis_backed_store.GetAll_sound [OF L assms(3), of p]
    by (cases "m p"; cases "mapped_sandbox r (clk w') (db w) p") auto
  then show ?thesis using le by blast
qed

lemma sim_load:
  "\<exists>m w'. GetAllProjectSandboxMappings (\<lambda>xs. xs) sim_store background
     (snd (SetProjectSandbox sim_store background (ProjectID ''a'') (SandboxID ''s'') init_world)) = (Inr m, w') \<and>
   m (ProjectID ''a'') = Some (SandboxID ''s'')"
proof -
  let ?w1 = "snd (SetProjectSandbox sim_store background (ProjectID ''a'') (SandboxID ''s'') init_world)"
  obtain m w' where 1: "GetAllProjectSandboxMappings (\<lambda>xs. xs) sim_store background ?w1 = (Inr m, w')"
    and w': "w' = tick ?w1 \<or> w' = tick (tick ?w1)"
    by (simp add: store_eval sim_eval queue_gets_def List.map_filter_simps build_cmds_def)
  have m: "\<And>p. plain_project p \<Longrightarrow> p \<in> known_projects sim_store (w_clk w') (w_db ?w1) \<Longrightarrow>
      m p = mapped_sandbox sim_store (w_clk w') (w_db ?w1) p"
    using all_mappings [where db = w_db and clk = w_clk, OF _ _ 1] sim.redis_server_axioms by simp
  have "m (ProjectID ''a'') = mapped_sandbox sim_store (w_clk w') (w_db ?w1) (ProjectID ''a'')"
    using w' by (intro m)
      (auto simp: plain_ids_eval known_projects_def store_eval sim_eval)
  also have "\<dots> = Some (SandboxID ''s'')"
    using w' by (auto simp: mapped_sandbox_def store_eval sim_eval)
  finally show ?thesis using 1 by blast
qed

section \<open>Update messages\<close>

lemma split_update:
  "CHR '':'' \<notin> set (pid p) \<Longrightarrow>
     split_n 3 (CHR '':'') (update_message p s) = [pid p, ''update'', sid s]"
  using split_n_three [of "CHR '':''" "pid p" "''update''" "sid s"] by (simp add: update_message_def)

lemma split_removal:
  "CHR '':'' \<notin> set (pid p) \<Longrightarrow>
     split_n 3 (CHR '':'') (removal_message p) = [pid p, ''remove'', '''']"
  using split_n_three [of "CHR '':''" "pid p" "''remove''" "''''"] by (simp add: removal_message_def)

text \<open>
  C36 (messages round trip). For identifiers that are valid, carry no prefix and, for the
  project, no colon, the subscriber decodes exactly what the publisher encoded.
\<close>

theorem message_roundtrip:
  assumes "plain_project p" and "plain_sandbox s" and "CHR '':'' \<notin> set (pid p)"
  shows "parse_update (update_message p s) = Some (p, s, False) \<and>
    parse_update (removal_message p) = Some (p, SandboxID '''', True)"
  using assms by (simp add: parse_update_def split_update split_removal)

theorem message_roundtrip_witness:
  "parse_update (update_message (ProjectID ''shop'') (SandboxID ''k3'')) =
     Some (ProjectID ''shop'', SandboxID ''k3'', False)"
  using message_roundtrip [of "ProjectID ''shop''" "SandboxID ''k3''"]
  by (simp add: plain_ids_eval)

text \<open>
  A colon in a project identifier forges messages. The update published for the
  project \<open>v:remove:\<dots>\<close> is decoded as the removal of the unrelated project \<open>v\<close>, and the
  update published for \<open>v:x\<close> as an assignment of project \<open>v\<close> whose sandbox is the rest of
  the message.
\<close>

lemma message_injection:
  assumes "plain_project (ProjectID v)" and "CHR '':'' \<notin> set v" and "CHR '':'' \<notin> set x"
    and "x \<noteq> ''remove''"
  shows "parse_update (update_message (ProjectID (v @ '':remove:'' @ tail)) s) =
      Some (ProjectID v, SandboxID '''', True) \<and>
    (plain_sandbox (SandboxID (''update:'' @ sid s)) \<longrightarrow>
      parse_update (update_message (ProjectID (v @ '':'' @ x)) s) =
        Some (ProjectID v, SandboxID (''update:'' @ sid s), False))"
proof -
  have v: "NewProjectID v = Inr (ProjectID v)" using plain_project_parse [OF assms(1)] by simp
  have "split_n 3 (CHR '':'') (update_message (ProjectID (v @ '':remove:'' @ tail)) s) =
      [v, ''remove'', tail @ '':update:'' @ sid s]"
    using split_n_three [of "CHR '':''" v "''remove''" "tail @ '':update:'' @ sid s"] assms(2)
    by (simp add: update_message_def)
  moreover have "split_n 3 (CHR '':'') (update_message (ProjectID (v @ '':'' @ x)) s) =
      [v, x, ''update:'' @ sid s]"
    using split_n_three [of "CHR '':''" v x "''update:'' @ sid s"] assms(2,3)
    by (simp add: update_message_def)
  ultimately show ?thesis
    using v assms(4) plain_sandbox_parse [of "SandboxID (''update:'' @ sid s)"]
    by (simp add: parse_update_def)
qed

text \<open>The message for a callback's arguments, and the arguments that a message can carry.\<close>

definition message_of :: "project_id \<times> sandbox_id \<times> bool \<Rightarrow> string" where
  "message_of u = (case u of (p, s, rm) \<Rightarrow> if rm then removal_message p else update_message p s)"

definition sendable :: "project_id \<times> sandbox_id \<times> bool \<Rightarrow> bool" where
  "sendable u \<longleftrightarrow> (case u of (p, s, rm) \<Rightarrow>
     plain_project p \<and> CHR '':'' \<notin> set (pid p) \<and> (if rm then s = SandboxID '''' else plain_sandbox s))"

lemma parse_message_of: "sendable u \<Longrightarrow> parse_update (message_of u) = Some u"
  by (cases u) (auto simp: message_of_def sendable_def parse_update_def split_update split_removal
      split: if_splits)

text \<open>
  The subscription delivers in order. Up to the first receive error, the callback is
  called once per published message, in order, with the published arguments; messages it
  cannot decode are skipped; after an error nothing is delivered any more.
\<close>

lemma receive_loop_delivers:
  assumes "\<And>u. u \<in> set us \<Longrightarrow> sendable u" and "parse_update junk = None"
  shows "receive_loop (map (\<lambda>u. Inr (message_of u)) us @ Inr junk # map (\<lambda>u. Inr (message_of u)) us @ Inl e # rest) =
    us @ us"
proof -
  have step: "receive_loop (map (\<lambda>u. Inr (message_of u)) vs @ xs) = vs @ receive_loop xs"
    if "\<And>u. u \<in> set vs \<Longrightarrow> sendable u" for vs xs
    using that by (induction vs) (simp_all add: parse_message_of)
  show ?thesis using assms(2) by (simp add: step [OF assms(1)])
qed

end
