(* ===== verification/K8s_Client.thy ===== *)
theory K8s_Client
  imports Cluster_Sim Ids
begin

text \<open>
  The Kubernetes client of the scheduler: \<open>scheduler/internal/k8sclient/interface.go\<close>,
  \<open>client.go\<close> and the mock of \<open>mock.go\<close>.
\<close>

section \<open>The interface\<close>

text \<open>
  \<open>K8sClientInterface\<close>. A wait runs over the wake-ups the runtime gives it; \<open>None\<close>
  means that it is still waiting after the last of them.
\<close>

record 'w k8s =
  k8_ScheduleSandbox :: "ctx \<Rightarrow> ('w, err + sandbox_id) op"
  k8_ReleaseSandbox :: "ctx \<Rightarrow> sandbox_id \<Rightarrow> ('w, err option) op"
  k8_IsSandboxReady :: "ctx \<Rightarrow> sandbox_id \<Rightarrow> ('w, err + bool) op"
  k8_IsSandboxGone :: "ctx \<Rightarrow> sandbox_id \<Rightarrow> ('w, err + bool) op"
  k8_WaitForSandboxReady :: "'w wake list \<Rightarrow> ctx \<Rightarrow> sandbox_id \<Rightarrow> ('w, (err + bool) option) op"
  k8_GetPodsOlderThan :: "ctx \<Rightarrow> int \<Rightarrow> string \<Rightarrow> ('w, err + string list \<times> string) op"
  k8_CreateOrUpdateProjectService :: "ctx \<Rightarrow> project_id \<Rightarrow> sandbox_id \<Rightarrow> ('w, err option) op"
  k8_DeleteProjectService :: "ctx \<Rightarrow> project_id \<Rightarrow> ('w, err option) op"
  k8_GetProjectServiceHostname :: "project_id \<Rightarrow> string"

section \<open>The client\<close>

definition DefaultCPU :: string where "DefaultCPU = ''0.1''"
definition DefaultMemory :: string where "DefaultMemory = ''128Mi''"

record 'w k8sClient =
  clientset :: "'w kube"
  namespace :: string
  useGvisor :: bool
  sandboxImage :: string
  runtime :: "'w runtime"

definition resource_list :: labels where
  "resource_list = [''cpu'' \<mapsto> DefaultCPU, ''memory'' \<mapsto> DefaultMemory]"

definition liveness_probe :: probe where
  "liveness_probe = \<lparr>pr_path = ''/health'', pr_port = 8000, pr_initial_delay = 1,
     pr_period = 60, pr_timeout = 5, pr_success = 1, pr_failure = 3\<rparr>"

definition startup_probe :: probe where
  "startup_probe = \<lparr>pr_path = ''/ready'', pr_port = 8000, pr_initial_delay = 0,
     pr_period = 1, pr_timeout = 5, pr_success = 1, pr_failure = 5\<rparr>"

definition sandbox_container :: "'w k8sClient \<Rightarrow> sandbox_id \<Rightarrow> container" where
  "sandbox_container k s =
     \<lparr>ct_name = ''sandbox-container'', ct_image = sandboxImage k, ct_args = [],
      ct_pull_policy = ''IfNotPresent'', ct_requests = resource_list, ct_limits = resource_list,
      ct_env = [(''SANDBOX_ID'', sid s)], ct_liveness = Some liveness_probe,
      ct_startup = Some startup_probe\<rparr>"

definition gvisor_toleration :: toleration where
  "gvisor_toleration = \<lparr>tol_key = ''sandbox.gke.io/runtime'', tol_operator = ''Equal'',
     tol_value = ''gvisor'', tol_effect = ''NoSchedule''\<rparr>"

definition base_pod_spec :: "'w k8sClient \<Rightarrow> sandbox_id \<Rightarrow> pod_spec" where
  "base_pod_spec k s =
     \<lparr>sp_containers = [sandbox_container k s], sp_restart_policy = ''Never'',
      sp_run_as_non_root = Some True, sp_run_as_user = Some 1000, sp_fs_group = Some 1000,
      sp_grace_period = Some 30, sp_dns_policy = ''None'',
      sp_nameservers = [''8.8.8.8'', ''1.1.1.1''], sp_node_selector = Map.empty,
      sp_tolerations = [], sp_node_name = ''''\<rparr>"

definition sandbox_pod_spec :: "'w k8sClient \<Rightarrow> sandbox_id \<Rightarrow> pod_spec" where
  "sandbox_pod_spec k s =
     (let spec = base_pod_spec k s
      in if useGvisor k
         then spec\<lparr>sp_node_selector := (sp_node_selector spec)(''sandbox.gke.io/runtime'' \<mapsto> ''gvisor''),
                   sp_tolerations := sp_tolerations spec @ [gvisor_toleration]\<rparr>
         else spec)"

text \<open>The object the client submits: the status fields are the zero values.\<close>

definition sandbox_pod :: "'w k8sClient \<Rightarrow> sandbox_id \<Rightarrow> pod" where
  "sandbox_pod k s =
     \<lparr>pod_name = sandbox_WithPrefix s, pod_namespace = namespace k,
      pod_labels = [''app'' \<mapsto> ''sandbox'', ''managed-by'' \<mapsto> ''scheduler'', ''sandbox-id'' \<mapsto> sid s],
      pod_annotations =
        (if useGvisor k then [''sandbox.scheduler/isolation'' \<mapsto> ''gvisor''] else Map.empty),
      pod_created = 0, pod_deletion = None, pod_spec = sandbox_pod_spec k s,
      pod_phase = PodUnknown, pod_conditions = [], pod_containers = []\<rparr>"

definition k8s_ScheduleSandbox :: "'w k8sClient \<Rightarrow> ctx \<Rightarrow> ('w, err + sandbox_id) op" where
  "k8s_ScheduleSandbox k c w =
     (let nanos = rt_now (runtime k) w;
          (b, w1) = rt_uuid0 (runtime k) w;
          s = GenerateSandboxID nanos b
      in case kb_pod_create (clientset k) c (namespace k) (sandbox_pod k s) w1 of
           (Some e, w2) \<Rightarrow> (Inl (errorf_v ''failed to create pod: '' e), w2)
         | (None, w2) \<Rightarrow> (Inr s, w2))"

definition k8s_ReleaseSandbox :: "'w k8sClient \<Rightarrow> ctx \<Rightarrow> sandbox_id \<Rightarrow> ('w, err option) op" where
  "k8s_ReleaseSandbox k c s w =
     (case kb_pod_delete (clientset k) c (namespace k) (sandbox_WithPrefix s) w of
        (Some e, w1) \<Rightarrow>
          (if kb_IsNotFound (clientset k) e then (None, w1)
           else (Some (errorf_v (''failed to delete pod '' @ sid s @ '': '') e), w1))
      | (None, w1) \<Rightarrow> (None, w1))"

section \<open>Watching pods\<close>

definition container_failed :: "container_status \<Rightarrow> bool" where
  "container_failed cs =
     (case cs_waiting cs of
        None \<Rightarrow> False
      | Some reason \<Rightarrow>
          reason \<in> {''CrashLoopBackOff'', ''ImagePullBackOff'', ''ErrImagePull'', ''CreateContainerError''})"

definition unschedulable :: "pod_condition \<Rightarrow> bool" where
  "unschedulable cd \<longleftrightarrow> cond_type cd = ''PodScheduled'' \<and> cond_status cd = ''False'' \<and>
     cond_reason cd = ''Unschedulable''"

definition shouldSendEvent :: "pod \<Rightarrow> bool" where
  "shouldSendEvent p \<longleftrightarrow>
     pod_phase p = PodFailed \<or> pod_phase p = PodSucceeded \<or>
     list_ex unschedulable (pod_conditions p) \<or>
     list_ex container_failed (pod_containers p)"

text \<open>\<open>None\<close>: the pod gives no event, nothing is sent.\<close>

definition processPodEvent :: "pod \<Rightarrow> pod_event chan \<Rightarrow> send_result option \<times> pod_event chan" where
  "processPodEvent p ch =
     (if pod_labels p ''managed-by'' \<noteq> Some ''scheduler'' then (None, ch)
      else case NewSandboxID (pod_name p) of
        Inl _ \<Rightarrow> (None, ch)
      | Inr s \<Rightarrow>
          (if shouldSendEvent p
           then let ev = \<lparr>ev_sandbox = s,
                          ev_type = (if pod_deletion p \<noteq> None then PodAlreadyDeleted else PodToBeDeleted)\<rparr>;
                    (r, ch') = chan_try_send ev ch
                in (Some r, ch')
           else (None, ch)))"

text \<open>
  The loop over the watcher's results: each event comes with whether the watch context is
  already cancelled when it is taken, and the pod it holds (if it holds one). A send on the
  closed channel panics, which ends the program.
\<close>

datatype watch_end = WatchExited | WatchCancelled | WatchPanic

fun watch_loop :: "(bool \<times> pod option) list \<Rightarrow> pod_event chan \<Rightarrow> watch_end \<times> pod_event chan" where
  "watch_loop [] ch = (WatchExited, ch)"
| "watch_loop ((cancelled, obj) # evs) ch =
     (if cancelled then (WatchCancelled, ch)
      else case obj of
        None \<Rightarrow> watch_loop evs ch
      | Some p \<Rightarrow>
          (case processPodEvent p ch of
             (Some SendPanic, ch') \<Rightarrow> (WatchPanic, ch')
           | (_, ch') \<Rightarrow> watch_loop evs ch'))"

definition new_event_chan :: "pod_event chan" where
  "new_event_chan = \<lparr>chan_buf = [], chan_cap = 100, chan_closed = False\<rparr>"

section \<open>Project services\<close>

definition project_service_object :: "'w k8sClient \<Rightarrow> project_id \<Rightarrow> sandbox_id \<Rightarrow> kservice" where
  "project_service_object k p s =
     \<lparr>svc_name = project_WithPrefix p, svc_namespace = namespace k,
      svc_labels = [''app'' \<mapsto> ''project-service'', ''managed-by'' \<mapsto> ''scheduler'',
                    ''project-id'' \<mapsto> pid p],
      svc_annotations = [''sandbox.scheduler/project-id'' \<mapsto> pid p,
                         ''sandbox.scheduler/sandbox-id'' \<mapsto> sid s],
      svc_cluster_ip = ''None'', svc_selector = [''sandbox-id'' \<mapsto> sid s],
      svc_ports = [\<lparr>port_name = ''http'', port_port = 8000, port_target = 8000,
                     port_protocol = ''TCP''\<rparr>]\<rparr>"

definition CreateOrUpdateProjectService ::
  "'w k8sClient \<Rightarrow> ctx \<Rightarrow> project_id \<Rightarrow> sandbox_id \<Rightarrow> ('w, err option) op" where
  "CreateOrUpdateProjectService k c p s w =
     (let service = project_service_object k p s
      in case kb_svc_get (clientset k) c (namespace k) (project_WithPrefix p) w of
           (Inl _, w1) \<Rightarrow>
             (case kb_svc_create (clientset k) c (namespace k) service w1 of
                (Some e, w2) \<Rightarrow> (Some (errorf_v ''failed to create project service: '' e), w2)
              | (None, w2) \<Rightarrow> (None, w2))
         | (Inr existing, w1) \<Rightarrow>
             (case kb_svc_update (clientset k) c (namespace k)
                (existing\<lparr>svc_selector := svc_selector service,
                          svc_annotations := svc_annotations service\<rparr>) w1 of
                (Some e, w2) \<Rightarrow> (Some (errorf_v ''failed to update project service: '' e), w2)
              | (None, w2) \<Rightarrow> (None, w2)))"

definition DeleteProjectService :: "'w k8sClient \<Rightarrow> ctx \<Rightarrow> project_id \<Rightarrow> ('w, err option) op" where
  "DeleteProjectService k c p w =
     (case kb_svc_delete (clientset k) c (namespace k) (project_WithPrefix p) w of
        (Some e, w1) \<Rightarrow> (Some (errorf_v ''failed to delete project service: '' e), w1)
      | (None, w1) \<Rightarrow> (None, w1))"

definition GetProjectServiceHostname :: "'w k8sClient \<Rightarrow> project_id \<Rightarrow> string" where
  "GetProjectServiceHostname k p = project_WithPrefix p @ ''.'' @ namespace k @ ''.svc''"

section \<open>Readiness\<close>

definition pod_ready :: "pod \<Rightarrow> bool" where
  "pod_ready p =
     (if pod_phase p = PodFailed \<or> pod_phase p = PodSucceeded then False
      else if pod_phase p = PodPending then (if sp_node_name (pod_spec p) \<noteq> '''' then False else False)
      else if pod_phase p = PodRunning then list_all cs_ready (pod_containers p)
      else False)"

definition k8s_IsSandboxReady :: "'w k8sClient \<Rightarrow> ctx \<Rightarrow> sandbox_id \<Rightarrow> ('w, err + bool) op" where
  "k8s_IsSandboxReady k c s w =
     (case kb_pod_get (clientset k) c (namespace k) (sandbox_WithPrefix s) w of
        (Inl e, w1) \<Rightarrow>
          (if kb_IsNotFound (clientset k) e then (Inr False, w1)
           else (Inl (errorf_v (''failed to get pod '' @ sid s @ '': '') e), w1))
      | (Inr p, w1) \<Rightarrow> (Inr (pod_ready p), w1))"

definition k8s_IsSandboxGone :: "'w k8sClient \<Rightarrow> ctx \<Rightarrow> sandbox_id \<Rightarrow> ('w, err + bool) op" where
  "k8s_IsSandboxGone k c s w =
     (case kb_pod_get (clientset k) c (namespace k) (sandbox_WithPrefix s) w of
        (Inl e, w1) \<Rightarrow>
          (if kb_IsNotFound (clientset k) e then (Inr True, w1)
           else (Inl (errorf_v (''failed to get pod '' @ sandbox_WithPrefix s @ '': '') e), w1))
      | (Inr p, w1) \<Rightarrow> (Inr False, w1))"

text \<open>The polling loop, one step per wake-up of its \<open>select\<close>.\<close>

fun wait_ready_loop ::
  "'w k8sClient \<Rightarrow> ctx \<Rightarrow> sandbox_id \<Rightarrow> 'w wake list \<Rightarrow> ('w, (err + bool) option) op" where
  "wait_ready_loop k c s [] w = (None, w)"
| "wait_ready_loop k c s (wk # wks) w =
     (let w1 = wake_env wk w
      in case (ctx_err c (rt_now (runtime k) w1), wake_tick wk) of
           (Some e, False) \<Rightarrow>
             (Some (Inl (errorf_v ''context cancelled while waiting for sandbox to be ready: '' e)), w1)
         | _ \<Rightarrow>
             (case k8s_IsSandboxReady k c s w1 of
                (Inl _, w2) \<Rightarrow> wait_ready_loop k c s wks w2
              | (Inr True, w2) \<Rightarrow> (Some (Inr True), w2)
              | (Inr False, w2) \<Rightarrow>
                  (case k8s_IsSandboxGone k c s w2 of
                     (Inl _, w3) \<Rightarrow> wait_ready_loop k c s wks w3
                   | (Inr True, w3) \<Rightarrow>
                       (Some (Inl (ErrText ''sandbox is gone while waiting for it to be ready'')), w3)
                   | (Inr False, w3) \<Rightarrow> wait_ready_loop k c s wks w3)))"

definition k8s_WaitForSandboxReady ::
  "'w k8sClient \<Rightarrow> 'w wake list \<Rightarrow> ctx \<Rightarrow> sandbox_id \<Rightarrow> ('w, (err + bool) option) op" where
  "k8s_WaitForSandboxReady k wks c s w =
     (case k8s_IsSandboxReady k c s w of
        (Inl e, w1) \<Rightarrow> (Some (Inl (errorf_v ''failed to check if sandbox is ready: '' e)), w1)
      | (Inr True, w1) \<Rightarrow> (Some (Inr True), w1)
      | (Inr False, w1) \<Rightarrow> wait_ready_loop k c s wks w1)"

definition older_list_options :: "string \<Rightarrow> list_options" where
  "older_list_options continueToken =
     (let lo = \<lparr>lo_selector = ''managed-by=scheduler'', lo_limit = 100, lo_continue = ''''\<rparr>
      in if continueToken \<noteq> '''' then lo\<lparr>lo_continue := continueToken\<rparr> else lo)"

definition k8s_GetPodsOlderThan ::
  "'w k8sClient \<Rightarrow> ctx \<Rightarrow> int \<Rightarrow> string \<Rightarrow> ('w, err + string list \<times> string) op" where
  "k8s_GetPodsOlderThan k c olderThan continueToken w =
     (case kb_pod_list (clientset k) c (namespace k) (older_list_options continueToken) w of
        (Inl e, w1) \<Rightarrow> (Inl (errorf_v ''failed to list pods: '' e), w1)
      | (Inr (items, cont), w1) \<Rightarrow>
          (Inr (map pod_name (filter (\<lambda>p. pod_created p < olderThan) items), cont), w1))"

definition k8s_iface :: "'w k8sClient \<Rightarrow> 'w k8s" where
  "k8s_iface k =
     \<lparr>k8_ScheduleSandbox = k8s_ScheduleSandbox k,
      k8_ReleaseSandbox = k8s_ReleaseSandbox k,
      k8_IsSandboxReady = k8s_IsSandboxReady k,
      k8_IsSandboxGone = k8s_IsSandboxGone k,
      k8_WaitForSandboxReady = k8s_WaitForSandboxReady k,
      k8_GetPodsOlderThan = k8s_GetPodsOlderThan k,
      k8_CreateOrUpdateProjectService = CreateOrUpdateProjectService k,
      k8_DeleteProjectService = DeleteProjectService k,
      k8_GetProjectServiceHostname = GetProjectServiceHostname k\<rparr>"

section \<open>The mock client\<close>

definition DefaultNamespace :: string where "DefaultNamespace = ''sandbox''"

definition mock_GetProjectServiceHostname :: "project_id \<Rightarrow> string" where
  "mock_GetProjectServiceHostname p =
     ''project-'' @ pid p @ ''.'' @ DefaultNamespace @ ''.svc.cluster.local''"

definition mock_ScheduleSandbox :: "'w runtime \<Rightarrow> ctx \<Rightarrow> ('w, err + sandbox_id) op" where
  "mock_ScheduleSandbox rt c w =
     (let nanos = rt_now rt w; (b, w1) = rt_uuid0 rt w in (Inr (GenerateSandboxID nanos b), w1))"

text \<open>A \<open>select\<close> on the context and a timer of 100ms: one wake-up decides.\<close>

definition mock_WaitForSandboxReady ::
  "'w runtime \<Rightarrow> 'w wake list \<Rightarrow> ctx \<Rightarrow> sandbox_id \<Rightarrow> ('w, (err + bool) option) op" where
  "mock_WaitForSandboxReady rt wks c s w =
     (case wks of
        [] \<Rightarrow> (None, w)
      | wk # _ \<Rightarrow>
          (let w1 = wake_env wk w
           in case (ctx_err c (rt_now rt w1), wake_tick wk) of
                (Some e, False) \<Rightarrow> (Some (Inl e), w1)
              | _ \<Rightarrow> (Some (Inr True), w1)))"

text \<open>
  The mock's queue of events: tests put events into it, and stopping the watchers closes it.
  Closing a closed channel panics (\<open>None\<close>).
\<close>

record mock_client =
  mk_eventChan :: "pod_event chan"

definition NewMockK8sClient :: mock_client where
  "NewMockK8sClient = \<lparr>mk_eventChan = \<lparr>chan_buf = [], chan_cap = 100, chan_closed = False\<rparr>\<rparr>"

definition mock_StartWatchers :: "mock_client \<Rightarrow> mock_client" where
  "mock_StartWatchers m = m"

definition mock_StopWatchers :: "mock_client \<Rightarrow> mock_client option" where
  "mock_StopWatchers m =
     (if chan_closed (mk_eventChan m) then None
      else Some (m\<lparr>mk_eventChan := chan_close (mk_eventChan m)\<rparr>))"

definition SendMockEvent ::
  "pod_event_type \<Rightarrow> sandbox_id \<Rightarrow> mock_client \<Rightarrow> send_result \<times> mock_client" where
  "SendMockEvent ty s m =
     (let (r, ch) = chan_try_send \<lparr>ev_sandbox = s, ev_type = ty\<rparr> (mk_eventChan m)
      in (r, m\<lparr>mk_eventChan := ch\<rparr>))"

text \<open>
  Of the events sent to a fresh mock that nobody drains the first hundred are kept, in order;
  once its watchers are stopped, sending and stopping again panic.
\<close>

lemma mock_keeps_100:
  "chan_buf (mk_eventChan (fold (\<lambda>(ty, s) m. snd (SendMockEvent ty s m)) evs NewMockK8sClient)) =
     take 100 (map (\<lambda>(ty, s). \<lparr>ev_sandbox = s, ev_type = ty\<rparr>) evs)"
proof -
  let ?f = "\<lambda>(ty, s) m. snd (SendMockEvent ty s m)"
  let ?g = "\<lambda>(ty, s). \<lparr>ev_sandbox = s, ev_type = ty\<rparr>"
  have "mk_eventChan (fold ?f evs NewMockK8sClient) =
      \<lparr>chan_buf = take 100 (map ?g evs), chan_cap = 100, chan_closed = False\<rparr>"
  proof (induction evs rule: rev_induct)
    case (snoc e es)
    then show ?case by (cases e) (auto simp: SendMockEvent_def chan_try_send_def split: prod.splits)
  qed (simp add: NewMockK8sClient_def)
  then show ?thesis by simp
qed

lemma mock_stopped:
  "mock_StopWatchers m = Some m' \<Longrightarrow> fst (SendMockEvent ty s m') = SendPanic \<and> mock_StopWatchers m' = None"
  by (auto simp: mock_StopWatchers_def SendMockEvent_def chan_try_send_def chan_close_def
      split: if_splits)

definition mock_iface :: "'w runtime \<Rightarrow> 'w k8s" where
  "mock_iface rt =
     \<lparr>k8_ScheduleSandbox = mock_ScheduleSandbox rt,
      k8_ReleaseSandbox = (\<lambda>c s w. (None, w)),
      k8_IsSandboxReady = (\<lambda>c s w. (Inr True, w)),
      k8_IsSandboxGone = (\<lambda>c s w. (Inr False, w)),
      k8_WaitForSandboxReady = mock_WaitForSandboxReady rt,
      k8_GetPodsOlderThan = (\<lambda>c t tok w. (Inr ([], ''''), w)),
      k8_CreateOrUpdateProjectService = (\<lambda>c p s w. (None, w)),
      k8_DeleteProjectService = (\<lambda>c p w. (None, w)),
      k8_GetProjectServiceHostname = mock_GetProjectServiceHostname\<rparr>"

section \<open>The contract of the client\<close>

text \<open>
  What the services above rely on. \<open>live\<close>: the sandbox has a pod (running or not);
  \<open>readied\<close>: its pod is running with all containers ready; \<open>routed\<close>: the sandbox that the
  service of a project selects; \<open>db\<close>: the content of Redis, which the client leaves alone.
\<close>

locale sandbox_backend =
  fixes B :: "'w k8s" and db :: "'w \<Rightarrow> redis_db" and clk :: "'w \<Rightarrow> int"
    and live :: "'w \<Rightarrow> sandbox_id \<Rightarrow> bool" and readied :: "'w \<Rightarrow> sandbox_id \<Rightarrow> bool"
    and routed :: "'w \<Rightarrow> project_id \<Rightarrow> sandbox_id option"
  assumes create_ok: "k8_ScheduleSandbox B c w = (Inr s, w') \<Longrightarrow> 0 \<le> clk w \<Longrightarrow> clk w + 255 < 2 ^ 63 \<Longrightarrow>
      plain_sandbox s \<and> \<not> live w s \<and> live w' s \<and> (\<forall>s'. s' \<noteq> s \<longrightarrow> live w' s' = live w s')"
    and create_frame: "k8_ScheduleSandbox B c w = (x, w') \<Longrightarrow> db w' = db w \<and> clk w \<le> clk w'"
    and release_frame: "k8_ReleaseSandbox B c s w = (e, w') \<Longrightarrow> db w' = db w \<and> clk w \<le> clk w'"
    and gone_answer: "k8_IsSandboxGone B c s w = (Inr b, w') \<Longrightarrow> sandbox_IsValid s \<Longrightarrow> b = (\<not> live w s)"
    and gone_frame: "k8_IsSandboxGone B c s w = (bx, w') \<Longrightarrow>
      db w' = db w \<and> clk w \<le> clk w' \<and> live w' = live w"
    and ready_answer: "k8_IsSandboxReady B c s w = (Inr b, w') \<Longrightarrow> sandbox_IsValid s \<Longrightarrow> b = readied w s"
    and ready_frame: "k8_IsSandboxReady B c s w = (bx, w') \<Longrightarrow>
      db w' = db w \<and> clk w \<le> clk w' \<and> readied w' = readied w"
    and wait_answer: "k8_WaitForSandboxReady B wks c s w = (Some (Inr b), w') \<Longrightarrow> sandbox_IsValid s \<Longrightarrow>
      b \<and> readied w' s"
    and upsert_ok: "k8_CreateOrUpdateProjectService B c p s w = (None, w') \<Longrightarrow> project_IsValid p \<Longrightarrow>
      routed w' = (routed w)(p \<mapsto> s)"
    and upsert_frame: "k8_CreateOrUpdateProjectService B c p s w = (e, w') \<Longrightarrow>
      db w' = db w \<and> clk w \<le> clk w'"

section \<open>The client keeps the contract\<close>

definition pod_of :: "'w k8sClient \<Rightarrow> ('w \<Rightarrow> string \<Rightarrow> string \<rightharpoonup> pod) \<Rightarrow> 'w \<Rightarrow> sandbox_id \<Rightarrow> pod option" where
  "pod_of k pods w s = pods w (namespace k) (sandbox_WithPrefix s)"

definition pod_live :: "'w k8sClient \<Rightarrow> ('w \<Rightarrow> string \<Rightarrow> string \<rightharpoonup> pod) \<Rightarrow> 'w \<Rightarrow> sandbox_id \<Rightarrow> bool" where
  "pod_live k pods w s \<longleftrightarrow> sandbox_IsValid s \<and> pod_of k pods w s \<noteq> None"

definition pod_readied :: "'w k8sClient \<Rightarrow> ('w \<Rightarrow> string \<Rightarrow> string \<rightharpoonup> pod) \<Rightarrow> 'w \<Rightarrow> sandbox_id \<Rightarrow> bool" where
  "pod_readied k pods w s \<longleftrightarrow>
     (\<exists>p. pod_of k pods w s = Some p \<and> pod_phase p = PodRunning \<and> list_all cs_ready (pod_containers p))"

definition svc_routed ::
  "'w k8sClient \<Rightarrow> ('w \<Rightarrow> string \<Rightarrow> string \<rightharpoonup> kservice) \<Rightarrow> 'w \<Rightarrow> project_id \<Rightarrow> sandbox_id option" where
  "svc_routed k svcs w p =
     (if \<not> project_IsValid p then None
      else case svcs w (namespace k) (project_WithPrefix p) of
        None \<Rightarrow> None
      | Some s \<Rightarrow> map_option SandboxID (svc_selector s ''sandbox-id''))"

lemma pod_ready_iff:
  "pod_ready p \<longleftrightarrow> pod_phase p = PodRunning \<and> list_all cs_ready (pod_containers p)"
  by (cases "pod_phase p") (simp_all add: pod_ready_def)

locale k8s_client = cluster R db clk "clientset k" pods svcs "runtime k"
  for R :: "'w redis" and db :: "'w \<Rightarrow> redis_db" and clk :: "'w \<Rightarrow> int"
    and k :: "'w k8sClient" and pods :: "'w \<Rightarrow> string \<Rightarrow> string \<rightharpoonup> pod"
    and svcs :: "'w \<Rightarrow> string \<Rightarrow> string \<rightharpoonup> kservice"
begin

lemma ScheduleSandbox_run:
  assumes "k8s_ScheduleSandbox k c w = (Inr s, w')"
  shows "\<exists>b w1. rt_uuid0 (runtime k) w = (b, w1) \<and> s = GenerateSandboxID (clk w) b \<and>
    kb_pod_create (clientset k) c (namespace k) (sandbox_pod k s) w1 = (None, w')"
  using assms
  by (auto simp: k8s_ScheduleSandbox_def Let_def now_clk split: prod.splits option.splits)

lemma ScheduleSandbox_pods:
  assumes "k8s_ScheduleSandbox k c w = (Inr s, w')"
  shows "pod_of k pods w s = None \<and>
    (\<exists>p. pods w' (namespace k) = (pods w (namespace k))(sandbox_WithPrefix s \<mapsto> p) \<and>
      pod_name p = sandbox_WithPrefix s \<and> pod_labels p = pod_labels (sandbox_pod k s) \<and>
      pod_spec p = sandbox_pod_spec k s)"
proof -
  obtain b w1 where u: "rt_uuid0 (runtime k) w = (b, w1)"
    and cr: "kb_pod_create (clientset k) c (namespace k) (sandbox_pod k s) w1 = (None, w')"
    using ScheduleSandbox_run [OF assms] by blast
  have "pods w1 = pods w" using uuid_frame [OF u] by simp
  then show ?thesis using pod_create_ok [OF cr] by (auto simp: sandbox_pod_def pod_of_def)
qed

lemma ScheduleSandbox_frame:
  "k8s_ScheduleSandbox k c w = (x, w') \<Longrightarrow> db w' = db w \<and> clk w \<le> clk w'"
  by (fastforce simp: k8s_ScheduleSandbox_def Let_def split: prod.splits option.splits
      dest: uuid_frame kube_frames)

lemma ReleaseSandbox_frame:
  "k8s_ReleaseSandbox k c s w = (e, w') \<Longrightarrow> db w' = db w \<and> clk w \<le> clk w'"
  by (auto simp: k8s_ReleaseSandbox_def split: prod.splits option.splits if_splits dest: kube_frames)

lemma IsSandboxReady_Inr:
  "k8s_IsSandboxReady k c s w = (Inr b, w') \<Longrightarrow> b = pod_readied k pods w s"
  by (auto simp: k8s_IsSandboxReady_def pod_readied_def pod_of_def pod_ready_iff
      split: prod.splits sum.splits if_splits dest: pod_get_missing pod_get_ok)

lemma pod_get_frame:
  "kb_pod_get (clientset k) c ns n w = (x, w') \<Longrightarrow> db w' = db w \<and> clk w \<le> clk w' \<and> pods w' = pods w"
  using kube_frames(2) pod_get_pods by blast

lemma IsSandboxReady_frame:
  "k8s_IsSandboxReady k c s w = (x, w') \<Longrightarrow> db w' = db w \<and> clk w \<le> clk w' \<and> pods w' = pods w"
  by (auto simp: k8s_IsSandboxReady_def split: prod.splits sum.splits if_splits dest: pod_get_frame)

lemma IsSandboxGone_Inr:
  "k8s_IsSandboxGone k c s w = (Inr b, w') \<Longrightarrow> b = (pod_of k pods w s = None)"
  by (auto simp: k8s_IsSandboxGone_def pod_of_def
      split: prod.splits sum.splits if_splits dest: pod_get_missing pod_get_ok)

lemma IsSandboxGone_frame:
  "k8s_IsSandboxGone k c s w = (x, w') \<Longrightarrow> db w' = db w \<and> clk w \<le> clk w' \<and> pods w' = pods w"
  by (auto simp: k8s_IsSandboxGone_def split: prod.splits sum.splits if_splits dest: pod_get_frame)

lemma wait_ready_loop_Inr:
  "wait_ready_loop k c s wks w = (Some (Inr b), w') \<Longrightarrow> b \<and> pod_readied k pods w' s"
proof (induction wks arbitrary: w)
  case Nil
  then show ?case by simp
next
  case (Cons wk wks)
  let ?w1 = "wake_env wk w"
  obtain x w2 where r: "k8s_IsSandboxReady k c s ?w1 = (x, w2)" by fastforce
  obtain y w3 where g: "k8s_IsSandboxGone k c s w2 = (y, w3)" by fastforce
  have "x = Inr True \<Longrightarrow> pod_readied k pods w2 s"
    using IsSandboxReady_Inr [of c s ?w1 True w2] IsSandboxReady_frame [OF r] r
    by (simp add: pod_readied_def pod_of_def)
  then show ?case using Cons.prems Cons.IH
    by (auto simp: Let_def r g split: option.splits bool.splits sum.splits)
qed

lemma WaitForSandboxReady_Inr:
  assumes "k8s_WaitForSandboxReady k wks c s w = (Some (Inr b), w')"
  shows "b \<and> pod_readied k pods w' s"
proof -
  obtain x w1 where r: "k8s_IsSandboxReady k c s w = (x, w1)" by fastforce
  have "x = Inr True \<Longrightarrow> pod_readied k pods w1 s"
    using IsSandboxReady_Inr [of c s w True w1] IsSandboxReady_frame [OF r] r
    by (simp add: pod_readied_def pod_of_def)
  then show ?thesis using assms wait_ready_loop_Inr [of c s wks w1 b w']
    by (auto simp: k8s_WaitForSandboxReady_def r split: sum.splits bool.splits)
qed

text \<open>After a successful upsert the service of the project selects the sandbox.\<close>

lemma CreateOrUpdate_svcs:
  assumes "CreateOrUpdateProjectService k c p s w = (None, w')"
  shows "\<exists>v. svcs w' (namespace k) = (svcs w (namespace k))(project_WithPrefix p \<mapsto> v) \<and>
    svc_selector v = [''sandbox-id'' \<mapsto> sid s] \<and>
    svc_annotations v = svc_annotations (project_service_object k p s) \<and>
    (\<forall>old. svcs w (namespace k) (project_WithPrefix p) = Some old \<longrightarrow>
      v = old\<lparr>svc_selector := svc_selector v, svc_annotations := svc_annotations v\<rparr>)"
proof -
  let ?n = "project_WithPrefix p"
  obtain x w1 where g: "kb_svc_get (clientset k) c (namespace k) ?n w = (x, w1)" by fastforce
  have s1: "svcs w1 = svcs w" using svc_get_svcs [OF g] .
  show ?thesis
  proof (cases x)
    case (Inl e)
    then have "kb_svc_create (clientset k) c (namespace k) (project_service_object k p s) w1 = (None, w')"
      using assms g
      by (auto simp: CreateOrUpdateProjectService_def Let_def split: prod.splits option.splits)
    then show ?thesis using svc_create_ok s1
      by (intro exI [of _ "project_service_object k p s"]) (fastforce simp: project_service_object_def)
  next
    case (Inr old)
    let ?v = "old\<lparr>svc_selector := svc_selector (project_service_object k p s),
      svc_annotations := svc_annotations (project_service_object k p s)\<rparr>"
    have u: "kb_svc_update (clientset k) c (namespace k) ?v w1 = (None, w')"
      using assms g Inr
      by (auto simp: CreateOrUpdateProjectService_def Let_def split: prod.splits option.splits)
    have "svcs w (namespace k) ?n = Some old \<and> svc_name old = ?n" using svc_get_ok g Inr by simp
    then show ?thesis using svc_update_ok [OF u] s1
      by (intro exI [of _ ?v]) (simp add: project_service_object_def)
  qed
qed

lemma CreateOrUpdate_frame:
  "CreateOrUpdateProjectService k c p s w = (e, w') \<Longrightarrow> db w' = db w \<and> clk w \<le> clk w'"
  by (fastforce simp: CreateOrUpdateProjectService_def Let_def
      split: prod.splits sum.splits option.splits dest: kube_frames)

end

lemma k8s_iface_simps [simp]:
  "k8_ScheduleSandbox (k8s_iface k) = k8s_ScheduleSandbox k"
  "k8_ReleaseSandbox (k8s_iface k) = k8s_ReleaseSandbox k"
  "k8_IsSandboxReady (k8s_iface k) = k8s_IsSandboxReady k"
  "k8_IsSandboxGone (k8s_iface k) = k8s_IsSandboxGone k"
  "k8_WaitForSandboxReady (k8s_iface k) = k8s_WaitForSandboxReady k"
  "k8_GetPodsOlderThan (k8s_iface k) = k8s_GetPodsOlderThan k"
  "k8_CreateOrUpdateProjectService (k8s_iface k) = CreateOrUpdateProjectService k"
  "k8_DeleteProjectService (k8s_iface k) = DeleteProjectService k"
  "k8_GetProjectServiceHostname (k8s_iface k) = GetProjectServiceHostname k"
  by (simp_all add: k8s_iface_def)

lemma plain_generated:
  assumes "0 \<le> n" and "n + 255 < 2 ^ 63"
  shows "plain_sandbox (GenerateSandboxID n b)"
proof -
  note g = generated_text [OF assms, of b]
  have "set (sid (GenerateSandboxID n b)) \<subseteq> set charset"
    using g digits36_charset [of "n + uint b"] by (auto simp: encodeBase36_digits charset_def)
  then have "\<not> prefix SandboxPrefix (sid (GenerateSandboxID n b))"
    using charset_no_dash by (auto simp: SandboxPrefix_def prefix_def)
  moreover have "sid (GenerateSandboxID n b) \<noteq> ''''"
    using g by (auto simp: encodeBase36_digits digits36_Nil_iff)
  ultimately show ?thesis by (simp add: plain_sandbox_def sandbox_IsValid_def)
qed

lemma pod_live_put:
  "sandbox_IsValid s \<Longrightarrow> pods w' (namespace k) = (pods w (namespace k))(sandbox_WithPrefix s \<mapsto> p) \<Longrightarrow>
     pod_live k pods w' s \<and> (\<forall>s'. s' \<noteq> s \<longrightarrow> pod_live k pods w' s' = pod_live k pods w s')"
  by (auto simp: pod_live_def pod_of_def dest: sandbox_WithPrefix_inj)

lemma svc_routed_put:
  assumes "project_IsValid p" and "svcs w' (namespace k) = (svcs w (namespace k))(project_WithPrefix p \<mapsto> v)"
    and "svc_selector v = [''sandbox-id'' \<mapsto> sid s]"
  shows "svc_routed k svcs w' = (svc_routed k svcs w)(p \<mapsto> s)"
proof
  fix q
  show "svc_routed k svcs w' q = ((svc_routed k svcs w)(p \<mapsto> s)) q"
    using assms project_WithPrefix_inj [of q p] by (cases "q = p") (auto simp: svc_routed_def)
qed

sublocale k8s_client \<subseteq> be: sandbox_backend "k8s_iface k" db clk
  "pod_live k pods" "pod_readied k pods" "svc_routed k svcs"
proof (unfold_locales, goal_cases)
  case (1 c w s w')
  then have run: "k8s_ScheduleSandbox k c w = (Inr s, w')" by simp
  have plain: "plain_sandbox s"
    using ScheduleSandbox_run [OF run] plain_generated 1(2,3) by auto
  then have valid: "sandbox_IsValid s" by (simp add: plain_sandbox_def)
  obtain p where "pods w' (namespace k) = (pods w (namespace k))(sandbox_WithPrefix s \<mapsto> p)"
    and "pod_of k pods w s = None"
    using ScheduleSandbox_pods [OF run] by blast
  then show ?case using plain pod_live_put [OF valid, of pods w' k w p] by (simp add: pod_live_def)
next
  case (2 c w x w')
  then show ?case by (simp add: ScheduleSandbox_frame)
next
  case (3 c s w e w')
  then show ?case by (simp add: ReleaseSandbox_frame)
next
  case (4 c s w b w')
  then show ?case using IsSandboxGone_Inr [of c s w b w'] by (simp add: pod_live_def)
next
  case (5 c s w bx w')
  then show ?case using IsSandboxGone_frame [of c s w bx w'] by (simp add: pod_live_def pod_of_def fun_eq_iff)
next
  case (6 c s w b w')
  then show ?case by (simp add: IsSandboxReady_Inr)
next
  case (7 c s w bx w')
  then show ?case using IsSandboxReady_frame [of c s w bx w'] by (simp add: pod_readied_def pod_of_def fun_eq_iff)
next
  case (8 wks c s w b w')
  then show ?case using WaitForSandboxReady_Inr [of wks c s w b w'] by simp
next
  case (9 c p s w w')
  then show ?case using CreateOrUpdate_svcs [of c p s w w'] svc_routed_put [of p svcs w' k w _ s] by auto
next
  case (10 c p s w e w')
  then show ?case by (simp add: CreateOrUpdate_frame)
qed

context k8s_client
begin

lemma contract:
  "sandbox_backend (k8s_iface k) db clk (pod_live k pods) (pod_readied k pods) (svc_routed k svcs)"
  by (rule be.sandbox_backend_axioms)

end

section \<open>The client on the simulated cluster\<close>

definition sim_client :: "world k8sClient" where
  "sim_client = \<lparr>clientset = sim_kube, namespace = DefaultNamespace, useGvisor = True,
     sandboxImage = ''sandbox:1'', runtime = sim_runtime\<rparr>"

lemma sim_client_simps [simp]:
  "clientset sim_client = sim_kube" "runtime sim_client = sim_runtime"
  "namespace sim_client = DefaultNamespace"
  by (simp_all add: sim_client_def)

interpretation sim_kc: k8s_client sim_redis w_db w_clk sim_client sim_pods sim_svcs
  by (simp add: k8s_client_def sim_c.cluster_axioms)

lemma cluster_contract:
  "cluster R db clk (clientset k) pods svcs (runtime k) \<Longrightarrow>
   sandbox_backend (k8s_iface k) db clk (pod_live k pods) (pod_readied k pods) (svc_routed k svcs)"
  by (rule k8s_client.contract) (simp add: k8s_client_def)

section \<open>Properties of the client\<close>

lemma cluster_client: "cluster R db clk (clientset k) pods svcs (runtime k) \<Longrightarrow> k8s_client R db clk k pods svcs"
  by (simp add: k8s_client_def)

lemma sim_cluster: "cluster sim_redis w_db w_clk (clientset sim_client) sim_pods sim_svcs (runtime sim_client)"
  using sim_c.cluster_axioms by simp

lemmas client_eval = k8s_ScheduleSandbox_def k8s_ReleaseSandbox_def k8s_IsSandboxReady_def
  k8s_IsSandboxGone_def k8s_WaitForSandboxReady_def CreateOrUpdateProjectService_def
  sandbox_pod_def project_service_object_def sim_client_def DefaultNamespace_def

text \<open>
  C20 (the pod of a new sandbox). A successful \<open>ScheduleSandbox\<close> adds exactly one pod to
  the namespace, under a name that was free. The pod carries the labels by which the
  watcher, the cleanup and the project's service find it, runs as a non-root user with its
  resources limited and is never restarted; with gVisor enabled, and only then, it is
  bound to gVisor nodes by selector and toleration.
\<close>

theorem sandbox_pod_created:
  assumes "cluster R db clk (clientset k) pods svcs (runtime k)"
    and "k8s_ScheduleSandbox k c w = (Inr s, w')"
  shows "pods w (namespace k) (sandbox_WithPrefix s) = None \<and>
    (\<exists>p. pods w' (namespace k) = (pods w (namespace k))(sandbox_WithPrefix s \<mapsto> p) \<and>
      pod_labels p ''managed-by'' = Some ''scheduler'' \<and> pod_labels p ''sandbox-id'' = Some (sid s) \<and>
      svc_selector (project_service_object k q s) \<subseteq>\<^sub>m pod_labels p \<and>
      sp_run_as_non_root (pod_spec p) = Some True \<and> sp_run_as_user (pod_spec p) = Some 1000 \<and>
      sp_restart_policy (pod_spec p) = ''Never'' \<and>
      (\<forall>ct \<in> set (sp_containers (pod_spec p)). ct_image ct = sandboxImage k \<and> ct_limits ct = ct_requests ct \<and>
        ct_env ct = [(''SANDBOX_ID'', sid s)]) \<and>
      sp_node_selector (pod_spec p) ''sandbox.gke.io/runtime'' = (if useGvisor k then Some ''gvisor'' else None) \<and>
      (gvisor_toleration \<in> set (sp_tolerations (pod_spec p)) \<longleftrightarrow> useGvisor k))"
proof -
  obtain p where "pod_of k pods w s = None"
    and "pods w' (namespace k) = (pods w (namespace k))(sandbox_WithPrefix s \<mapsto> p)"
    and "pod_labels p = pod_labels (sandbox_pod k s)" and "pod_spec p = sandbox_pod_spec k s"
    using k8s_client.ScheduleSandbox_pods [OF cluster_client [OF assms(1)] assms(2)] by blast
  then show ?thesis
    by (auto simp: pod_of_def sandbox_pod_def sandbox_pod_spec_def base_pod_spec_def sandbox_container_def
        project_service_object_def map_le_def Let_def)
qed

theorem sandbox_pod_created_witness:
  "\<exists>s w' p. k8s_ScheduleSandbox sim_client background init_world = (Inr s, w') \<and>
     sim_pods w' DefaultNamespace (sandbox_WithPrefix s) = Some p \<and>
     pod_labels p ''sandbox-id'' = Some (sid s)"
proof -
  obtain s w' where 1: "k8s_ScheduleSandbox sim_client background init_world = (Inr s, w')"
    by (simp add: client_eval sim_eval Let_def)
  show ?thesis using sandbox_pod_created [OF sim_cluster 1] 1 by fastforce
qed

text \<open>
  Releasing a sandbox. When \<open>ReleaseSandbox\<close> reports success, the sandbox's pod is
  gone or terminating and no other pod of the namespace was touched; a sandbox whose pod
  does not exist is released successfully.
\<close>

lemma release_pod_gone:
  assumes "cluster R db clk (clientset k) pods svcs (runtime k)"
    and "k8s_ReleaseSandbox k c s w = (e, w')"
  shows "(e = None \<longrightarrow>
      (pods w' (namespace k) (sandbox_WithPrefix s) = None \<or>
       (\<exists>p. pods w' (namespace k) (sandbox_WithPrefix s) = Some p \<and> pod_deletion p \<noteq> None)) \<and>
      (\<forall>n. n \<noteq> sandbox_WithPrefix s \<longrightarrow> pods w' (namespace k) n = pods w (namespace k) n)) \<and>
    (\<forall>e' v. kb_pod_delete (clientset k) c (namespace k) (sandbox_WithPrefix s) w = (Some e', v) \<and>
      kb_IsNotFound (clientset k) e' \<longrightarrow> e = None)"
proof -
  note K = cluster.axioms(2) [OF assms(1)]
  show ?thesis using assms(2)
    by (auto simp: k8s_ReleaseSandbox_def split: prod.splits option.splits if_splits
        dest: kube_server.pod_delete_ok [OF K] kube_server.pod_delete_missing [OF K])
qed

text \<open>
  C37 (readiness). \<open>IsSandboxReady\<close> answers yes exactly when the sandbox's pod exists, is
  running and has all its containers ready (a pod that is merely scheduled is not ready);
  \<open>IsSandboxGone\<close> answers yes exactly when there is no such pod, so a failed or terminating
  one is not gone.
\<close>

theorem readiness_answers:
  assumes "cluster R db clk (clientset k) pods svcs (runtime k)"
    and "k8s_IsSandboxReady k c s w = (Inr b, w1)" and "k8s_IsSandboxGone k c s w1 = (Inr g, w2)"
  shows "(b \<longleftrightarrow> (\<exists>p. pods w (namespace k) (sandbox_WithPrefix s) = Some p \<and> pod_phase p = PodRunning \<and>
      list_all cs_ready (pod_containers p))) \<and>
    (g \<longleftrightarrow> pods w (namespace k) (sandbox_WithPrefix s) = None) \<and> \<not> (b \<and> g)"
proof -
  note C = cluster_client [OF assms(1)]
  have "pods w1 = pods w" using k8s_client.IsSandboxReady_frame [OF C assms(2)] by simp
  then show ?thesis
    using k8s_client.IsSandboxReady_Inr [OF C assms(2)] k8s_client.IsSandboxGone_Inr [OF C assms(3)]
    by (auto simp: pod_readied_def pod_of_def)
qed

theorem readiness_answers_witness:
  "\<exists>w1 w2. k8s_IsSandboxReady sim_client background (SandboxID ''s'') init_world = (Inr False, w1) \<and>
     k8s_IsSandboxGone sim_client background (SandboxID ''s'') w1 = (Inr True, w2) \<and>
     sim_pods init_world DefaultNamespace ''sandbox-s'' = None"
proof -
  let ?r = "k8s_IsSandboxReady sim_client background (SandboxID ''s'') init_world"
  let ?g = "k8s_IsSandboxGone sim_client background (SandboxID ''s'') (snd ?r)"
  have 1: "?r = (Inr False, snd ?r)" by (simp add: client_eval sim_eval)
  have 2: "?g = (Inr True, snd ?g)" by (simp add: client_eval sim_eval)
  have "sandbox_WithPrefix (SandboxID ''s'') = ''sandbox-s''"
    by (simp add: sandbox_WithPrefix_def sandbox_IsValid_def SandboxPrefix_def)
  then show ?thesis using readiness_answers [OF sim_cluster 1 2] 1 2 by auto
qed

text \<open>
  A \<open>time.Ticker\<close> of period \<open>d\<close> buffers one tick: among any three ticks received, the last
  one fired at least a period after the first was taken. \<open>ts\<close> are instants the wake-ups
  are not before.
\<close>

definition ticker_wakes :: "int \<Rightarrow> ('w \<Rightarrow> int) \<Rightarrow> int list \<Rightarrow> 'w wake list \<Rightarrow> bool" where
  "ticker_wakes d clk ts wks \<longleftrightarrow> length ts = length wks \<and>
     (\<forall>i < length wks. \<forall>w. ts ! i \<le> clk (wake_env (wks ! i) w)) \<and>
     (\<forall>i j l. i < j \<and> j < l \<and> l < length wks \<and> wake_tick (wks ! i) \<and> wake_tick (wks ! j) \<and> wake_tick (wks ! l)
        \<longrightarrow> ts ! i + d \<le> ts ! l)"

text \<open>The wait ends at a wake-up that decides it, whatever the world is then.\<close>

lemma wait_ready_loop_ends:
  "wk \<in> set wks \<Longrightarrow> (\<And>wks' v. fst (wait_ready_loop k c s (wk # wks') v) \<noteq> None) \<Longrightarrow>
     fst (wait_ready_loop k c s wks w) \<noteq> None"
proof (induction wks arbitrary: w)
  case Nil
  then show ?case by simp
next
  case (Cons a wks)
  show ?case
  proof (cases "a = wk")
    case True
    then show ?thesis using Cons.prems(2) by blast
  next
    case False
    then have "fst (wait_ready_loop k c s wks v) \<noteq> None" for v using Cons by auto
    then show ?thesis by (auto simp: Let_def split: prod.splits option.splits sum.splits bool.splits)
  qed
qed

lemma WaitForSandboxReady_ends:
  assumes "wk \<in> set wks" and "\<And>wks' v. fst (wait_ready_loop k c s (wk # wks') v) \<noteq> None"
  shows "fst (k8s_WaitForSandboxReady k wks c s w) \<noteq> None"
  using wait_ready_loop_ends [OF assms]
  by (simp add: k8s_WaitForSandboxReady_def split: prod.splits sum.splits bool.splits)

text \<open>Two ticks at most are received in less than a period: the third wake-up takes the other branch.\<close>

lemma ticker_gap:
  assumes "ticker_wakes d clk ts wks" and "i + 2 < length wks" and "ts ! (i + 2) < ts ! i + d"
  shows "\<exists>j \<in> {i, i + 1, i + 2}. \<not> wake_tick (wks ! j)"
proof (rule ccontr)
  assume "\<not> ?thesis"
  then have "wake_tick (wks ! i) \<and> wake_tick (wks ! (i + 1)) \<and> wake_tick (wks ! (i + 2))" by simp
  then have "ts ! i + d \<le> ts ! (i + 2)"
    using assms(1,2) unfolding ticker_wakes_def by (metis less_add_same_cancel1 add_less_cancel_left one_less_numeral_iff semiring_norm(76) zero_less_one)
  then show False using assms(3) by simp
qed

lemma wait_ready_once:
  "ctx_err c (rt_now (runtime k) (wake_env wk v)) = Some e \<Longrightarrow> \<not> wake_tick wk \<Longrightarrow>
   fst (wait_ready_loop k c s (wk # wks) v) \<noteq> None"
  by (simp add: Let_def)

context k8s_client
begin

text \<open>After the deadline the wait ends with the third of three wake-ups that come within a period.\<close>

lemma WaitForSandboxReady_deadline:
  assumes "deadline c = Some D" and "ticker_wakes d clk ts wks" and "i + 2 < length wks"
    and "D \<le> ts ! i" and "D \<le> ts ! (i + 1)" and "D \<le> ts ! (i + 2)" and "ts ! (i + 2) < ts ! i + d"
  shows "fst (k8s_WaitForSandboxReady k wks c s w) \<noteq> None"
proof -
  obtain j where j: "j \<in> {i, i + 1, i + 2}" "\<not> wake_tick (wks ! j)" using ticker_gap [OF assms(2,3,7)] by blast
  then have "j < length wks" and "D \<le> ts ! j" using assms(3-6) by auto
  then have "D \<le> clk (wake_env (wks ! j) v)" for v
    using assms(2) unfolding ticker_wakes_def by (meson order_trans)
  then have "ctx_err c (clk (wake_env (wks ! j) v)) \<noteq> None" for v using ctx_err_deadline [OF assms(1)] by blast
  then have "\<exists>e. ctx_err c (clk (wake_env (wks ! j) v)) = Some e" for v by blast
  then have "fst (wait_ready_loop k c s (wks ! j # wks') v) \<noteq> None" for wks' v
    using j(2) by (metis (no_types, lifting) wait_ready_once now_clk)
  then show ?thesis using \<open>j < length wks\<close> by (intro WaitForSandboxReady_ends [of "wks ! j"]) simp_all
qed

lemma WaitForSandboxReady_ready:
  assumes "wk \<in> set wks"
    and "\<And>v. \<exists>p v'. kb_pod_get (clientset k) c (namespace k) (sandbox_WithPrefix s) (wake_env wk v) = (Inr p, v') \<and>
      pod_phase p = PodRunning \<and> list_all cs_ready (pod_containers p)"
  shows "fst (k8s_WaitForSandboxReady k wks c s w) \<noteq> None"
proof (rule WaitForSandboxReady_ends [OF assms(1)])
  fix wks' v
  obtain p v' where "kb_pod_get (clientset k) c (namespace k) (sandbox_WithPrefix s) (wake_env wk v) = (Inr p, v')"
    and "pod_phase p = PodRunning \<and> list_all cs_ready (pod_containers p)" using assms(2) by blast
  then have "k8s_IsSandboxReady k c s (wake_env wk v) = (Inr True, v')"
    by (simp add: k8s_IsSandboxReady_def pod_ready_def)
  then show "fst (wait_ready_loop k c s (wk # wks') v) \<noteq> None"
    by (auto simp: Let_def split: option.splits bool.splits)
qed

text \<open>A pod that exists and does not get ready keeps the loop going for ever under a context that is never done.\<close>

lemma wait_ready_loop_stuck:
  assumes "\<And>t. ctx_err c t = None" and "\<not> pod_ready p"
  shows "(\<And>wk v. wk \<in> set wks \<Longrightarrow> pod_of k pods (wake_env wk v) s = pod_of k pods v s) \<Longrightarrow>
    pod_of k pods w s = Some p \<Longrightarrow> fst (wait_ready_loop k c s wks w) = None"
proof (induction wks arbitrary: w)
  case Nil
  then show ?case by simp
next
  case (Cons wk wks)
  let ?w1 = "wake_env wk w"
  obtain x w2 where r: "k8s_IsSandboxReady k c s ?w1 = (x, w2)" by fastforce
  obtain y w3 where g: "k8s_IsSandboxGone k c s w2 = (y, w3)" by fastforce
  have p1: "pod_of k pods ?w1 s = Some p" using Cons.prems by simp
  have fr: "pods w2 = pods ?w1" "pods w3 = pods ?w1" using IsSandboxReady_frame [OF r] IsSandboxGone_frame [OF g] by simp_all
  have p23: "pod_of k pods w2 s = Some p" "pod_of k pods w3 s = Some p" using p1 fr by (simp_all add: pod_of_def)
  have x: "x \<noteq> Inr True" using IsSandboxReady_Inr [of c s ?w1 True w2] r p1 assms(2)
    by (auto simp: pod_readied_def pod_ready_iff)
  have y: "y \<noteq> Inr True" using IsSandboxGone_Inr [of c s w2 True w3] g p23(1) by auto
  have "fst (wait_ready_loop k c s wks w2) = None" "fst (wait_ready_loop k c s wks w3) = None"
    using Cons.IH Cons.prems(1) p23 by simp_all
  then show ?case using x y by (auto simp: Let_def r g assms(1) split: sum.splits bool.splits)
qed

lemma WaitForSandboxReady_stuck:
  assumes "\<And>t. ctx_err c t = None" and "\<not> pod_ready p" and "pod_of k pods w s = Some p"
    and "\<And>wk v. wk \<in> set wks \<Longrightarrow> pod_of k pods (wake_env wk v) s = pod_of k pods v s"
    and "fst (k8s_IsSandboxReady k c s w) = Inr b"
  shows "fst (k8s_WaitForSandboxReady k wks c s w) = None"
proof -
  obtain w1 where r: "k8s_IsSandboxReady k c s w = (Inr b, w1)" using assms(5) by (metis prod.collapse)
  have "\<not> b" using IsSandboxReady_Inr [OF r] assms(2,3) by (auto simp: pod_readied_def pod_ready_iff)
  moreover have "pod_of k pods w1 s = Some p" using IsSandboxReady_frame [OF r] assms(3) by (simp add: pod_of_def)
  ultimately show ?thesis using r wait_ready_loop_stuck [OF assms(1,2,4)] by (simp add: k8s_WaitForSandboxReady_def)
qed

end

text \<open>
  C38 (waiting for readiness). \<open>WaitForSandboxReady\<close> never answers "not ready": it answers
  yes, and then the pod is running with all containers ready at that moment, or gives an
  error. It has returned by the first wake-up at which the API server shows such a pod, and,
  under a context with a deadline, by the third of three wake-ups after the deadline that
  come within the two seconds of the ticker's period (after the deadline the \<open>select\<close> no
  longer sleeps). It has no timeout of its own: under a context that is never done, and with
  a pod that exists and does not become ready, it polls for ever, unless its very first
  check fails.
\<close>

theorem wait_ready_answers:
  assumes "cluster R db clk (clientset k) pods svcs (runtime k)"
    and "k8s_WaitForSandboxReady k wks c s w = (x, w')"
  shows "(\<forall>b. x = Some (Inr b) \<longrightarrow> b \<and> (\<exists>p. pods w' (namespace k) (sandbox_WithPrefix s) = Some p \<and>
      pod_phase p = PodRunning \<and> list_all cs_ready (pod_containers p))) \<and>
    ((\<exists>wk \<in> set wks. \<forall>v. \<exists>p v'.
        kb_pod_get (clientset k) c (namespace k) (sandbox_WithPrefix s) (wake_env wk v) = (Inr p, v') \<and>
        pod_phase p = PodRunning \<and> list_all cs_ready (pod_containers p)) \<longrightarrow> x \<noteq> None) \<and>
    (\<forall>D ts i. deadline c = Some D \<and> ticker_wakes (seconds 2) clk ts wks \<and> i + 2 < length wks \<and>
        D \<le> ts ! i \<and> D \<le> ts ! (i + 1) \<and> D \<le> ts ! (i + 2) \<and> ts ! (i + 2) < ts ! i + seconds 2 \<longrightarrow> x \<noteq> None) \<and>
    (\<forall>p b. (\<forall>t. ctx_err c t = None) \<and> pods w (namespace k) (sandbox_WithPrefix s) = Some p \<and>
        \<not> (pod_phase p = PodRunning \<and> list_all cs_ready (pod_containers p)) \<and>
        (\<forall>wk \<in> set wks. \<forall>v. pods (wake_env wk v) = pods v) \<and> fst (k8s_IsSandboxReady k c s w) = Inr b \<longrightarrow>
      x = None)"
proof -
  note C = cluster_client [OF assms(1)]
  have x: "x = fst (k8s_WaitForSandboxReady k wks c s w)" using assms(2) by simp
  have "b \<and> pod_readied k pods w' s" if "x = Some (Inr b)" for b
    using k8s_client.WaitForSandboxReady_Inr [OF C, of wks c s w b w'] assms(2) that by simp
  moreover have "x \<noteq> None" if "wk \<in> set wks" and "\<forall>v. \<exists>p v'.
        kb_pod_get (clientset k) c (namespace k) (sandbox_WithPrefix s) (wake_env wk v) = (Inr p, v') \<and>
        pod_phase p = PodRunning \<and> list_all cs_ready (pod_containers p)" for wk
    unfolding x using k8s_client.WaitForSandboxReady_ready [OF C that(1)] that(2) by blast
  moreover have "x \<noteq> None" if "deadline c = Some D \<and> ticker_wakes (seconds 2) clk ts wks \<and> i + 2 < length wks \<and>
      D \<le> ts ! i \<and> D \<le> ts ! (i + 1) \<and> D \<le> ts ! (i + 2) \<and> ts ! (i + 2) < ts ! i + seconds 2" for D ts i
    unfolding x using k8s_client.WaitForSandboxReady_deadline [OF C] that by blast
  moreover have "x = None" if "(\<forall>t. ctx_err c t = None) \<and> pods w (namespace k) (sandbox_WithPrefix s) = Some p \<and>
      \<not> (pod_phase p = PodRunning \<and> list_all cs_ready (pod_containers p)) \<and>
      (\<forall>wk \<in> set wks. \<forall>v. pods (wake_env wk v) = pods v) \<and> fst (k8s_IsSandboxReady k c s w) = Inr b" for p b
    unfolding x using k8s_client.WaitForSandboxReady_stuck [OF C, of c p w s wks b] that
    by (simp add: pod_of_def pod_ready_iff)
  ultimately show ?thesis unfolding pod_readied_def pod_of_def by (intro conjI) blast+
qed

text \<open>
  A pod that exists and is pending: with a second wake-up at which it runs the wait answers
  yes; with a context that ends it answers; without either it has not answered after any
  number of ticks.
\<close>

definition sim_pending :: pod where
  "sim_pending = (sandbox_pod sim_client (SandboxID ''s''))\<lparr>pod_phase := PodPending\<rparr>"

definition sim_waiting :: world where
  "sim_waiting = init_world\<lparr>w_pods := [((DefaultNamespace, ''sandbox-s''), sim_pending)]\<rparr>"

definition sim_ready_wake :: "world wake" where
  "sim_ready_wake = \<lparr>wake_env = (\<lambda>w. w\<lparr>w_up := True, w_kube_up := True,
     w_pods := [((DefaultNamespace, ''sandbox-s''), sim_pending\<lparr>pod_phase := PodRunning\<rparr>)]\<rparr>), wake_tick = True\<rparr>"

definition sim_tick_wake :: "bool \<Rightarrow> world wake" where
  "sim_tick_wake b = \<lparr>wake_env = (\<lambda>w. w\<lparr>w_clk := max (w_clk w) (seconds 2000)\<rparr>), wake_tick = b\<rparr>"

theorem wait_ready_answers_witness:
  "(\<exists>p w'. k8s_WaitForSandboxReady sim_client [sim_ready_wake] background (SandboxID ''s'') sim_waiting =
       (Some (Inr True), w') \<and> sim_pods w' DefaultNamespace ''sandbox-s'' = Some p \<and> pod_phase p = PodRunning) \<and>
   fst (k8s_WaitForSandboxReady sim_client [sim_tick_wake True, sim_tick_wake True, sim_tick_wake False]
     (with_timeout background (seconds 1000) (seconds 30)) (SandboxID ''s'') sim_waiting) \<noteq> None \<and>
   fst (k8s_WaitForSandboxReady sim_client (replicate 100 (sim_tick_wake True)) background (SandboxID ''s'') sim_waiting) = None"
proof -
  have s: "sandbox_WithPrefix (SandboxID ''s'') = ''sandbox-s''"
    by (simp add: sandbox_WithPrefix_def sandbox_IsValid_def SandboxPrefix_def)
  let ?D = "with_timeout background (seconds 1000) (seconds 30)"
  let ?ws = "[sim_tick_wake True, sim_tick_wake True, sim_tick_wake False]"
  let ?ts = "[seconds 2000, seconds 2000, seconds 2000]"
  let ?R = "k8s_WaitForSandboxReady sim_client [sim_ready_wake] background (SandboxID ''s'') sim_waiting"
  have r: "?R = (Some (Inr True), snd ?R)"
    by (simp add: client_eval sim_eval sim_ready_wake_def sim_waiting_def sim_pending_def s pod_ready_def)
  have t: "ticker_wakes (seconds 2) w_clk ?ts ?ws"
    by (auto simp: ticker_wakes_def sim_tick_wake_def less_Suc_eq nth_Cons split: nat.splits)
  have d: "deadline ?D = Some (seconds 1030)" by (simp add: with_timeout_def background_def durations)
  have g: "fst (k8s_IsSandboxReady sim_client background (SandboxID ''s'') sim_waiting) = Inr False"
    "sim_pods sim_waiting DefaultNamespace ''sandbox-s'' = Some sim_pending" "pod_phase sim_pending = PodPending"
    by (simp_all add: client_eval sim_eval sim_waiting_def sim_pending_def s pod_ready_def)
  have e: "\<forall>wk \<in> set (replicate 100 (sim_tick_wake True)). \<forall>v. sim_pods (wake_env wk v) = sim_pods v"
    by (auto simp: sim_tick_wake_def sim_pods_def fun_eq_iff)
  have 1: "\<exists>p. sim_pods (snd ?R) DefaultNamespace ''sandbox-s'' = Some p \<and> pod_phase p = PodRunning"
    using wait_ready_answers [OF sim_cluster r] by (auto simp: s)
  have 2: "fst (k8s_WaitForSandboxReady sim_client ?ws ?D (SandboxID ''s'') sim_waiting) \<noteq> None"
    using wait_ready_answers [OF sim_cluster, of ?ws ?D "SandboxID ''s''" sim_waiting, OF surjective_pairing,
        THEN conjunct2, THEN conjunct2, THEN conjunct1, rule_format, of "seconds 1030" ?ts 0] d t
    by (simp add: durations)
  have 3: "fst (k8s_WaitForSandboxReady sim_client (replicate 100 (sim_tick_wake True)) background
      (SandboxID ''s'') sim_waiting) = None"
    using wait_ready_answers [OF sim_cluster, of "replicate 100 (sim_tick_wake True)" background "SandboxID ''s''"
        sim_waiting, OF surjective_pairing, THEN conjunct2, THEN conjunct2, THEN conjunct2, rule_format,
        of sim_pending False] g e by (simp add: s)
  show ?thesis using r 1 2 3 by blast
qed

text \<open>The event that a pod seen by the watcher gives rise to, if any.\<close>

definition event_of :: "pod \<Rightarrow> pod_event option" where
  "event_of p =
     (case NewSandboxID (pod_name p) of
        Inl _ \<Rightarrow> None
      | Inr s \<Rightarrow>
          if pod_labels p ''managed-by'' = Some ''scheduler'' \<and>
             (pod_phase p \<in> {PodFailed, PodSucceeded} \<or>
              (\<exists>cd \<in> set (pod_conditions p). cond_type cd = ''PodScheduled'' \<and>
                 cond_status cd = ''False'' \<and> cond_reason cd = ''Unschedulable'') \<or>
              (\<exists>cs \<in> set (pod_containers p). \<exists>r \<in> {''CrashLoopBackOff'', ''ImagePullBackOff'',
                 ''ErrImagePull'', ''CreateContainerError''}. cs_waiting cs = Some r))
          then Some \<lparr>ev_sandbox = s,
                     ev_type = (if pod_deletion p = None then PodToBeDeleted else PodAlreadyDeleted)\<rparr>
          else None)"

lemma shouldSendEvent_iff:
  "shouldSendEvent p \<longleftrightarrow> pod_phase p \<in> {PodFailed, PodSucceeded} \<or>
     (\<exists>cd \<in> set (pod_conditions p). cond_type cd = ''PodScheduled'' \<and>
        cond_status cd = ''False'' \<and> cond_reason cd = ''Unschedulable'') \<or>
     (\<exists>cs \<in> set (pod_containers p). \<exists>r \<in> {''CrashLoopBackOff'', ''ImagePullBackOff'',
        ''ErrImagePull'', ''CreateContainerError''}. cs_waiting cs = Some r)"
  by (auto simp: shouldSendEvent_def list_ex_iff unschedulable_def container_failed_def
      split: option.splits)

lemma processPodEvent_eq:
  "processPodEvent p ch =
     (case event_of p of
        None \<Rightarrow> (None, ch)
      | Some ev \<Rightarrow> (case chan_try_send ev ch of (r, ch') \<Rightarrow> (Some r, ch')))"
  by (auto simp: processPodEvent_def event_of_def shouldSendEvent_iff Let_def
      split: sum.splits prod.splits)

text \<open>
  Which pods raise events. The watcher enqueues an event for a pod exactly when the
  pod is managed by the scheduler, its name parses, and it has failed or finished, cannot
  be scheduled, or has a container that cannot start; the event names the sandbox and says
  whether the pod is already being deleted. The queue keeps its order and never exceeds its
  capacity of 100: on a full queue the event is lost. On a closed queue the watcher panics.
\<close>

lemma pod_event_rule:
  "processPodEvent p ch =
     (case event_of p of
        None \<Rightarrow> (None, ch)
      | Some ev \<Rightarrow>
          if chan_closed ch then (Some SendPanic, ch)
          else if length (chan_buf ch) < chan_cap ch
          then (Some Sent, ch\<lparr>chan_buf := chan_buf ch @ [ev]\<rparr>)
          else (Some Full, ch)) \<and>
   (chan_wf ch \<longrightarrow> chan_wf (snd (processPodEvent p ch)))"
  by (auto simp: processPodEvent_eq chan_try_send_def chan_wf_def split: option.splits)

lemma watch_loop_open:
  "\<not> chan_closed ch \<Longrightarrow> chan_wf ch \<Longrightarrow>
     watch_loop (map (\<lambda>ob. (False, ob)) objs) ch =
       (WatchExited, ch\<lparr>chan_buf := take (chan_cap ch)
          (chan_buf ch @ List.map_filter (\<lambda>ob. Option.bind ob event_of) objs)\<rparr>)"
proof (induction objs arbitrary: ch)
  case Nil
  then show ?case by (simp add: chan_wf_def List.map_filter_simps)
next
  case (Cons o' objs)
  show ?case
  proof (cases "Option.bind o' event_of")
    case None
    then show ?thesis using Cons
      by (auto simp: List.map_filter_simps processPodEvent_eq split: option.splits)
  next
    case (Some ev)
    then obtain p where p: "o' = Some p" "event_of p = Some ev" by (cases o') auto
    show ?thesis
    proof (cases "length (chan_buf ch) < chan_cap ch")
      case True
      then show ?thesis
        using Cons.IH [of "ch\<lparr>chan_buf := chan_buf ch @ [ev]\<rparr>"] Cons.prems p
        by (simp add: List.map_filter_simps processPodEvent_eq chan_try_send_def chan_wf_def)
    next
      case False
      then show ?thesis using Cons p
        by (simp add: List.map_filter_simps processPodEvent_eq chan_try_send_def chan_wf_def)
    qed
  qed
qed

text \<open>
  A run of the watcher. From a fresh queue that nobody drains, the watcher leaves
  exactly the first 100 events of the pods it saw, in order: every later event is lost.
\<close>

lemma watch_run:
  "watch_loop (map (\<lambda>ob. (False, ob)) objs) new_event_chan =
     (WatchExited, new_event_chan\<lparr>chan_buf :=
        take 100 (List.map_filter (\<lambda>ob. Option.bind ob event_of) objs)\<rparr>)"
  using watch_loop_open [of new_event_chan objs] by (simp add: new_event_chan_def chan_wf_def)

section \<open>The watcher and its end\<close>

text \<open>
  The goroutine of the watcher beside the one that calls \<open>StopWatchers\<close> and the one that
  receives the events, one statement at a time. The watcher checks its context when it
  takes an event and sends afterwards; \<open>StopWatchers\<close> cancels the context and then closes
  the queue.
\<close>

datatype watch_pc = WWaiting | WChecked pod | WEnded watch_end

record watcher =
  wt_pc :: watch_pc
  wt_cancelled :: bool
  wt_chan :: "pod_event chan"

text \<open>\<open>StopWatchers\<close> when nobody runs in between.\<close>

definition StopWatchers :: "watcher \<Rightarrow> watcher" where
  "StopWatchers v = v\<lparr>wt_cancelled := True, wt_chan := chan_close (wt_chan v)\<rparr>"

definition new_watcher :: watcher where
  "new_watcher = \<lparr>wt_pc = WWaiting, wt_cancelled = False, wt_chan = new_event_chan\<rparr>"

datatype watch_label =
    WTake "pod option"
  | WProcess
  | WResultsEnd
  | WCancel
  | WClose
  | WReceive pod_event

inductive watch_step :: "watcher \<Rightarrow> watch_label \<Rightarrow> watcher \<Rightarrow> bool" where
  take_cancelled: "wt_pc v = WWaiting \<Longrightarrow> wt_cancelled v \<Longrightarrow>
      watch_step v (WTake ob) (v\<lparr>wt_pc := WEnded WatchCancelled\<rparr>)"
| take_event: "wt_pc v = WWaiting \<Longrightarrow> \<not> wt_cancelled v \<Longrightarrow>
      watch_step v (WTake ob)
        (v\<lparr>wt_pc := (case ob of None \<Rightarrow> WWaiting | Some p \<Rightarrow> WChecked p)\<rparr>)"
| process: "wt_pc v = WChecked p \<Longrightarrow> processPodEvent p (wt_chan v) = (r, ch) \<Longrightarrow>
      watch_step v WProcess
        (v\<lparr>wt_pc := (if r = Some SendPanic then WEnded WatchPanic else WWaiting), wt_chan := ch\<rparr>)"
| results_end: "wt_pc v = WWaiting \<Longrightarrow> watch_step v WResultsEnd (v\<lparr>wt_pc := WEnded WatchExited\<rparr>)"
| cancel: "\<not> wt_cancelled v \<Longrightarrow> watch_step v WCancel (v\<lparr>wt_cancelled := True\<rparr>)"
| close: "wt_cancelled v \<Longrightarrow> \<not> chan_closed (wt_chan v) \<Longrightarrow>
      watch_step v WClose (v\<lparr>wt_chan := chan_close (wt_chan v)\<rparr>)"
| receive: "chan_buf (wt_chan v) = ev # evs \<Longrightarrow>
      watch_step v (WReceive ev) (v\<lparr>wt_chan := (wt_chan v)\<lparr>chan_buf := evs\<rparr>\<rparr>)"

inductive_cases watch_close_case: "watch_step v WClose v'"

text \<open>What each thread can do, and that the steps compute.\<close>

inductive_simps watch_take: "watch_step v (WTake ob) v'"
inductive_simps watch_process: "watch_step v WProcess v'"
inductive_simps watch_results_end: "watch_step v WResultsEnd v'"
inductive_simps watch_cancel: "watch_step v WCancel v'"
inductive_simps watch_close: "watch_step v WClose v'"
inductive_simps watch_receive: "watch_step v (WReceive ev) v'"

lemmas watch_step_simps = watch_take watch_process watch_results_end watch_cancel watch_close watch_receive

code_pred (modes: i \<Rightarrow> i \<Rightarrow> o \<Rightarrow> bool as watch_next) watch_step .

lemma watch_step_det: "watch_step v l v1 \<Longrightarrow> watch_step v l v2 \<Longrightarrow> v1 = v2"
  by (cases l) (auto simp: watch_step_simps)

text \<open>A watcher that has ended stays where it is: only the queue and the flag still move.\<close>

lemma watch_ended: "watch_step v l v' \<Longrightarrow> wt_pc v = WEnded e \<Longrightarrow> wt_pc v' = WEnded e"
  by (cases l) (auto simp: watch_step_simps)

inductive watch_steps :: "watcher \<Rightarrow> watch_label list \<Rightarrow> watcher \<Rightarrow> bool" where
  Nil: "watch_steps v [] v"
| Snoc: "watch_steps v ls v1 \<Longrightarrow> watch_step v1 l v2 \<Longrightarrow> watch_steps v (ls @ [l]) v2"

lemma processPodEvent_chan:
  "processPodEvent p ch = (r, ch') \<Longrightarrow>
     chan_closed ch' = chan_closed ch \<and> (chan_wf ch \<longrightarrow> chan_wf ch') \<and> chan_cap ch' = chan_cap ch \<and>
     (r = Some SendPanic \<longleftrightarrow> chan_closed ch \<and> event_of p \<noteq> None)"
  by (auto simp: processPodEvent_eq chan_try_send_def chan_wf_def split: option.splits if_splits)

text \<open>
  A watcher that was not holding an event when the queue was closed cannot send any more;
  one that holds an event without consequence neither.
\<close>

definition watch_inv :: "watch_label list \<Rightarrow> watcher \<Rightarrow> bool" where
  "watch_inv ls v \<longleftrightarrow> chan_wf (wt_chan v) \<and> chan_cap (wt_chan v) = 100 \<and>
     (chan_closed (wt_chan v) \<longrightarrow> wt_cancelled v) \<and>
     (wt_pc v = WEnded WatchPanic \<longrightarrow> chan_closed (wt_chan v)) \<and>
     (chan_closed (wt_chan v) \<and>
       (wt_pc v = WEnded WatchPanic \<or> (\<exists>p. wt_pc v = WChecked p \<and> event_of p \<noteq> None)) \<longrightarrow>
       (\<exists>ls1 ls2 v1 p. ls = ls1 @ WClose # ls2 \<and> watch_steps new_watcher ls1 v1 \<and>
          wt_pc v1 = WChecked p \<and> event_of p \<noteq> None))"

lemma StopWatchers_steps:
  assumes "watch_steps v0 ls v" and "\<not> wt_cancelled v" and "\<not> chan_closed (wt_chan v)"
  shows "watch_steps v0 (ls @ [WCancel, WClose]) (StopWatchers v)"
proof -
  have "watch_steps v0 ((ls @ [WCancel]) @ [WClose]) (StopWatchers v)"
    unfolding StopWatchers_def
    using watch_steps.Snoc [OF watch_steps.Snoc [OF assms(1) watch_step.cancel [OF assms(2)]]
        watch_step.close] assms(3) by simp
  then show ?thesis by simp
qed

lemma watch_inv_holds: "watch_steps v0 ls v \<Longrightarrow> v0 = new_watcher \<Longrightarrow> watch_inv ls v"
proof (induction rule: watch_steps.induct)
  case (Nil v)
  then show ?case by (simp add: watch_inv_def new_watcher_def new_event_chan_def chan_wf_def)
next
  case (Snoc v ls v1 l v2)
  then have i: "watch_inv ls v1" by simp
  have keep: "ls = ls1 @ WClose # ls2 \<Longrightarrow> ls @ [l] = ls1 @ WClose # (ls2 @ [l])" for ls1 ls2
    by simp
  from Snoc(2) show ?case
  proof (cases rule: watch_step.cases)
    case (process p r ch)
    then show ?thesis using i processPodEvent_chan [OF process(4)] keep
      unfolding watch_inv_def by (auto split: if_splits) blast+
  next
    case (close)
    then show ?thesis using i Snoc.hyps(1) Snoc.prems unfolding watch_inv_def
      by (auto simp: chan_close_def chan_wf_def)
  next
    case (receive ev evs)
    then show ?thesis using i keep unfolding watch_inv_def by (auto simp: chan_wf_def) blast+
  qed (use i keep in \<open>auto simp: watch_inv_def split: option.splits\<close>)
qed

text \<open>
  The pods the watcher took from the API server, and the events the consumer received, in
  order; the event a watcher is about to send.
\<close>

definition watched :: "watch_label list \<Rightarrow> pod list" where
  "watched = List.map_filter (\<lambda>l. case l of WTake ob \<Rightarrow> ob | _ \<Rightarrow> None)"

definition received :: "watch_label list \<Rightarrow> pod_event list" where
  "received = List.map_filter (\<lambda>l. case l of WReceive ev \<Rightarrow> Some ev | _ \<Rightarrow> None)"

fun pending_event :: "watch_pc \<Rightarrow> pod_event list" where
  "pending_event (WChecked p) = (case event_of p of None \<Rightarrow> [] | Some ev \<Rightarrow> [ev])"
| "pending_event _ = []"

lemma watched_simps [simp]:
  "watched [] = []" "received [] = []"
  "watched (ls @ [l]) = watched ls @ (case l of WTake (Some p) \<Rightarrow> [p] | _ \<Rightarrow> [])"
  "received (ls @ [l]) = received ls @ (case l of WReceive ev \<Rightarrow> [ev] | _ \<Rightarrow> [])"
  by (simp_all add: watched_def received_def List.map_filter_def split: watch_label.split option.split)

lemma map_filter_append [simp]: "List.map_filter f (xs @ ys) = List.map_filter f xs @ List.map_filter f ys"
  by (simp add: List.map_filter_def)

lemma processPodEvent_buf:
  "processPodEvent p ch = (r, ch') \<Longrightarrow>
     chan_buf ch' = chan_buf ch \<or> chan_buf ch' = chan_buf ch @ pending_event (WChecked p)"
  by (auto simp: processPodEvent_eq chan_try_send_def split: option.splits if_splits)

text \<open>What was sent is, in order, part of what was seen: nothing is invented, repeated or reordered.\<close>

lemma watch_sends:
  "watch_steps v0 ls v \<Longrightarrow> v0 = new_watcher \<Longrightarrow>
     \<exists>xs. List.map_filter event_of (watched ls) = xs @ pending_event (wt_pc v) \<and>
       subseq (received ls @ chan_buf (wt_chan v)) xs"
proof (induction rule: watch_steps.induct)
  case (Nil v)
  then show ?case by (simp add: new_watcher_def new_event_chan_def List.map_filter_simps)
next
  case (Snoc v ls v1 l v2)
  then obtain xs where xs: "List.map_filter event_of (watched ls) = xs @ pending_event (wt_pc v1)"
    and sub: "subseq (received ls @ chan_buf (wt_chan v1)) xs" by blast
  from Snoc(2) show ?case
  proof (cases rule: watch_step.cases)
    case (take_cancelled ob)
    then show ?thesis using xs sub
      by (cases ob) (auto simp: List.map_filter_simps split: option.split)
  next
    case (take_event ob)
    then show ?thesis using xs sub
      by (cases ob) (auto simp: List.map_filter_simps split: option.split)
  next
    case (process p r ch)
    then show ?thesis using xs sub processPodEvent_buf [OF process(4)]
      by (intro exI [of _ "xs @ pending_event (WChecked p)"])
         (auto simp flip: append_assoc intro: list_emb_append_mono subseq_rev_drop_many)
  qed (use xs sub in \<open>auto simp: chan_close_def\<close>)
qed

text \<open>A consumer that is not interrupted receives everything that is queued, in order.\<close>

lemma watch_drains:
  "watch_steps v0 ls v \<Longrightarrow> chan_buf (wt_chan v) = evs \<Longrightarrow>
     watch_steps v0 (ls @ map WReceive evs) (v\<lparr>wt_chan := (wt_chan v)\<lparr>chan_buf := []\<rparr>\<rparr>)"
proof (induction evs arbitrary: ls v)
  case Nil
  then have "v\<lparr>wt_chan := (wt_chan v)\<lparr>chan_buf := []\<rparr>\<rparr> = v" by (cases v; cases "wt_chan v") simp
  then show ?case using Nil.prems(1) by simp
next
  case (Cons ev evs)
  let ?v = "v\<lparr>wt_chan := (wt_chan v)\<lparr>chan_buf := evs\<rparr>\<rparr>"
  have "watch_steps v0 (ls @ [WReceive ev]) ?v"
    using watch_steps.Snoc [OF Cons.prems(1) watch_step.receive [OF Cons.prems(2)]] by simp
  then show ?case using Cons.IH [of "ls @ [WReceive ev]" ?v] by simp
qed

text \<open>The event of a pod that a watcher takes while its queue has room.\<close>

lemma watch_delivers:
  assumes "watch_steps new_watcher ls v" and "wt_pc v = WWaiting" and "\<not> wt_cancelled v"
    and "length (chan_buf (wt_chan v)) < 100" and "event_of p = Some ev"
  shows "watch_steps new_watcher (ls @ [WTake (Some p), WProcess] @ map WReceive (chan_buf (wt_chan v) @ [ev]))
    (v\<lparr>wt_chan := (wt_chan v)\<lparr>chan_buf := []\<rparr>\<rparr>)"
proof -
  have ch: "chan_cap (wt_chan v) = 100" "\<not> chan_closed (wt_chan v)"
    using watch_inv_holds [OF assms(1) refl] assms(3) by (auto simp: watch_inv_def)
  let ?v1 = "v\<lparr>wt_pc := WChecked p\<rparr>"
  let ?v2 = "v\<lparr>wt_chan := (wt_chan v)\<lparr>chan_buf := chan_buf (wt_chan v) @ [ev]\<rparr>\<rparr>"
  have 1: "watch_step v (WTake (Some p)) ?v1" using assms(2,3) by (simp add: watch_take)
  have 2: "watch_step ?v1 WProcess ?v2"
    using assms(2,4,5) ch by (simp add: watch_process processPodEvent_eq chan_try_send_def)
  have "watch_steps new_watcher (ls @ [WTake (Some p), WProcess]) ?v2"
    using watch_steps.Snoc [OF watch_steps.Snoc [OF assms(1) 1] 2] by simp
  from watch_drains [OF this] show ?thesis by simp
qed

text \<open>
  C26 (stopping the watcher). However the watcher, \<open>StopWatchers\<close> and the receiver
  interleave: the queue of events stays within its 100 places; the events received and those
  queued are, in order, some of those of the pods the watcher saw, each at most once; and the
  watcher panics on the closed queue only if it was already past its context check with a pod
  that raises an event when the queue was closed; in every such state it does panic.
\<close>

theorem watcher_stop:
  assumes "watch_steps new_watcher ls v"
  shows "length (chan_buf (wt_chan v)) \<le> 100 \<and>
    subseq (received ls @ chan_buf (wt_chan v)) (List.map_filter event_of (watched ls)) \<and>
    (wt_pc v = WEnded WatchPanic \<longrightarrow>
      (\<exists>ls1 ls2 v1 p. ls = ls1 @ WClose # ls2 \<and> watch_steps new_watcher ls1 v1 \<and>
        wt_pc v1 = WChecked p \<and> event_of p \<noteq> None)) \<and>
    (\<forall>p. wt_pc v = WChecked p \<and> event_of p \<noteq> None \<and> wt_cancelled v \<and> \<not> chan_closed (wt_chan v) \<longrightarrow>
      (\<exists>v'. watch_steps new_watcher (ls @ [WClose, WProcess]) v' \<and> wt_pc v' = WEnded WatchPanic))"
proof (intro conjI impI allI, goal_cases)
  case 1
  then show ?case using watch_inv_holds [OF assms] by (simp add: watch_inv_def chan_wf_def)
next
  case 2
  then show ?case using watch_sends [OF assms refl] by (auto intro: subseq_rev_drop_many)
next
  case 3
  then show ?case using watch_inv_holds [OF assms] unfolding watch_inv_def by blast
next
  case (4 p)
  let ?v1 = "v\<lparr>wt_chan := chan_close (wt_chan v)\<rparr>"
  obtain r ch where p: "processPodEvent p (wt_chan ?v1) = (r, ch)" by fastforce
  then have r: "r = Some SendPanic" using 4 processPodEvent_chan [OF p] by (simp add: chan_close_def)
  have "watch_steps new_watcher (ls @ [WClose]) ?v1"
    using 4 watch_step.close watch_steps.Snoc [OF assms] by blast
  then have "watch_steps new_watcher ((ls @ [WClose]) @ [WProcess])
      (?v1\<lparr>wt_pc := (if r = Some SendPanic then WEnded WatchPanic else WWaiting), wt_chan := ch\<rparr>)"
    using 4 p by (intro watch_steps.Snoc [OF _ watch_step.process]) auto
  then show ?case using r by (intro exI conjI) (simp, simp)
qed

theorem watcher_stop_witness:
  "\<exists>v. watch_steps new_watcher [WTake (Some
     \<lparr>pod_name = ''sandbox-k3'', pod_namespace = ''sandbox'', pod_labels = [''managed-by'' \<mapsto> ''scheduler''],
      pod_annotations = Map.empty, pod_created = 0, pod_deletion = None,
      pod_spec = base_pod_spec sim_client (SandboxID ''k3''), pod_phase = PodFailed,
      pod_conditions = [], pod_containers = []\<rparr>), WCancel, WClose, WProcess] v \<and>
     wt_pc v = WEnded WatchPanic"
proof -
  let ?p = "\<lparr>pod_name = ''sandbox-k3'', pod_namespace = ''sandbox'', pod_labels = [''managed-by'' \<mapsto> ''scheduler''],
      pod_annotations = Map.empty, pod_created = 0, pod_deletion = None,
      pod_spec = base_pod_spec sim_client (SandboxID ''k3''), pod_phase = PodFailed,
      pod_conditions = [], pod_containers = []\<rparr>"
  let ?v1 = "new_watcher\<lparr>wt_pc := WChecked ?p\<rparr>"
  have "watch_steps new_watcher ([] @ [WTake (Some ?p)]) ?v1"
    by (intro watch_steps.Snoc [OF watch_steps.Nil]) (simp add: watch_take new_watcher_def)
  then have s: "watch_steps new_watcher ([WTake (Some ?p)] @ [WCancel]) (?v1\<lparr>wt_cancelled := True\<rparr>)"
    using watch_steps.Snoc by (fastforce simp: watch_cancel new_watcher_def)
  show ?thesis
    using watcher_stop [OF s]
    by (simp add: event_of_def NewSandboxID_def trim_prefix_def SandboxPrefix_def new_watcher_def new_event_chan_def)
qed

text \<open>
  C39 (the service of a project). After a successful \<open>CreateOrUpdateProjectService\<close> the
  project's service selects the pods of the given sandbox and is annotated with it,
  whether it existed before or not; an existing service keeps everything else; no other
  service of the namespace changes; and repeating the call changes nothing any more.
\<close>

theorem project_service_points:
  assumes "cluster R db clk (clientset k) pods svcs (runtime k)"
    and "CreateOrUpdateProjectService k c p s w = (None, w1)"
    and "CreateOrUpdateProjectService k c' p s w1 = (None, w2)"
  shows "\<exists>v. svcs w1 (namespace k) = (svcs w (namespace k))(project_WithPrefix p \<mapsto> v) \<and>
    svc_selector v = [''sandbox-id'' \<mapsto> sid s] \<and>
    svc_annotations v ''sandbox.scheduler/sandbox-id'' = Some (sid s) \<and>
    (\<forall>old. svcs w (namespace k) (project_WithPrefix p) = Some old \<longrightarrow>
      v = old\<lparr>svc_selector := svc_selector v, svc_annotations := svc_annotations v\<rparr>) \<and>
    svcs w2 (namespace k) = svcs w1 (namespace k)"
proof -
  note C = cluster_client [OF assms(1)]
  obtain v where v: "svcs w1 (namespace k) = (svcs w (namespace k))(project_WithPrefix p \<mapsto> v)"
    "svc_selector v = [''sandbox-id'' \<mapsto> sid s]"
    "svc_annotations v = svc_annotations (project_service_object k p s)"
    "\<forall>old. svcs w (namespace k) (project_WithPrefix p) = Some old \<longrightarrow>
      v = old\<lparr>svc_selector := svc_selector v, svc_annotations := svc_annotations v\<rparr>"
    using k8s_client.CreateOrUpdate_svcs [OF C assms(2)] by blast
  obtain v' where v': "svcs w2 (namespace k) = (svcs w1 (namespace k))(project_WithPrefix p \<mapsto> v')"
    "svc_selector v' = [''sandbox-id'' \<mapsto> sid s]"
    "svc_annotations v' = svc_annotations (project_service_object k p s)"
    "v' = v\<lparr>svc_selector := svc_selector v', svc_annotations := svc_annotations v'\<rparr>"
    using k8s_client.CreateOrUpdate_svcs [OF C assms(3)] v(1) by auto
  have "v' = v" using v v' by simp
  then have "svcs w2 (namespace k) = svcs w1 (namespace k)" using v(1) v'(1) by simp
  then show ?thesis using v by (intro exI [of _ v]) (simp add: project_service_object_def)
qed

theorem project_service_points_witness:
  "\<exists>w1 w2 v. CreateOrUpdateProjectService sim_client background (ProjectID ''a'') (SandboxID ''s'') init_world = (None, w1) \<and>
     CreateOrUpdateProjectService sim_client background (ProjectID ''a'') (SandboxID ''s'') w1 = (None, w2) \<and>
     sim_svcs w1 DefaultNamespace ''project-a'' = Some v \<and> svc_selector v = [''sandbox-id'' \<mapsto> ''s'']"
proof -
  let ?u = "\<lambda>w. CreateOrUpdateProjectService sim_client background (ProjectID ''a'') (SandboxID ''s'') w"
  have 1: "?u init_world = (None, snd (?u init_world))"
    by (simp add: client_eval sim_eval Let_def)
  have 2: "?u (snd (?u init_world)) = (None, snd (?u (snd (?u init_world))))"
    by (simp add: client_eval sim_eval Let_def)
  have n: "project_WithPrefix (ProjectID ''a'') = ''project-a''"
    by (simp add: project_WithPrefix_def project_IsValid_def ProjectPrefix_def)
  obtain v where "sim_svcs (snd (?u init_world)) DefaultNamespace =
      (sim_svcs init_world DefaultNamespace)(''project-a'' \<mapsto> v)" and "svc_selector v = [''sandbox-id'' \<mapsto> ''s'']"
    using project_service_points [OF sim_cluster 1 2] by (auto simp: n)
  then show ?thesis using 1 2 by (metis fun_upd_same)
qed

end
