(* ===== verification/Xds.thy ===== *)
theory Xds
  imports Project_Store K8s_Client "HOL-Library.Multiset"
begin

text \<open>
  The xDS control plane, \<open>scheduler/internal/xds/server.go\<close>: the route table, its
  read-write mutex, and the snapshot given to Envoy. The Envoy resource types are reduced
  to the fields the source sets.
\<close>

section \<open>The mutex\<close>

text \<open>
  A \<open>sync.RWMutex\<close> as one goroutine sees it: \<open>None\<close> is a call that blocks. The holder
  of the write lock is not remembered: Go's mutex is not reentrant.
\<close>

record rwmutex =
  rw_writer :: bool
  rw_readers :: nat

definition rw_free :: rwmutex where
  "rw_free = \<lparr>rw_writer = False, rw_readers = 0\<rparr>"

definition rw_Lock :: "rwmutex \<Rightarrow> rwmutex option" where
  "rw_Lock m = (if rw_writer m \<or> rw_readers m > 0 then None else Some (m\<lparr>rw_writer := True\<rparr>))"

definition rw_Unlock :: "rwmutex \<Rightarrow> rwmutex" where
  "rw_Unlock m = m\<lparr>rw_writer := False\<rparr>"

definition rw_RLock :: "rwmutex \<Rightarrow> rwmutex option" where
  "rw_RLock m = (if rw_writer m then None else Some (m\<lparr>rw_readers := Suc (rw_readers m)\<rparr>))"

definition rw_RUnlock :: "rwmutex \<Rightarrow> rwmutex" where
  "rw_RUnlock m = m\<lparr>rw_readers := rw_readers m - 1\<rparr>"

section \<open>Resources\<close>

record xcluster =
  cl_name :: string
  cl_connect_timeout :: int
  cl_type :: string
  cl_lb_policy :: string
  cl_assignment :: string
  cl_address :: string
  cl_port :: int

text \<open>A route matches a path prefix and, possibly, the exact value of a header.\<close>

record xroute =
  rt_prefix :: string
  rt_header :: "(string \<times> string) option"
  rt_cluster :: string

record virtual_host =
  vh_name :: string
  vh_domains :: "string list"
  vh_routes :: "xroute list"

record route_config =
  rc_name :: string
  rc_hosts :: "virtual_host list"

record xlistener =
  ls_name :: string
  ls_address :: string
  ls_port :: int
  ls_filter :: string
  ls_stat_prefix :: string
  ls_routes :: route_config
  ls_http_filter :: string

record xsnapshot =
  sn_version :: string
  sn_clusters :: "xcluster list"
  sn_endpoints :: "string list"
  sn_routes :: "route_config list"
  sn_listeners :: "xlistener list"

text \<open>The libraries behind the snapshot: \<open>anypb.New\<close>, \<open>cache.NewSnapshot\<close> and the cache.\<close>

record 'w xds_libs =
  xl_marshal :: "route_config \<Rightarrow> err option"
  xl_new_snapshot :: "xsnapshot \<Rightarrow> err option"
  xl_set_snapshot :: "string \<Rightarrow> xsnapshot \<Rightarrow> ('w, err option) op"

text \<open>
  \<open>xd_range1\<close> and \<open>xd_range2\<close> are the orders in which the two \<open>range\<close> loops over the
  route table visit its keys.
\<close>

record 'w xds =
  xd_store :: "'w store"
  xd_k8s :: "'w k8s"
  xd_libs :: "'w xds_libs"
  xd_runtime :: "'w runtime"
  xd_range1 :: "project_id list \<Rightarrow> project_id list"
  xd_range2 :: "project_id list \<Rightarrow> project_id list"

text \<open>The mutable part of the service.\<close>

record xds_state =
  mu :: rwmutex
  routes :: "(project_id \<times> sandbox_id) list"

definition clusterName :: "project_id \<Rightarrow> string" where
  "clusterName p = ''project_'' @ pid p @ ''_cluster''"

definition activator_cluster :: xcluster where
  "activator_cluster =
     \<lparr>cl_name = ''activator_cluster'', cl_connect_timeout = seconds 1, cl_type = ''STRICT_DNS'',
      cl_lb_policy = ''ROUND_ROBIN'', cl_assignment = ''activator_cluster'',
      cl_address = ''activator.sandbox.svc'', cl_port = 80\<rparr>"

definition project_cluster :: "'w xds \<Rightarrow> project_id \<Rightarrow> xcluster" where
  "project_cluster x p =
     \<lparr>cl_name = clusterName p, cl_connect_timeout = seconds 1, cl_type = ''STRICT_DNS'',
      cl_lb_policy = ''ROUND_ROBIN'', cl_assignment = clusterName p,
      cl_address = k8_GetProjectServiceHostname (xd_k8s x) p, cl_port = 8000\<rparr>"

definition project_route :: "project_id \<Rightarrow> xroute" where
  "project_route p =
     \<lparr>rt_prefix = ''/'', rt_header = Some (''Project-Id'', pid p), rt_cluster = clusterName p\<rparr>"

definition default_route :: xroute where
  "default_route = \<lparr>rt_prefix = ''/'', rt_header = None, rt_cluster = ''activator_cluster''\<rparr>"

definition snapshot_clusters :: "'w xds \<Rightarrow> xds_state \<Rightarrow> xcluster list" where
  "snapshot_clusters x s = activator_cluster # map (project_cluster x) (xd_range1 x (map fst (routes s)))"

definition virtual_routes :: "'w xds \<Rightarrow> xds_state \<Rightarrow> xroute list" where
  "virtual_routes x s = map project_route (xd_range2 x (map fst (routes s))) @ [default_route]"

definition route_configuration :: "'w xds \<Rightarrow> xds_state \<Rightarrow> route_config" where
  "route_configuration x s =
     \<lparr>rc_name = ''local_route'',
      rc_hosts = [\<lparr>vh_name = ''local_service'', vh_domains = [''*''],
                    vh_routes = virtual_routes x s\<rparr>]\<rparr>"

definition snapshot_listener :: "'w xds \<Rightarrow> xds_state \<Rightarrow> xlistener" where
  "snapshot_listener x s =
     \<lparr>ls_name = ''listener_0'', ls_address = ''0.0.0.0'', ls_port = 8080,
      ls_filter = ''envoy.filters.network.http_connection_manager'',
      ls_stat_prefix = ''ingress_http'', ls_routes = route_configuration x s,
      ls_http_filter = ''envoy.filters.http.router''\<rparr>"

definition build_snapshot :: "'w xds \<Rightarrow> xds_state \<Rightarrow> int \<Rightarrow> xsnapshot" where
  "build_snapshot x s nanos =
     \<lparr>sn_version = show_int nanos, sn_clusters = snapshot_clusters x s, sn_endpoints = [],
      sn_routes = [route_configuration x s], sn_listeners = [snapshot_listener x s]\<rparr>"

section \<open>Operations\<close>

text \<open>\<open>Blocks\<close>: the calling goroutine waits for the mutex and does not return.\<close>

datatype 'a blocking = Returns 'a | Blocks

definition update_locked :: "'w xds \<Rightarrow> xds_state \<Rightarrow> ('w, err option) op" where
  "update_locked x s w =
     (case xl_marshal (xd_libs x) (route_configuration x s) of
        Some e \<Rightarrow> (Some (ErrWrap ''failed to marshal HTTP connection manager: '' e), w)
      | None \<Rightarrow>
          (let snap = build_snapshot x s (rt_now (xd_runtime x) w)
           in case xl_new_snapshot (xd_libs x) snap of
             Some e \<Rightarrow> (Some (ErrWrap ''failed to create snapshot: '' e), w)
           | None \<Rightarrow>
               (case xl_set_snapshot (xd_libs x) ''envoy-node'' snap w of
                  (Some e, w1) \<Rightarrow> (Some (ErrWrap ''failed to set snapshot: '' e), w1)
                | (None, w1) \<Rightarrow> (None, w1))))"

definition UpdateSnapshot :: "'w xds \<Rightarrow> xds_state \<Rightarrow> 'w \<Rightarrow> err option blocking \<times> xds_state \<times> 'w" where
  "UpdateSnapshot x s w =
     (case rw_RLock (mu s) of
        None \<Rightarrow> (Blocks, s, w)
      | Some m \<Rightarrow>
          (let (e, w1) = update_locked x (s\<lparr>mu := m\<rparr>) w
           in (Returns e, s\<lparr>mu := rw_RUnlock m\<rparr>, w1)))"

text \<open>The mutex is released by a deferred call: only when the snapshot update returns.\<close>

definition with_unlock ::
  "err option blocking \<times> xds_state \<times> 'w \<Rightarrow> err option blocking \<times> xds_state \<times> 'w" where
  "with_unlock r =
     (case r of
        (Blocks, s, w) \<Rightarrow> (Blocks, s, w)
      | (Returns e, s, w) \<Rightarrow> (Returns e, s\<lparr>mu := rw_Unlock (mu s)\<rparr>, w))"

definition AddOrUpdateRoute ::
  "'w xds \<Rightarrow> project_id \<Rightarrow> sandbox_id \<Rightarrow> xds_state \<Rightarrow> 'w \<Rightarrow> err option blocking \<times> xds_state \<times> 'w" where
  "AddOrUpdateRoute x p sb s w =
     (case rw_Lock (mu s) of
        None \<Rightarrow> (Blocks, s, w)
      | Some m \<Rightarrow>
          with_unlock (UpdateSnapshot x
            (s\<lparr>mu := m, routes := AList.update p sb (routes s)\<rparr>) w))"

definition RemoveRoute ::
  "'w xds \<Rightarrow> project_id \<Rightarrow> xds_state \<Rightarrow> 'w \<Rightarrow> err option blocking \<times> xds_state \<times> 'w" where
  "RemoveRoute x p s w =
     (case rw_Lock (mu s) of
        None \<Rightarrow> (Blocks, s, w)
      | Some m \<Rightarrow>
          with_unlock (UpdateSnapshot x
            (s\<lparr>mu := m, routes := AList.delete p (routes s)\<rparr>) w))"

definition handleProjectSandboxUpdate ::
  "'w xds \<Rightarrow> project_id \<times> sandbox_id \<times> bool \<Rightarrow> xds_state \<Rightarrow> 'w \<Rightarrow>
     err option blocking \<times> xds_state \<times> 'w" where
  "handleProjectSandboxUpdate x u s w =
     (case u of (p, sb, isRemoval) \<Rightarrow>
        if isRemoval then RemoveRoute x p s w else AddOrUpdateRoute x p sb s w)"

text \<open>
  Loading: \<open>mappings\<close> is a map, whose entries \<open>ord\<close> lists in the order of the \<open>range\<close>
  loop. The write lock is released before the snapshot is updated.
\<close>

definition loadInitialRoutes ::
  "((project_id \<rightharpoonup> sandbox_id) \<Rightarrow> (project_id \<times> sandbox_id) list) \<Rightarrow>
     'w xds \<Rightarrow> ctx \<Rightarrow> xds_state \<Rightarrow> 'w \<Rightarrow> err option blocking \<times> xds_state \<times> 'w" where
  "loadInitialRoutes ord x c s w =
     (case st_GetAllProjectSandboxMappings (xd_store x) c w of
        (Inl e, w1) \<Rightarrow> (Returns (Some (ErrWrap ''failed to get project-sandbox mappings: '' e)), s, w1)
      | (Inr mappings, w1) \<Rightarrow>
          (case rw_Lock (mu s) of
             None \<Rightarrow> (Blocks, s, w1)
           | Some m \<Rightarrow>
               UpdateSnapshot x
                 (s\<lparr>mu := rw_Unlock m,
                    routes := fold (\<lambda>(p, sb). AList.update p sb) (ord mappings) (routes s)\<rparr>) w1))"

text \<open>A service starts with a free mutex and no routes (\<open>New\<close>).\<close>

definition init_xds :: xds_state where
  "init_xds = \<lparr>mu = rw_free, routes = []\<rparr>"

text \<open>
  The background goroutine: a snapshot update at each tick, whose error is only logged. Its
  wake-ups carry what happened to the world and to the service's state meanwhile; the flag
  says that it is blocked on the mutex.
\<close>

fun backgroundUpdater ::
  "'w xds \<Rightarrow> ((xds_state \<times> 'w) \<Rightarrow> (xds_state \<times> 'w)) list \<Rightarrow> xds_state \<Rightarrow> 'w \<Rightarrow> bool \<times> xds_state \<times> 'w" where
  "backgroundUpdater x [] s w = (False, s, w)"
| "backgroundUpdater x (meanwhile # ticks) s w =
     (let (s1, w1) = meanwhile (s, w)
      in case UpdateSnapshot x s1 w1 of
           (Blocks, s2, w2) \<Rightarrow> (True, s2, w2)
         | (Returns e, s2, w2) \<Rightarrow> backgroundUpdater x ticks s2 w2)"

section \<open>How Envoy reads a route table\<close>

text \<open>
  Envoy takes the first route of the virtual host whose prefix and header match the
  request; \<open>hdr\<close> is the value of the request's \<open>Project-Id\<close> header, if it has one.
\<close>

definition route_matches :: "string \<Rightarrow> string option \<Rightarrow> xroute \<Rightarrow> bool" where
  "route_matches path hdr r \<longleftrightarrow> prefix (rt_prefix r) path \<and>
     (case rt_header r of None \<Rightarrow> True | Some (n, v) \<Rightarrow> n = ''Project-Id'' \<and> hdr = Some v)"

definition routed_cluster :: "xroute list \<Rightarrow> string \<Rightarrow> string option \<Rightarrow> string option" where
  "routed_cluster rs path hdr = map_option rt_cluster (find (route_matches path hdr) rs)"

text \<open>The address of the cluster of a name, as the snapshot defines it.\<close>

definition cluster_address :: "xcluster list \<Rightarrow> string \<Rightarrow> (string \<times> int) option" where
  "cluster_address cs n = map_option (\<lambda>c. (cl_address c, cl_port c)) (find (\<lambda>c. cl_name c = n) cs)"

lemma clusterName_eq [simp]: "clusterName p = clusterName q \<longleftrightarrow> p = q"
  by (cases p; cases q) (simp add: clusterName_def)

lemma clusterName_not_activator [simp]:
  "clusterName p \<noteq> ''activator_cluster''" "''activator_cluster'' \<noteq> clusterName p"
  by (simp_all add: clusterName_def)

lemma find_project_route:
  "find (route_matches (CHR ''/'' # path) hdr) (map project_route ps @ [default_route]) =
     (case hdr of
        None \<Rightarrow> Some default_route
      | Some v \<Rightarrow> Some (if ProjectID v \<in> set ps then project_route (ProjectID v) else default_route))"
  by (induction ps)
     (auto simp: route_matches_def project_route_def default_route_def project_id.expand split: option.splits)

lemma find_project_cluster:
  "find (\<lambda>c. cl_name c = clusterName p) (map (project_cluster x) ps) =
     (if p \<in> set ps then Some (project_cluster x p) else None)"
  by (induction ps) (auto simp: project_cluster_def)

text \<open>The orders in which the two loops visit the table.\<close>

definition range_orders :: "'w xds \<Rightarrow> bool" where
  "range_orders x \<longleftrightarrow> (\<forall>ks. mset (xd_range1 x ks) = mset ks \<and> mset (xd_range2 x ks) = mset ks)"

lemma range_orders_set:
  assumes "range_orders x"
  shows "set (xd_range1 x ks) = set ks" and "set (xd_range2 x ks) = set ks"
    and "distinct (xd_range1 x ks) = distinct ks"
  using assms mset_eq_setD mset_eq_imp_distinct_iff unfolding range_orders_def by blast+

lemma snapshot_routing:
  assumes "range_orders x"
  shows "routed_cluster (virtual_routes x s) (CHR ''/'' # path) hdr =
    Some (case hdr of
            None \<Rightarrow> ''activator_cluster''
          | Some v \<Rightarrow> if ProjectID v \<in> fst ` set (routes s) then clusterName (ProjectID v) else ''activator_cluster'')"
  unfolding routed_cluster_def virtual_routes_def find_project_route range_orders_set(2) [OF assms]
  by (auto simp: project_route_def default_route_def split: option.splits)

lemma snapshot_addresses:
  assumes "range_orders x"
  shows "cluster_address (snapshot_clusters x s) ''activator_cluster'' = Some (''activator.sandbox.svc'', 80)"
    and "p \<in> fst ` set (routes s) \<Longrightarrow> cluster_address (snapshot_clusters x s) (clusterName p) =
      Some (k8_GetProjectServiceHostname (xd_k8s x) p, 8000)"
proof -
  show "cluster_address (snapshot_clusters x s) ''activator_cluster'' = Some (''activator.sandbox.svc'', 80)"
    by (simp add: cluster_address_def snapshot_clusters_def activator_cluster_def)
  assume "p \<in> fst ` set (routes s)"
  then have "p \<in> set (xd_range1 x (map fst (routes s)))" using range_orders_set(1) [OF assms] by simp
  then show "cluster_address (snapshot_clusters x s) (clusterName p) =
      Some (k8_GetProjectServiceHostname (xd_k8s x) p, 8000)"
    by (simp add: cluster_address_def snapshot_clusters_def activator_cluster_def find_project_cluster
        project_cluster_def)
qed

lemma snapshot_names:
  assumes "range_orders x" and "distinct (map fst (routes s))"
  shows "distinct (map cl_name (snapshot_clusters x s))"
proof -
  have "distinct (xd_range1 x (map fst (routes s)))" using assms range_orders_set(3) by blast
  then have "distinct (map clusterName (xd_range1 x (map fst (routes s))))"
    by (simp add: distinct_map inj_on_def)
  moreover have "map cl_name (map (project_cluster x) ps) = map clusterName ps" for ps
    by (simp add: project_cluster_def)
  ultimately show ?thesis
    by (auto simp: snapshot_clusters_def activator_cluster_def comp_def project_cluster_def)
qed

text \<open>The address a request is sent to under a snapshot.\<close>

definition snapshot_vhost_routes :: "xsnapshot \<Rightarrow> xroute list" where
  "snapshot_vhost_routes sn = concat (map vh_routes (concat (map (\<lambda>l. rc_hosts (ls_routes l)) (sn_listeners sn))))"

definition routed_address :: "xsnapshot \<Rightarrow> string \<Rightarrow> string option \<Rightarrow> (string \<times> int) option" where
  "routed_address sn path hdr =
     Option.bind (routed_cluster (snapshot_vhost_routes sn) path hdr) (cluster_address (sn_clusters sn))"

lemma build_snapshot_routed:
  assumes "range_orders x"
  shows "routed_address (build_snapshot x s n) (CHR ''/'' # path) hdr =
    Some (case hdr of
        Some v \<Rightarrow> if ProjectID v \<in> fst ` set (routes s)
          then (k8_GetProjectServiceHostname (xd_k8s x) (ProjectID v), 8000) else (''activator.sandbox.svc'', 80)
      | None \<Rightarrow> (''activator.sandbox.svc'', 80))"
  using snapshot_routing [OF assms] snapshot_addresses [OF assms]
  by (auto simp: routed_address_def snapshot_vhost_routes_def build_snapshot_def snapshot_listener_def
      route_configuration_def split: option.splits)

section \<open>Loading\<close>

lemma fold_update:
  "map_of (fold (\<lambda>(p, sb). AList.update p sb) xs ys) = map_of ys ++ map_of (rev xs)"
  by (induction xs arbitrary: ys) (auto simp: update_conv' map_add_def fun_eq_iff split: option.splits)

lemma loaded_routes:
  assumes "set (enum m) = {(p, s). m p = Some s}" and "distinct (map fst (enum m))"
  shows "map_of (fold (\<lambda>(p, sb). AList.update p sb) (enum m) []) = m"
proof -
  have "distinct (map fst (rev (enum m)))" using assms(2) by (simp add: rev_map [symmetric])
  then have "(map_of (rev (enum m)) p = Some s) = (m p = Some s)" for p s
    using assms(1) map_of_eq_Some_iff by fastforce
  then have "map_of (rev (enum m)) = m" by (metis option.exhaust ext)
  then show ?thesis by (simp add: fold_update)
qed

section \<open>The self-deadlock\<close>

text \<open>Calls that reach the service while it runs: a tick of the updater, an update of a mapping.\<close>

datatype xds_call = CRefresh | CUpdate "project_id \<times> sandbox_id \<times> bool"

fun xds_do :: "'w xds \<Rightarrow> xds_call \<Rightarrow> xds_state \<Rightarrow> 'w \<Rightarrow> err option blocking \<times> xds_state \<times> 'w" where
  "xds_do x CRefresh s w = UpdateSnapshot x s w"
| "xds_do x (CUpdate u) s w = handleProjectSandboxUpdate x u s w"

fun xds_calls ::
  "'w xds \<Rightarrow> xds_call list \<Rightarrow> xds_state \<Rightarrow> 'w \<Rightarrow> err option blocking list \<times> xds_state \<times> 'w" where
  "xds_calls x [] s w = ([], s, w)"
| "xds_calls x (c # cs) s w =
     (let (r, s1, w1) = xds_do x c s w; (rs, s2, w2) = xds_calls x cs s1 w1 in (r # rs, s2, w2))"

text \<open>While a writer holds the mutex, every call blocks and changes nothing.\<close>

lemma xds_do_blocked: "rw_writer (mu s) \<Longrightarrow> xds_do x c s w = (Blocks, s, w)"
  by (cases c)
     (auto simp: UpdateSnapshot_def handleProjectSandboxUpdate_def AddOrUpdateRoute_def RemoveRoute_def
       rw_RLock_def rw_Lock_def split: prod.splits)

lemma xds_calls_blocked:
  "rw_writer (mu s) \<Longrightarrow> xds_calls x cs s w = (replicate (length cs) Blocks, s, w)"
  by (induction cs) (simp_all add: xds_do_blocked)

text \<open>A refresh takes and gives back the mutex.\<close>

lemma UpdateSnapshot_free:
  assumes "mu s = rw_free" and "UpdateSnapshot x s w = (r, s', w')"
  shows "s' = s \<and> r \<noteq> Blocks"
  using assms by (auto simp: UpdateSnapshot_def rw_RLock_def rw_RUnlock_def rw_free_def split: prod.splits)

text \<open>An update takes the write lock and then waits for the read lock: forever.\<close>

lemma handle_blocks:
  assumes "mu s = rw_free"
  shows "handleProjectSandboxUpdate x (p, sb, removal) s w =
    (Blocks, s\<lparr>mu := \<lparr>rw_writer = True, rw_readers = 0\<rparr>,
       routes := (if removal then AList.delete p (routes s) else AList.update p sb (routes s))\<rparr>, w)"
  using assms
  by (simp add: handleProjectSandboxUpdate_def AddOrUpdateRoute_def RemoveRoute_def rw_Lock_def rw_free_def
      UpdateSnapshot_def rw_RLock_def with_unlock_def)

section \<open>Properties of the control plane\<close>

text \<open>
  C15 (where requests go after the start). When the initial load succeeds, the mutex is free
  and the snapshot given to Envoy sends every request whose \<open>Project-Id\<close> names a project
  with a loaded mapping to port 8000 of the project's service, and every other request to
  the activator. The loaded mappings are those of the store: no stale ones, and all projects
  the store lists under a plain identifier.
\<close>

theorem xds_start:
  assumes "redis_server (client rs) db clk" and "\<And>xs. set (ord xs) = set xs"
    and "xd_store x = redis_Store ord rs" and "range_orders x"
    and "GetAllProjectSandboxMappings ord rs c w = (Inr m, w1)"
    and "set (enum m) = {(p, s). m p = Some s}" and "distinct (map fst (enum m))"
    and "loadInitialRoutes enum x c init_xds w = (Returns None, s', w')"
  shows "mu s' = rw_free \<and>
    (\<exists>sn w2. xl_set_snapshot (xd_libs x) ''envoy-node'' sn w2 = (None, w') \<and>
      (\<forall>path hdr. routed_address sn (CHR ''/'' # path) hdr =
        (case hdr of
           Some v \<Rightarrow> if m (ProjectID v) = None then Some (''activator.sandbox.svc'', 80)
             else Some (k8_GetProjectServiceHostname (xd_k8s x) (ProjectID v), 8000)
         | None \<Rightarrow> Some (''activator.sandbox.svc'', 80)))) \<and>
    m \<subseteq>\<^sub>m mapped_sandbox rs (clk w1) (db w) \<and>
    (\<forall>p. plain_project p \<and> p \<in> known_projects rs (clk w1) (db w) \<longrightarrow>
      m p = mapped_sandbox rs (clk w1) (db w) p)"
proof -
  let ?s = "init_xds\<lparr>routes := fold (\<lambda>(p, sb). AList.update p sb) (enum m) []\<rparr>"
  have "rw_Lock rw_free = Some \<lparr>rw_writer = True, rw_readers = 0\<rparr>"
    and "rw_Unlock \<lparr>rw_writer = True, rw_readers = 0\<rparr> = rw_free"
    by (simp_all add: rw_Lock_def rw_Unlock_def rw_free_def)
  then have u: "UpdateSnapshot x ?s w1 = (Returns None, s', w')"
    using assms(3,5,8) by (simp add: loadInitialRoutes_def init_xds_def)
  have s': "s' = ?s" using UpdateSnapshot_free [OF _ u] by (simp add: init_xds_def)
  have fst: "fst ` set (routes ?s) = dom m"
    using loaded_routes [where enum = enum and m = m, OF assms(6,7)] dom_map_of_conv_image_fst by (metis xds_state.select_convs(2) xds_state.surjective xds_state.update_convs(2))
  obtain sk n where "xl_set_snapshot (xd_libs x) ''envoy-node'' (build_snapshot x (?s\<lparr>mu := sk\<rparr>) n) w1 = (None, w')"
    using u by (auto simp: UpdateSnapshot_def update_locked_def Let_def split: option.splits prod.splits)
  moreover have "routed_address (build_snapshot x (?s\<lparr>mu := sk\<rparr>) n) (CHR ''/'' # path) hdr =
      (case hdr of
         Some v \<Rightarrow> if m (ProjectID v) = None then Some (''activator.sandbox.svc'', 80)
           else Some (k8_GetProjectServiceHostname (xd_k8s x) (ProjectID v), 8000)
       | None \<Rightarrow> Some (''activator.sandbox.svc'', 80))" for path hdr
    using fst unfolding build_snapshot_routed [OF assms(4)] by (auto split: option.splits)
  ultimately show ?thesis
    using all_mappings [where db = db and clk = clk, OF assms(1,2,5)] s' by (auto simp: init_xds_def)
qed

definition sim_xds :: "world xds" where
  "sim_xds = \<lparr>xd_store = redis_Store (\<lambda>xs. xs) sim_store, xd_k8s = k8s_iface sim_client,
     xd_libs = \<lparr>xl_marshal = (\<lambda>_. None), xl_new_snapshot = (\<lambda>_. None), xl_set_snapshot = (\<lambda>_ _ w. (None, w))\<rparr>,
     xd_runtime = sim_runtime, xd_range1 = (\<lambda>ks. ks), xd_range2 = rev\<rparr>"

theorem xds_start_witness:
  "\<exists>w s' w' sn. loadInitialRoutes entries sim_xds background init_xds w = (Returns None, s', w') \<and>
     mu s' = rw_free \<and>
     routed_address sn ''/x'' (Some ''a'') = Some (''project-a.sandbox.svc'', 8000) \<and>
     routed_address sn ''/x'' None = Some (''activator.sandbox.svc'', 80)"
proof -
  let ?w = "snd (SetProjectSandbox sim_store background (ProjectID ''a'') (SandboxID ''s'') init_world)"
  let ?m = "[ProjectID ''a'' \<mapsto> SandboxID ''s'']"
  obtain m w1 where l: "GetAllProjectSandboxMappings (\<lambda>xs. xs) sim_store background ?w = (Inr m, w1)"
    and a: "m (ProjectID ''a'') = Some (SandboxID ''s'')"
    using sim_load by blast
  have le: "m \<subseteq>\<^sub>m mapped_sandbox sim_store (w_clk w1) (w_db ?w)"
    using all_mappings [where db = w_db and clk = w_clk, OF _ _ l] sim.redis_server_axioms by simp
  have "mapped_sandbox sim_store t (w_db ?w) p = None" if "p \<noteq> ProjectID ''a''" for t p
    using that by (cases p) (auto simp: mapped_sandbox_def store_eval sim_eval)
  then have m: "m = ?m" using a le by (auto simp: fun_eq_iff map_le_def dom_def)
  have s: "set (entries m) = {(p, s). m p = Some s}" by (rule set_entries) (simp add: m)
  let ?r = "loadInitialRoutes entries sim_xds background init_xds ?w"
  have r: "?r = (Returns None, fst (snd ?r), snd (snd ?r))"
    using l by (simp add: loadInitialRoutes_def sim_xds_def UpdateSnapshot_def update_locked_def init_xds_def
        rw_free_def rw_Lock_def rw_Unlock_def rw_RLock_def Let_def)
  have o': "range_orders sim_xds" by (simp add: range_orders_def sim_xds_def)
  have h: "GetProjectServiceHostname sim_client (ProjectID ''a'') = ''project-a.sandbox.svc''"
    by (simp add: GetProjectServiceHostname_def project_WithPrefix_def project_IsValid_def ProjectPrefix_def
        sim_client_def DefaultNamespace_def)
  have rv: "redis_server (client sim_store) w_db w_clk" using sim.redis_server_axioms by simp
  have st: "xd_store sim_xds = redis_Store (\<lambda>xs. xs) sim_store" by (simp add: sim_xds_def)
  have hx: "k8_GetProjectServiceHostname (xd_k8s sim_xds) (ProjectID ''a'') = ''project-a.sandbox.svc''"
    using h by (simp add: sim_xds_def k8s_iface_def)
  obtain sn where f: "mu (fst (snd ?r)) = rw_free"
    and sn: "\<And>path hdr. routed_address sn (CHR ''/'' # path) hdr =
        (case hdr of
           Some v \<Rightarrow> if m (ProjectID v) = None then Some (''activator.sandbox.svc'', 80)
             else Some (k8_GetProjectServiceHostname (xd_k8s sim_xds) (ProjectID v), 8000)
         | None \<Rightarrow> Some (''activator.sandbox.svc'', 80))"
    using xds_start [OF rv refl st o' l s distinct_entries r] by blast
  have "routed_address sn ''/x'' (Some ''a'') = Some (''project-a.sandbox.svc'', 8000)"
    and "routed_address sn ''/x'' None = Some (''activator.sandbox.svc'', 80)"
    using a hx by (simp_all add: sn)
  then show ?thesis using r f by blast
qed

text \<open>
  Handling any change of a mapping takes the
  write lock and then asks for the read lock of the same mutex: it never returns, and the
  snapshot is not updated. From then on every refresh and every further update blocks as
  well, so that Envoy keeps the routes it had.
\<close>

lemma xds_freezes:
  assumes "mu s = rw_free" and "handleProjectSandboxUpdate x (p, sb, removal) s w = (r, s1, w1)"
  shows "r = Blocks \<and> w1 = w \<and>
    map_of (routes s1) = (map_of (routes s))(p := (if removal then None else Some sb)) \<and>
    xds_calls x calls s1 w1 = (replicate (length calls) Blocks, s1, w1)"
  using assms handle_blocks [OF assms(1), of x p sb removal w]
  by (auto simp: xds_calls_blocked update_conv' delete_conv')

end
