(* ===== verification/Subscription.thy ===== *)
theory Subscription
  imports Xds
begin

text \<open>
  The subscription to mapping updates: \<open>SubscribeToProjectSandboxUpdates\<close> of
  \<open>scheduler/internal/persistence/redis.go\<close> with its receiving goroutine, as the two
  threads that it consists of, and the xDS service as its consumer. The message parser is
  in \<open>Project_Store\<close>.
\<close>

section \<open>The client\<close>

text \<open>
  \<open>redis.PubSub\<close> as the source uses it. \<open>'h\<close> is the type of its handles. A receive is the
  instant at which the call completes.
\<close>

record ('w, 'h) pubsub =
  su_Subscribe :: "ctx \<Rightarrow> string \<Rightarrow> ('w, 'h) op"
  su_ReceiveMessage :: "'h \<Rightarrow> ctx \<Rightarrow> ('w, err + string) op"
  su_Close :: "'h \<Rightarrow> ('w, err option) op"

text \<open>A subscription that was closed stays closed, and receiving from it is an error.\<close>

locale pubsub_client =
  fixes P :: "('w, 'h) pubsub" and closed :: "'w \<Rightarrow> 'h \<Rightarrow> bool"
  assumes close_closes: "su_Close P h w = (e, w') \<Longrightarrow> closed w' h"
    and receive_closed: "closed w h \<Longrightarrow> su_ReceiveMessage P h c w = (x, w') \<Longrightarrow> \<exists>e. x = Inl e"
    and receive_keeps: "closed w h' \<Longrightarrow> su_ReceiveMessage P h c w = (x, w') \<Longrightarrow> closed w' h'"

section \<open>The two threads\<close>

text \<open>
  The calling thread: before the call of \<open>Subscribe\<close>; with the deferred \<open>Close\<close> registered
  and the goroutine started; returned, which has run the deferred call.
\<close>

datatype sub_pc = SEntered | SSpawned | SReturned

text \<open>The goroutine: not started, in or before \<open>ReceiveMessage\<close>, stuck in its callback, ended.\<close>

datatype recv_pc = RNone | RReceiving | RStuck | REnded

type_synonym update = "project_id \<times> sandbox_id \<times> bool"

text \<open>\<open>sb_consumer\<close> is what the callback works on; \<open>sb_calls\<close> are the callback calls so far.\<close>

record ('w, 'h, 's) subscription =
  sb_main :: sub_pc
  sb_recv :: recv_pc
  sb_handle :: "'h option"
  sb_calls :: "update list"
  sb_consumer :: 's
  sb_world :: 'w

definition new_subscription :: "'s \<Rightarrow> 'w \<Rightarrow> ('w, 'h, 's) subscription" where
  "new_subscription s w =
     \<lparr>sb_main = SEntered, sb_recv = RNone, sb_handle = None, sb_calls = [], sb_consumer = s, sb_world = w\<rparr>"

datatype 'w sub_label = LSubscribe | LReturn | LReceive | LEnv "'w \<Rightarrow> 'w"

text \<open>
  \<open>callback\<close> answers whether it returned, the state of the consumer, and the world. After an
  error the goroutine ends; a message it cannot decode is skipped; a callback that does not
  return is never left again. \<open>None\<close>: the thread cannot take this step here.
\<close>

fun sub_step ::
  "('w, 'h) pubsub \<Rightarrow> (update \<Rightarrow> 's \<Rightarrow> 'w \<Rightarrow> bool \<times> 's \<times> 'w) \<Rightarrow> ctx \<Rightarrow> 'w sub_label \<Rightarrow>
     ('w, 'h, 's) subscription \<Rightarrow> ('w, 'h, 's) subscription option" where
  "sub_step P callback c LSubscribe b =
     (if sb_main b = SEntered
      then let (h, w) = su_Subscribe P c projectUpdateChannel (sb_world b)
           in Some (b\<lparr>sb_main := SSpawned, sb_recv := RReceiving, sb_handle := Some h, sb_world := w\<rparr>)
      else None)"
| "sub_step P callback c LReturn b =
     (case (sb_main b, sb_handle b) of
        (SSpawned, Some h) \<Rightarrow>
          (let (e, w) = su_Close P h (sb_world b) in Some (b\<lparr>sb_main := SReturned, sb_world := w\<rparr>))
      | _ \<Rightarrow> None)"
| "sub_step P callback c LReceive b =
     (case (sb_recv b, sb_handle b) of
        (RReceiving, Some h) \<Rightarrow>
          (case su_ReceiveMessage P h c (sb_world b) of
             (Inl e, w) \<Rightarrow> Some (b\<lparr>sb_recv := REnded, sb_world := w\<rparr>)
           | (Inr m, w) \<Rightarrow>
               (case parse_update m of
                  None \<Rightarrow> Some (b\<lparr>sb_world := w\<rparr>)
                | Some u \<Rightarrow>
                    (let (returned, s, w1) = callback u (sb_consumer b) w
                     in Some (b\<lparr>sb_recv := (if returned then RReceiving else RStuck),
                          sb_calls := sb_calls b @ [u], sb_consumer := s, sb_world := w1\<rparr>))))
      | _ \<Rightarrow> None)"
| "sub_step P callback c (LEnv f) b = Some (b\<lparr>sb_world := f (sb_world b)\<rparr>)"

fun sub_run ::
  "('w, 'h) pubsub \<Rightarrow> (update \<Rightarrow> 's \<Rightarrow> 'w \<Rightarrow> bool \<times> 's \<times> 'w) \<Rightarrow> ctx \<Rightarrow> 'w sub_label list \<Rightarrow>
     ('w, 'h, 's) subscription \<Rightarrow> ('w, 'h, 's) subscription option" where
  "sub_run P callback c [] b = Some b"
| "sub_run P callback c (l # ls) b = Option.bind (sub_step P callback c l b) (sub_run P callback c ls)"

lemma sub_run_append:
  "sub_run P callback c (ls @ ls') b = Option.bind (sub_run P callback c ls b) (sub_run P callback c ls')"
  by (induction ls arbitrary: b) (auto split: bind_splits)

fun_cases sub_run_Nil: "sub_run P callback c [] b = Some b'"
fun_cases sub_run_Cons: "sub_run P callback c (l # ls) b = Some b'"

lemma sub_run_ConsE:
  assumes "sub_run P callback c (l # ls) b = Some b'"
  obtains b1 where "sub_step P callback c l b = Some b1" and "sub_run P callback c ls b1 = Some b'"
  using assms by (elim sub_run_Cons) (auto split: bind_splits)

text \<open>Nobody else closes or reopens the subscription.\<close>

definition env_keeps :: "('w \<Rightarrow> 'h \<Rightarrow> bool) \<Rightarrow> 'w sub_label list \<Rightarrow> bool" where
  "env_keeps closed ls \<longleftrightarrow> (\<forall>f. LEnv f \<in> set ls \<longrightarrow> (\<forall>w h. closed w h \<longrightarrow> closed (f w) h))"

lemma env_keeps_simps [simp]:
  "env_keeps closed []"
  "env_keeps closed (LEnv f # ls) \<longleftrightarrow> (\<forall>w h. closed w h \<longrightarrow> closed (f w) h) \<and> env_keeps closed ls"
  "env_keeps closed (LSubscribe # ls) = env_keeps closed ls"
  "env_keeps closed (LReturn # ls) = env_keeps closed ls"
  "env_keeps closed (LReceive # ls) = env_keeps closed ls"
  by (auto simp: env_keeps_def)

definition callback_keeps :: "('w \<Rightarrow> 'h \<Rightarrow> bool) \<Rightarrow> (update \<Rightarrow> 's \<Rightarrow> 'w \<Rightarrow> bool \<times> 's \<times> 'w) \<Rightarrow> bool" where
  "callback_keeps closed callback \<longleftrightarrow>
     (\<forall>u s w h. closed w h \<longrightarrow> closed (snd (snd (callback u s w))) h)"

text \<open>The thread that has returned has closed the handle.\<close>

definition sub_inv :: "('w \<Rightarrow> 'h \<Rightarrow> bool) \<Rightarrow> ('w, 'h, 's) subscription \<Rightarrow> bool" where
  "sub_inv closed b \<longleftrightarrow>
     (sb_main b = SReturned \<longrightarrow> (\<exists>h. sb_handle b = Some h \<and> closed (sb_world b) h)) \<and>
     (sb_main b = SEntered \<longrightarrow> sb_recv b = RNone)"

lemma sub_inv_new [simp]: "sub_inv closed (new_subscription s w)"
  by (simp add: sub_inv_def new_subscription_def)

context pubsub_client
begin

lemma sub_inv_step:
  assumes "sub_inv closed b" and "env_keeps closed [l]" and "callback_keeps closed callback"
    and "sub_step P callback c l b = Some b'"
  shows "sub_inv closed b'"
proof (cases l)
  case LReceive
  have cb: "closed w1 h" if "callback u s w = (r, s1, w1)" "closed w h" for u s w r s1 w1 h
    using assms(3) that by (metis callback_keeps_def snd_conv)
  show ?thesis using assms(1,4) LReceive
    by (auto simp: sub_inv_def split: recv_pc.splits option.splits prod.splits sum.splits
        dest: receive_keeps cb)
qed (use assms in \<open>auto simp: sub_inv_def dest: close_closes split: sub_pc.splits option.splits prod.splits if_splits\<close>)

lemma sub_inv_run:
  "sub_inv closed b \<Longrightarrow> env_keeps closed ls \<Longrightarrow> callback_keeps closed callback \<Longrightarrow>
     sub_run P callback c ls b = Some b' \<Longrightarrow> sub_inv closed b'"
proof (induction ls arbitrary: b)
  case (Cons l ls)
  have "env_keeps closed [l]" "env_keeps closed ls" using Cons.prems(2) by (auto simp: env_keeps_def)
  then show ?case using Cons.IH sub_inv_step Cons.prems by (fastforce split: bind_splits)
qed simp

text \<open>After the return a step calls nothing, and a receive ends the goroutine.\<close>

lemma returned_step:
  assumes "sub_inv closed b" and "sb_main b = SReturned" and "sub_step P callback c l b = Some b'"
  shows "sb_main b' = SReturned \<and> sb_calls b' = sb_calls b \<and> sb_consumer b' = sb_consumer b \<and>
    (if l = LReceive then sb_recv b = RReceiving \<and> sb_recv b' = REnded else sb_recv b' = sb_recv b)"
proof (cases l)
  case LReceive
  obtain h where h: "sb_handle b = Some h" "closed (sb_world b) h"
    using assms(1,2) by (auto simp: sub_inv_def)
  obtain x w where r: "su_ReceiveMessage P h c (sb_world b) = (x, w)" by fastforce
  then obtain e where "x = Inl e" using receive_closed h(2) by blast
  then show ?thesis using assms(2,3) LReceive h(1) r by (auto split: recv_pc.splits)
qed (use assms in \<open>auto split: sub_pc.splits option.splits prod.splits if_splits\<close>)

lemma returned_run:
  "sub_inv closed b \<Longrightarrow> sb_main b = SReturned \<Longrightarrow> env_keeps closed ls \<Longrightarrow> callback_keeps closed callback \<Longrightarrow>
     sub_run P callback c ls b = Some b' \<Longrightarrow>
     sb_calls b' = sb_calls b \<and> sb_consumer b' = sb_consumer b \<and>
     (LReceive \<in> set ls \<longrightarrow> sb_recv b = RReceiving \<and> sb_recv b' = REnded) \<and>
     (sb_recv b = REnded \<longrightarrow> sb_recv b' = REnded)"
proof (induction ls arbitrary: b)
  case (Cons l ls)
  then obtain b1 where s: "sub_step P callback c l b = Some b1"
    and r: "sub_run P callback c ls b1 = Some b'" by (blast elim: sub_run_ConsE)
  have k: "env_keeps closed [l]" "env_keeps closed ls" using Cons.prems(3) by (auto simp: env_keeps_def)
  have i: "sub_inv closed b1" using sub_inv_step [OF Cons.prems(1) k(1) Cons.prems(4) s] .
  have st: "sb_main b1 = SReturned" "sb_calls b1 = sb_calls b" "sb_consumer b1 = sb_consumer b"
    "if l = LReceive then sb_recv b = RReceiving \<and> sb_recv b1 = REnded else sb_recv b1 = sb_recv b"
    using returned_step [OF Cons.prems(1,2) s] by simp_all
  have "sb_calls b' = sb_calls b1 \<and> sb_consumer b' = sb_consumer b1 \<and>
     (LReceive \<in> set ls \<longrightarrow> sb_recv b1 = RReceiving \<and> sb_recv b' = REnded) \<and>
     (sb_recv b1 = REnded \<longrightarrow> sb_recv b' = REnded)"
    by (rule Cons.IH [OF i st(1) k(2) Cons.prems(4) r])
  then show ?case using st by (auto split: if_splits)
qed simp

end

context pubsub_client
begin

lemma returned_main:
  "sub_inv closed b \<Longrightarrow> sb_main b = SReturned \<Longrightarrow> env_keeps closed ls \<Longrightarrow> callback_keeps closed callback \<Longrightarrow>
     sub_run P callback c ls b = Some b' \<Longrightarrow> sb_main b' = SReturned"
proof (induction ls arbitrary: b)
  case (Cons l ls)
  then obtain b1 where s: "sub_step P callback c l b = Some b1"
    and r: "sub_run P callback c ls b1 = Some b'" by (blast elim: sub_run_ConsE)
  have k: "env_keeps closed [l]" "env_keeps closed ls" using Cons.prems(3) by (auto simp: env_keeps_def)
  have m: "sb_main b1 = SReturned" using returned_step [OF Cons.prems(1,2) s] by blast
  show ?case
    by (rule Cons.IH [OF sub_inv_step [OF Cons.prems(1) k(1) Cons.prems(4) s] m k(2) Cons.prems(4) r])
qed simp

end

section \<open>A simulated subscription\<close>

text \<open>The simulated world with its subscriptions: how much each has read, and whether it is closed.\<close>

record sub_world = world +
  w_subs :: "(nat \<times> bool) list"

definition sub_closed :: "sub_world \<Rightarrow> nat \<Rightarrow> bool" where
  "sub_closed w h \<longleftrightarrow> h < length (w_subs w) \<and> snd (w_subs w ! h)"

definition channel_messages :: "sub_world \<Rightarrow> string list" where
  "channel_messages w = map snd (filter (\<lambda>(ch, m). ch = projectUpdateChannel) (pubs (w_db w)))"

text \<open>A receive with no message left answers as one whose context ended.\<close>

definition sim_pubsub :: "(sub_world, nat) pubsub" where
  "sim_pubsub =
     \<lparr>su_Subscribe = (\<lambda>c ch w.
        (length (w_subs w), w\<lparr>w_subs := w_subs w @ [(length (channel_messages w), False)]\<rparr>)),
      su_ReceiveMessage = (\<lambda>h c w.
        if length (w_subs w) \<le> h then (Inl down, w)
        else case w_subs w ! h of
          (n, True) \<Rightarrow> (Inl (ErrText ''redis: client is closed''), w)
        | (n, False) \<Rightarrow>
            (case drop n (channel_messages w) of
               [] \<Rightarrow> (Inl DeadlineExceeded, w)
             | m # ms \<Rightarrow> (Inr m, w\<lparr>w_subs := (w_subs w)[h := (Suc n, False)]\<rparr>))),
      su_Close = (\<lambda>h w.
        if length (w_subs w) \<le> h then (Some down, w\<lparr>w_subs := w_subs w @ replicate (Suc h - length (w_subs w)) (0, True)\<rparr>)
        else (None, w\<lparr>w_subs := (w_subs w)[h := (fst (w_subs w ! h), True)]\<rparr>))\<rparr>"

interpretation sim_su: pubsub_client sim_pubsub sub_closed
proof (unfold_locales, goal_cases)
  case (1 h w e w')
  then show ?case by (auto simp: sim_pubsub_def sub_closed_def nth_append split: if_splits)
next
  case (2 w h c x w')
  then show ?case by (auto simp: sim_pubsub_def sub_closed_def split: if_splits prod.splits bool.splits)
next
  case (3 w h' h c x w')
  then show ?case
    by (auto simp: sim_pubsub_def sub_closed_def nth_list_update split: if_splits prod.splits bool.splits list.splits)
qed

section \<open>The xDS service as the consumer\<close>

definition xds_callback :: "'w xds \<Rightarrow> update \<Rightarrow> xds_state \<Rightarrow> 'w \<Rightarrow> bool \<times> xds_state \<times> 'w" where
  "xds_callback x u s w =
     (case handleProjectSandboxUpdate x u s w of (r, s1, w1) \<Rightarrow> (r \<noteq> Blocks, s1, w1))"

text \<open>The first update that is received is the last one.\<close>

definition heard :: "xds_state \<Rightarrow> ('w, 'h, xds_state) subscription \<Rightarrow> bool" where
  "heard s b \<longleftrightarrow>
     (if sb_recv b = RStuck
      then (\<exists>u. sb_calls b = [u]) \<and> rw_writer (mu (sb_consumer b))
      else sb_calls b = [] \<and> sb_consumer b = s)"

lemma xds_callback_stuck:
  "mu s = rw_free \<Longrightarrow>
     \<exists>s1. xds_callback x u s w = (False, s1, w) \<and> rw_writer (mu s1)"
  by (cases u) (simp add: xds_callback_def handle_blocks)

lemma xds_callback_world: "mu s = rw_free \<Longrightarrow> snd (snd (xds_callback x u s w)) = w"
  using xds_callback_stuck [of s x u w] by auto

lemma heard_step:
  assumes "mu s = rw_free" and "heard s b" and "sub_step P (xds_callback x) c l b = Some b'"
    and "sb_main b = SEntered \<longrightarrow> sb_recv b = RNone"
  shows "heard s b'"
proof (cases l)
  case LReceive
  then have r: "sb_recv b = RReceiving" using assms(3) by (auto split: recv_pc.splits)
  then have c: "sb_consumer b = s" "sb_calls b = []" using assms(2) by (auto simp: heard_def)
  obtain h where h: "sb_handle b = Some h" using assms(3) LReceive r by (auto split: option.splits)
  obtain y w where y: "su_ReceiveMessage P h c (sb_world b) = (y, w)" by fastforce
  show ?thesis
  proof (cases "\<exists>m u. y = Inr m \<and> parse_update m = Some u")
    case True
    then obtain m u where m: "y = Inr m" "parse_update m = Some u" by blast
    obtain s1 where s1: "xds_callback x u s w = (False, s1, w)" "rw_writer (mu s1)"
      using xds_callback_stuck [OF assms(1), of x u w] by (elim exE conjE)
    then show ?thesis using assms(3) LReceive r c h y m by (cases u) (auto simp: heard_def)
  next
    case False
    then show ?thesis using assms(3) LReceive r c h y
      by (auto simp: heard_def split: option.splits sum.splits)
  qed
qed (use assms in \<open>auto simp: heard_def split: sub_pc.splits option.splits prod.splits if_splits\<close>)

lemma entered_step:
  assumes "sb_main b = SEntered \<longrightarrow> sb_recv b = RNone" and "sub_step P callback c l b = Some b'"
  shows "sb_main b' = SEntered \<longrightarrow> sb_recv b' = RNone"
  using assms
  by (cases l) (auto split: sub_pc.splits recv_pc.splits option.splits prod.splits sum.splits if_splits)

lemma entered_run:
  "sb_main b = SEntered \<longrightarrow> sb_recv b = RNone \<Longrightarrow> sub_run P callback c ls b = Some b' \<Longrightarrow>
     sb_main b' = SEntered \<longrightarrow> sb_recv b' = RNone"
proof (induction ls arbitrary: b)
  case (Cons l ls)
  then obtain b1 where s: "sub_step P callback c l b = Some b1"
    and r: "sub_run P callback c ls b1 = Some b'" by (blast elim: sub_run_ConsE)
  show ?case by (rule Cons.IH [OF entered_step [OF Cons.prems(1) s] r])
qed simp

lemma heard_run:
  "mu s = rw_free \<Longrightarrow> heard s b \<Longrightarrow> sb_main b = SEntered \<longrightarrow> sb_recv b = RNone \<Longrightarrow>
     sub_run P (xds_callback x) c ls b = Some b' \<Longrightarrow> heard s b'"
proof (induction ls arbitrary: b)
  case (Cons l ls)
  then obtain b1 where s: "sub_step P (xds_callback x) c l b = Some b1"
    and r: "sub_run P (xds_callback x) c ls b1 = Some b'" by (blast elim: sub_run_ConsE)
  show ?case
    using Cons.IH [OF Cons.prems(1) heard_step [OF Cons.prems(1,2) s Cons.prems(3)] _ r]
      entered_step [OF Cons.prems(3) s] by blast
qed simp

lemma heard_new [simp]: "heard s (new_subscription s w)"
  by (simp add: heard_def new_subscription_def)

text \<open>A goroutine that is stuck in its callback calls nothing any more.\<close>

lemma stuck_step:
  "sb_recv b = RStuck \<Longrightarrow> sb_main b \<noteq> SEntered \<Longrightarrow> sub_step P callback c l b = Some b' \<Longrightarrow>
     sb_recv b' = RStuck \<and> sb_main b' \<noteq> SEntered \<and> sb_calls b' = sb_calls b"
  by (cases l) (auto split: sub_pc.splits option.splits prod.splits)

lemma stuck_run:
  "sb_recv b = RStuck \<Longrightarrow> sb_main b \<noteq> SEntered \<Longrightarrow> sub_run P callback c ls b = Some b' \<Longrightarrow>
     sb_calls b' = sb_calls b"
proof (induction ls arbitrary: b)
  case (Cons l ls)
  then obtain b1 where s: "sub_step P callback c l b = Some b1"
    and r: "sub_run P callback c ls b1 = Some b'" by (blast elim: sub_run_ConsE)
  show ?case using stuck_step [OF Cons.prems(1,2) s] Cons.IH [OF _ _ r] by simp
qed simp


section \<open>Properties of the subscription\<close>

text \<open>
  C17 (the subscription dies at once). \<open>SubscribeToProjectSandboxUpdates\<close> starts its goroutine
  and returns, which closes the subscription it has just opened. Whatever is published
  afterwards and however the threads interleave, the callback is not called any more: the
  consumer stays as it is, and the goroutine ends at its first receive.
\<close>

theorem subscription_dies:
  assumes "pubsub_client P closed" and "env_keeps closed (ls @ ls')" and "callback_keeps closed callback"
    and "sub_run P callback c ls (new_subscription s w) = Some b" and "sb_main b = SReturned"
    and "sub_run P callback c ls' b = Some b'"
  shows "sb_calls b' = sb_calls b \<and> sb_consumer b' = sb_consumer b \<and>
    (LReceive \<in> set ls' \<longrightarrow> sb_recv b' = REnded) \<and>
    (sb_recv b' = RReceiving \<longrightarrow>
      (\<exists>b''. sub_step P callback c LReceive b' = Some b'' \<and> sb_recv b'' = REnded \<and> sb_calls b'' = sb_calls b'))"
proof -
  have k: "env_keeps closed ls" "env_keeps closed ls'" using assms(2) by (auto simp: env_keeps_def)
  have i: "sub_inv closed b"
    using pubsub_client.sub_inv_run [OF assms(1) sub_inv_new k(1) assms(3,4)] .
  have i': "sub_inv closed b'"
    using pubsub_client.sub_inv_run [OF assms(1) i k(2) assms(3,6)] .
  have r: "sb_main b' = SReturned"
    using pubsub_client.returned_main [OF assms(1) i assms(5) k(2) assms(3,6)] .
  obtain h where h: "sb_handle b' = Some h" "closed (sb_world b') h" using i' r by (auto simp: sub_inv_def)
  obtain x v where x: "su_ReceiveMessage P h c (sb_world b') = (x, v)" by fastforce
  then obtain e where e: "x = Inl e" using pubsub_client.receive_closed [OF assms(1) h(2)] by blast
  have "\<exists>b''. sub_step P callback c LReceive b' = Some b'' \<and> sb_recv b'' = REnded \<and> sb_calls b'' = sb_calls b'"
    if "sb_recv b' = RReceiving" using that h(1) x e by simp
  then show ?thesis
    using pubsub_client.returned_run [OF assms(1) i assms(5) k(2) assms(3,6)] by blast
qed

text \<open>An update published before the return and read in time is delivered, one published later is not.\<close>

definition publish_update :: "string \<Rightarrow> sub_world \<Rightarrow> sub_world" where
  "publish_update m w = w\<lparr>w_db := publish projectUpdateChannel m (w_db w)\<rparr>"

definition empty_sub_world :: sub_world where
  "empty_sub_world = sub_world.make empty_db 0 True [] [] True 0 []"

lemmas sub_eval = sim_pubsub_def sub_closed_def channel_messages_def publish_update_def empty_sub_world_def
  sub_world.make_def new_subscription_def empty_db_def publish_def

theorem subscription_dies_witness:
  "\<exists>b b'. sub_run sim_pubsub (\<lambda>u s w. (True, s @ [u], w)) background
       [LSubscribe, LEnv (publish_update ''a:update:s''), LReceive, LReturn]
       (new_subscription [] empty_sub_world) = Some b \<and>
     sub_run sim_pubsub (\<lambda>u s w. (True, s @ [u], w)) background
       [LEnv (publish_update ''b:update:s''), LReceive] b = Some b' \<and>
     sb_calls b' = [(ProjectID ''a'', SandboxID ''s'', False)] \<and> sb_recv b' = REnded"
proof -
  let ?cb = "\<lambda>(u :: update) (s :: update list) (w :: sub_world). (True, s @ [u], w)"
  let ?ls = "[LSubscribe, LEnv (publish_update ''a:update:s''), LReceive, LReturn]"
  let ?ls' = "[LEnv (publish_update ''b:update:s''), LReceive]"
  let ?b = "the (sub_run sim_pubsub ?cb background ?ls (new_subscription [] empty_sub_world))"
  have p: "parse_update ''a:update:s'' = Some (ProjectID ''a'', SandboxID ''s'', False)"
    by code_simp
  have b: "sub_run sim_pubsub ?cb background ?ls (new_subscription [] empty_sub_world) = Some ?b"
    and m: "sb_main ?b = SReturned" and cl: "sb_calls ?b = [(ProjectID ''a'', SandboxID ''s'', False)]"
    by (simp_all add: sub_eval p)
  let ?b' = "the (sub_run sim_pubsub ?cb background ?ls' ?b)"
  have b': "sub_run sim_pubsub ?cb background ?ls' ?b = Some ?b'"
    by (simp add: sub_eval p)
  have k: "env_keeps sub_closed (?ls @ ?ls')"
    by (simp add: sub_closed_def publish_update_def)
  have c: "callback_keeps sub_closed ?cb" by (simp add: callback_keeps_def)
  have "sb_calls ?b' = sb_calls ?b" and "LReceive \<in> set ?ls' \<longrightarrow> sb_recv ?b' = REnded"
    using subscription_dies [OF sim_su.pubsub_client_axioms k c b m b'] by (rule conjunct1, elim conjE)
  then have "sb_calls ?b' = [(ProjectID ''a'', SandboxID ''s'', False)]" "sb_recv ?b' = REnded"
    using cl by simp_all
  with b b' show ?thesis by (intro exI conjI)
qed

text \<open>
  C16 (xDS applies no update). With the xDS service as its consumer the subscription delivers
  at most one update: handling it deadlocks the goroutine with the service's mutex held, and
  then every later snapshot refresh blocks too. Otherwise the route table is the one of
  the initial load.
\<close>

theorem xds_applies_no_update:
  assumes "mu s = rw_free" and "sub_run P (xds_callback x) c ls (new_subscription s w) = Some b"
  shows "(sb_calls b = [] \<and> sb_consumer b = s) \<or>
    ((\<exists>u. sb_calls b = [u]) \<and> sb_recv b = RStuck \<and>
     (\<forall>ls' b'. sub_run P (xds_callback x) c ls' b = Some b' \<longrightarrow> sb_calls b' = sb_calls b) \<and>
     (\<forall>calls v. xds_calls x calls (sb_consumer b) v = (replicate (length calls) Blocks, sb_consumer b, v)))"
proof (cases "sb_recv b = RStuck")
  case True
  have h: "heard s b" using heard_run [OF assms(1) heard_new _ assms(2)] by (simp add: new_subscription_def)
  have m: "sb_main b \<noteq> SEntered" using True entered_run [OF _ assms(2)] by (auto simp: new_subscription_def)
  have u: "\<exists>u. sb_calls b = [u]" and k: "rw_writer (mu (sb_consumer b))"
    using h True by (simp_all add: heard_def)
  have "xds_calls x calls (sb_consumer b) v = (replicate (length calls) Blocks, sb_consumer b, v)" for calls v
    by (rule xds_calls_blocked [OF k])
  moreover have "sb_calls b' = sb_calls b" if "sub_run P (xds_callback x) c ls' b = Some b'" for ls' b'
    using stuck_run [OF True m that] .
  ultimately show ?thesis using True u by blast
next
  case False
  then show ?thesis
    using heard_run [OF assms(1) heard_new _ assms(2)] by (simp add: heard_def new_subscription_def)
qed

theorem xds_applies_no_update_witness:
  "\<forall>x. \<exists>b. sub_run sim_pubsub (xds_callback x) background
       [LSubscribe, LEnv (publish_update ''a:update:s''), LReceive, LReturn, LEnv (publish_update ''a:remove:'')]
       (new_subscription init_xds empty_sub_world) = Some b \<and>
     sb_calls b = [(ProjectID ''a'', SandboxID ''s'', False)] \<and> sb_recv b = RStuck \<and>
     xds_calls x [CRefresh] (sb_consumer b) (sb_world b) = ([Blocks], sb_consumer b, sb_world b)"
proof
  fix x :: "sub_world xds"
  let ?ls = "[LSubscribe, LEnv (publish_update ''a:update:s''), LReceive, LReturn, LEnv (publish_update ''a:remove:'')]"
  let ?r = "sub_run sim_pubsub (xds_callback x) background ?ls (new_subscription init_xds empty_sub_world)"
  have p: "parse_update ''a:update:s'' = Some (ProjectID ''a'', SandboxID ''s'', False)" by code_simp
  have f: "mu init_xds = rw_free" by (simp add: init_xds_def)
  have r: "?r = Some (the ?r)" and c: "sb_calls (the ?r) = [(ProjectID ''a'', SandboxID ''s'', False)]"
    by (simp_all add: sub_eval p xds_callback_def handle_blocks [OF f])
  have "sb_recv (the ?r) = RStuck"
    and bl: "\<And>calls v. xds_calls x calls (sb_consumer (the ?r)) v = (replicate (length calls) Blocks, sb_consumer (the ?r), v)"
    using xds_applies_no_update [OF f r] c by auto
  moreover have "xds_calls x [CRefresh] (sb_consumer (the ?r)) (sb_world (the ?r)) =
      ([Blocks], sb_consumer (the ?r), sb_world (the ?r))"
    using bl [of "[CRefresh]" "sb_world (the ?r)"] by simp
  ultimately show "\<exists>b. ?r = Some b \<and> sb_calls b = [(ProjectID ''a'', SandboxID ''s'', False)] \<and>
      sb_recv b = RStuck \<and> xds_calls x [CRefresh] (sb_consumer b) (sb_world b) = ([Blocks], sb_consumer b, sb_world b)"
    using r c by blast
qed

end
