(* ===== verification/Sandbox_Server.thy ===== *)
theory Sandbox_Server
  imports K8s_Client
begin

text \<open>
  The sandbox itself, as the repository ships it: the HTTP server of
  \<open>mock-sandbox/internal/server/server.go\<close> and the life of its process
  (\<open>mock-sandbox/cmd/sandbox/main.go\<close>), against the probes that the Kubernetes client puts
  into the pods.
\<close>

section \<open>Handlers\<close>

text \<open>
  How a process ends: by a panic of one of its goroutines, by \<open>os.Exit\<close> or the return of
  \<open>main\<close>, or by a signal that it does not handle yet.
\<close>

datatype death = Panicked string | Exited int | Signalled

text \<open>
  A handler writes a status and a body and may start a goroutine that sleeps for a time
  and then ends the process.
\<close>

record served =
  sv_status :: int
  sv_body :: string
  sv_later :: "(int \<times> death) option"

datatype handler = HHealth | HReady | HCrash | HExit | HSlowShutdown | HRoot

definition healthHandler :: served where
  "healthHandler = \<lparr>sv_status = 200, sv_body = ''OK'', sv_later = None\<rparr>"

definition readyHandler :: served where
  "readyHandler = \<lparr>sv_status = 200, sv_body = ''Ready'', sv_later = None\<rparr>"

definition crashHandler :: served where
  "crashHandler = \<lparr>sv_status = 200, sv_body = ''Crashing...'',
     sv_later = Some (millis 100, Panicked ''Intentionally crashing the application'')\<rparr>"

definition exitHandler :: served where
  "exitHandler = \<lparr>sv_status = 200, sv_body = ''Exiting gracefully...'',
     sv_later = Some (millis 100, Exited 0)\<rparr>"

definition slowShutdownHandler :: served where
  "slowShutdownHandler = \<lparr>sv_status = 200, sv_body = ''Initiating slow shutdown...'',
     sv_later = Some (seconds 30, Exited 0)\<rparr>"

definition rootHandler :: served where
  "rootHandler = \<lparr>sv_status = 200, sv_body = ''Sandbox is running'', sv_later = None\<rparr>"

fun run_handler :: "handler \<Rightarrow> served" where
  "run_handler HHealth = healthHandler"
| "run_handler HReady = readyHandler"
| "run_handler HCrash = crashHandler"
| "run_handler HExit = exitHandler"
| "run_handler HSlowShutdown = slowShutdownHandler"
| "run_handler HRoot = rootHandler"

lemmas handler_defs = healthHandler_def readyHandler_def crashHandler_def exitHandler_def
  slowShutdownHandler_def rootHandler_def

section \<open>Routes\<close>

record mux_route =
  mr_path :: string
  mr_methods :: "string list"
  mr_handler :: handler

definition registerRoutes :: "mux_route list" where
  "registerRoutes =
     [\<lparr>mr_path = ''/health'', mr_methods = [''GET''], mr_handler = HHealth\<rparr>,
      \<lparr>mr_path = ''/ready'', mr_methods = [''GET''], mr_handler = HReady\<rparr>,
      \<lparr>mr_path = ''/crash'', mr_methods = [''GET''], mr_handler = HCrash\<rparr>,
      \<lparr>mr_path = ''/exit'', mr_methods = [''GET''], mr_handler = HExit\<rparr>,
      \<lparr>mr_path = ''/slow-shutdown'', mr_methods = [''GET''], mr_handler = HSlowShutdown\<rparr>,
      \<lparr>mr_path = ''/'', mr_methods = [''GET''], mr_handler = HRoot\<rparr>]"

text \<open>The listening address and the routes (\<open>NewServer\<close>).\<close>

record sandbox_server =
  srv_addr :: string
  srv_routes :: "mux_route list"

definition NewServer :: sandbox_server where
  "NewServer = \<lparr>srv_addr = '':8000'', srv_routes = registerRoutes\<rparr>"

text \<open>
  The router of \<open>gorilla/mux\<close>: the first route whose path and methods match serves the
  request; a known path with another method is answered 405 without a handler.
\<close>

datatype mux_answer = Handled handler | Refused int

locale mux_router =
  fixes mux :: "mux_route list \<Rightarrow> string \<Rightarrow> string \<Rightarrow> mux_answer"
  assumes first_match: "find (\<lambda>r. mr_path r = path \<and> meth \<in> set (mr_methods r)) rs = Some r \<Longrightarrow>
      mux rs meth path = Handled (mr_handler r)"
    and wrong_method: "path \<in> mr_path ` set rs \<Longrightarrow>
      find (\<lambda>r. mr_path r = path \<and> meth \<in> set (mr_methods r)) rs = None \<Longrightarrow> mux rs meth path = Refused 405"
    and handled_route: "mux rs meth path = Handled h \<Longrightarrow>
      \<exists>r \<in> set rs. mr_path r = path \<and> meth \<in> set (mr_methods r) \<and> mr_handler r = h"

definition sim_mux :: "mux_route list \<Rightarrow> string \<Rightarrow> string \<Rightarrow> mux_answer" where
  "sim_mux rs meth path =
     (case find (\<lambda>r. mr_path r = path \<and> meth \<in> set (mr_methods r)) rs of
        Some r \<Rightarrow> Handled (mr_handler r)
      | None \<Rightarrow> Refused (if path \<in> set (map mr_path rs) then 405 else 404))"

interpretation sim_mx: mux_router sim_mux
proof (unfold_locales, goal_cases)
  case (3 rs meth path h)
  then obtain r where "find (\<lambda>r. mr_path r = path \<and> meth \<in> set (mr_methods r)) rs = Some r" "mr_handler r = h"
    by (auto simp: sim_mux_def split: option.splits)
  then show ?case by (auto simp: find_Some_iff)
qed (auto simp: sim_mux_def)

section \<open>The process\<close>

text \<open>
  \<open>PStarting\<close> until the goroutine of the server has its port, then \<open>PServing\<close>; an error of
  the listener is only logged, and leaves a process that nobody can reach (\<open>PDeaf\<close>). When a
  signal arrives, \<open>main\<close> stops the application, which shuts the server down (\<open>PStopping\<close>),
  and returns. The goroutines that handlers started run beside it: \<open>sp_timers\<close> holds the
  instants at which they wake up.
\<close>

datatype proc_status = PStarting | PServing | PDeaf | PStopping | PDead death

record sandbox_process =
  sp_status :: proc_status
  sp_clock :: int
  sp_timers :: "(int \<times> death) list"

definition new_process :: "int \<Rightarrow> sandbox_process" where
  "new_process t = \<lparr>sp_status = PStarting, sp_clock = t, sp_timers = []\<rparr>"

text \<open>
  A request to the server: \<open>None\<close> when nobody listens. While the process stops, this is a
  request on a connection that is still open.
\<close>

definition serve ::
  "(mux_route list \<Rightarrow> string \<Rightarrow> string \<Rightarrow> mux_answer) \<Rightarrow> string \<Rightarrow> string \<Rightarrow> sandbox_process \<Rightarrow>
     (int \<times> string) option \<times> sandbox_process" where
  "serve mux meth path p =
     (if sp_status p \<notin> {PServing, PStopping} then (None, p)
      else case mux (srv_routes NewServer) meth path of
        Refused n \<Rightarrow> (Some (n, ''''), p)
      | Handled h \<Rightarrow>
          (let v = run_handler h
           in (Some (sv_status v, sv_body v),
               (case sv_later v of
                  None \<Rightarrow> p
                | Some (d, x) \<Rightarrow> p\<lparr>sp_timers := (sp_clock p + d, x) # sp_timers p\<rparr>))))"

text \<open>
  The steps of the process: the listener takes its port, or fails; a request is served; time
  passes; a goroutine that has slept long enough ends the process; a termination signal,
  which kills the process while \<open>main\<close> has not asked for it (\<open>signal.Notify\<close> comes after the
  start); and the return of \<open>main\<close>, whether or not the stop gave an error.
\<close>

datatype proc_label = LAnswer int string string | LListenFails | LSignal | LTau

inductive proc_step ::
  "(mux_route list \<Rightarrow> string \<Rightarrow> string \<Rightarrow> mux_answer) \<Rightarrow> sandbox_process \<Rightarrow> proc_label \<Rightarrow> sandbox_process \<Rightarrow> bool"
  for mux where
  request: "serve mux meth path p = (Some a, p') \<Longrightarrow> proc_step mux p (LAnswer (sp_clock p) meth path) p'"
| time: "0 \<le> d \<Longrightarrow> proc_step mux p LTau (p\<lparr>sp_clock := sp_clock p + d\<rparr>)"
| listen: "sp_status p = PStarting \<Longrightarrow> proc_step mux p LTau (p\<lparr>sp_status := PServing\<rparr>)"
| deaf: "sp_status p = PStarting \<Longrightarrow> proc_step mux p LListenFails (p\<lparr>sp_status := PDeaf\<rparr>)"
| fire: "sp_status p \<in> {PServing, PDeaf, PStopping} \<Longrightarrow> (t, x) \<in> set (sp_timers p) \<Longrightarrow> t \<le> sp_clock p \<Longrightarrow>
    proc_step mux p LTau (p\<lparr>sp_status := PDead x\<rparr>)"
| killed: "sp_status p = PStarting \<Longrightarrow> proc_step mux p LSignal (p\<lparr>sp_status := PDead Signalled\<rparr>)"
| signal: "sp_status p \<in> {PStarting, PServing, PDeaf} \<Longrightarrow> proc_step mux p LSignal (p\<lparr>sp_status := PStopping\<rparr>)"
| finish: "sp_status p = PStopping \<Longrightarrow> proc_step mux p LTau (p\<lparr>sp_status := PDead (Exited 0)\<rparr>)"

inductive_cases proc_stepE: "proc_step mux p l p'"

inductive proc_run ::
  "(mux_route list \<Rightarrow> string \<Rightarrow> string \<Rightarrow> mux_answer) \<Rightarrow> sandbox_process \<Rightarrow> proc_label list \<Rightarrow>
     sandbox_process \<Rightarrow> bool"
  for mux where
  start: "proc_run mux p [] p"
| step: "proc_run mux p0 ls p \<Longrightarrow> proc_step mux p l p' \<Longrightarrow> proc_run mux p0 (ls @ [l]) p'"

text \<open>The requests that end a process: when, and how.\<close>

definition lethal :: "int \<Rightarrow> string \<Rightarrow> string \<Rightarrow> int \<Rightarrow> death \<Rightarrow> bool" where
  "lethal t0 meth path t x \<longleftrightarrow> meth = ''GET'' \<and>
     (path = ''/crash'' \<and> t = t0 + millis 100 \<and> x = Panicked ''Intentionally crashing the application'' \<or>
      path = ''/exit'' \<and> t = t0 + millis 100 \<and> x = Exited 0 \<or>
      path = ''/slow-shutdown'' \<and> t = t0 + seconds 30 \<and> x = Exited 0)"

text \<open>Among what the process was asked is a request that ends it at an instant in a way.\<close>

definition told :: "proc_label list \<Rightarrow> int \<Rightarrow> death \<Rightarrow> bool" where
  "told ls t x \<longleftrightarrow> (\<exists>t0 meth path. LAnswer t0 meth path \<in> set ls \<and> lethal t0 meth path t x)"

lemma told_simps [simp]:
  "\<not> told [] t x"
  "told (ls @ [LAnswer t0 meth path]) t x \<longleftrightarrow> told ls t x \<or> lethal t0 meth path t x"
  "told (ls @ [LSignal]) t x = told ls t x"
  "told (ls @ [LListenFails]) t x = told ls t x"
  "told (ls @ [LTau]) t x = told ls t x"
  by (auto simp: told_def)

text \<open>The paths that are served, all of them for \<open>GET\<close>.\<close>

definition served_paths :: "(string \<times> handler) list" where
  "served_paths = [(''/health'', HHealth), (''/ready'', HReady), (''/crash'', HCrash),
     (''/exit'', HExit), (''/slow-shutdown'', HSlowShutdown), (''/'', HRoot)]"

lemma registered_methods: "\<forall>r \<in> set registerRoutes. mr_methods r = [''GET'']"
  by (simp add: registerRoutes_def)

lemma registered_paths: "map (\<lambda>r. (mr_path r, mr_handler r)) registerRoutes = served_paths"
  by (simp add: registerRoutes_def served_paths_def)

lemma registered:
  assumes "r \<in> set registerRoutes"
  shows "mr_methods r = [''GET''] \<and> (mr_path r, mr_handler r) \<in> set served_paths"
  using assms registered_methods registered_paths
  by (metis (no_types, lifting) image_eqI list.set_map)

context mux_router
begin

lemma find_route:
  "mux registerRoutes ''GET'' ''/health'' = Handled HHealth"
  "mux registerRoutes ''GET'' ''/ready'' = Handled HReady"
  "mux registerRoutes ''GET'' ''/crash'' = Handled HCrash"
  "mux registerRoutes ''GET'' ''/exit'' = Handled HExit"
  "mux registerRoutes ''GET'' ''/slow-shutdown'' = Handled HSlowShutdown"
  "mux registerRoutes ''GET'' ''/'' = Handled HRoot"
  using first_match [where rs = registerRoutes and meth = "''GET''"]
  by (simp_all add: registerRoutes_def)

lemma lethal_later:
  assumes "(path, h) \<in> set served_paths"
  shows "lethal t0 ''GET'' path t x \<longleftrightarrow> (\<exists>d. sv_later (run_handler h) = Some (d, x) \<and> t = t0 + d)"
proof -
  have "\<forall>(path, h) \<in> set served_paths.
      lethal t0 ''GET'' path t x \<longleftrightarrow> (\<exists>d. sv_later (run_handler h) = Some (d, x) \<and> t = t0 + d)"
    by (simp add: served_paths_def lethal_def handler_defs) auto
  then show ?thesis using assms by blast
qed

lemma serve_timers:
  assumes "serve mux meth path p = (Some a, p')"
  shows "sp_status p' = sp_status p \<and> sp_clock p' = sp_clock p \<and>
    set (sp_timers p') = set (sp_timers p) \<union> {(t, x). lethal (sp_clock p) meth path t x}"
proof (cases "mux registerRoutes meth path")
  case (Handled h)
  then obtain r where r: "r \<in> set registerRoutes" "mr_path r = path" "meth \<in> set (mr_methods r)" "mr_handler r = h"
    using handled_route by blast
  then have m: "meth = ''GET''" and "(path, h) \<in> set served_paths"
    using registered [OF r(1)] by simp_all
  then have l: "lethal (sp_clock p) meth path t x \<longleftrightarrow> (\<exists>d. sv_later (run_handler h) = Some (d, x) \<and> t = sp_clock p + d)"
    for t x using lethal_later by simp
  show ?thesis
  proof (cases "sv_later (run_handler h)")
    case None
    then show ?thesis using assms Handled l by (simp add: serve_def NewServer_def Let_def split: if_splits)
  next
    case (Some y)
    then show ?thesis using assms Handled l
      by (cases y) (auto simp: serve_def NewServer_def Let_def split: if_splits)
  qed
next
  case (Refused n)
  then have "\<not> lethal (sp_clock p) meth path t x" for t x using find_route by (auto simp: lethal_def)
  then show ?thesis using assms Refused by (auto simp: serve_def NewServer_def split: if_splits)
qed

text \<open>The timers are those of the requests answered so far, and an end has a cause.\<close>

definition proc_inv :: "proc_label list \<Rightarrow> sandbox_process \<Rightarrow> bool" where
  "proc_inv ls p \<longleftrightarrow>
     set (sp_timers p) = {(t, x). told ls t x} \<and>
     (sp_status p = PStarting \<longrightarrow> (\<forall>t x. \<not> told ls t x)) \<and>
     (sp_status p = PDeaf \<longrightarrow> LListenFails \<in> set ls) \<and>
     (sp_status p = PStopping \<longrightarrow> LSignal \<in> set ls) \<and>
     (\<forall>x. sp_status p = PDead x \<longrightarrow>
       (\<exists>t. told ls t x \<and> t \<le> sp_clock p) \<or> (LSignal \<in> set ls \<and> x \<in> {Exited 0, Signalled}))"

lemma proc_inv_step:
  assumes "proc_inv ls p" and "proc_step mux p l p'"
  shows "proc_inv (ls @ [l]) p'"
  using assms(2)
proof (cases rule: proc_step.cases)
  case (request meth path a)
  then have "sp_status p \<in> {PServing, PStopping}" by (auto simp: serve_def split: if_splits)
  then show ?thesis using assms(1) request serve_timers [OF request(2)] by (auto simp: proc_inv_def)
next
  case (time d)
  have le: "t \<le> sp_clock p \<Longrightarrow> t \<le> sp_clock p + d" for t using time(3) by simp
  show ?thesis using assms(1) time by (auto simp: proc_inv_def dest: le)
next
  case (fire t x)
  then have "told ls t x" using assms(1) by (simp add: proc_inv_def)
  then show ?thesis using assms(1) fire by (auto simp: proc_inv_def)
qed (use assms(1) in \<open>auto simp: proc_inv_def\<close>)

lemma proc_inv_run: "proc_run mux (new_process t0) ls p \<Longrightarrow> proc_inv ls p"
proof (induction "new_process t0" ls p rule: proc_run.induct)
  case start
  then show ?case by (simp add: proc_inv_def new_process_def)
next
  case (step ls p l p')
  then show ?case using proc_inv_step by blast
qed

end

section \<open>Properties of the sandbox\<close>

text \<open>
  C21 (a sandbox lives until it is told to end). The server listens where the probes of the
  pods look, and as long as it serves, it answers both probes with 200. It ends only for a
  reason: a crash, exit or slow-shutdown request that it answered long enough ago, or a
  termination signal. And such a request is deadly: once its time has come, the end is a
  possible step as long as the process has not ended. A listener that fails does not end
  the process: it stays, answers nothing, and it is left to the liveness probe to notice.
\<close>

theorem sandbox_lives:
  assumes "mux_router mux" and "proc_run mux (new_process t0) ls p"
  shows "(sp_status p = PServing \<longrightarrow>
      (\<forall>pr \<in> {liveness_probe, startup_probe}. srv_addr NewServer = CHR '':'' # show_int (pr_port pr) \<and>
        (\<exists>body. serve mux ''GET'' (pr_path pr) p = (Some (200, body), p)))) \<and>
    (\<forall>x. sp_status p = PDead x \<longrightarrow>
      (\<exists>t. told ls t x \<and> t \<le> sp_clock p) \<or> (LSignal \<in> set ls \<and> x \<in> {Exited 0, Signalled})) \<and>
    (\<forall>t x. told ls t x \<and> t \<le> sp_clock p \<and> (\<forall>y. sp_status p \<noteq> PDead y) \<longrightarrow>
      proc_step mux p LTau (p\<lparr>sp_status := PDead x\<rparr>)) \<and>
    (sp_status p = PDeaf \<longrightarrow> LListenFails \<in> set ls \<and> (\<forall>meth path. serve mux meth path p = (None, p)))"
proof (intro conjI)
  have i: "mux_router.proc_inv ls p" using mux_router.proc_inv_run [OF assms] .
  note inv = i [unfolded mux_router.proc_inv_def [OF assms(1)]]
  have "show_int 8000 = ''8000''" by (simp add: show_int_def show_nat.simps char_of_def bit_0)
  then show "sp_status p = PServing \<longrightarrow>
      (\<forall>pr \<in> {liveness_probe, startup_probe}. srv_addr NewServer = CHR '':'' # show_int (pr_port pr) \<and>
        (\<exists>body. serve mux ''GET'' (pr_path pr) p = (Some (200, body), p)))"
    using mux_router.find_route [OF assms(1)]
    by (simp add: liveness_probe_def startup_probe_def NewServer_def serve_def handler_defs)
  show "\<forall>x. sp_status p = PDead x \<longrightarrow>
      (\<exists>t. told ls t x \<and> t \<le> sp_clock p) \<or> (LSignal \<in> set ls \<and> x \<in> {Exited 0, Signalled})"
    using inv by blast
  show "sp_status p = PDeaf \<longrightarrow> LListenFails \<in> set ls \<and> (\<forall>meth path. serve mux meth path p = (None, p))"
    using inv by (simp add: serve_def)
  show "\<forall>t x. told ls t x \<and> t \<le> sp_clock p \<and> (\<forall>y. sp_status p \<noteq> PDead y) \<longrightarrow>
      proc_step mux p LTau (p\<lparr>sp_status := PDead x\<rparr>)"
    using inv by (cases "sp_status p") (auto intro: proc_step.fire)
qed

theorem sandbox_lives_witness:
  "\<exists>p. proc_run sim_mux (new_process 0) [LTau, LAnswer 0 ''GET'' ''/ready'', LAnswer 0 ''GET'' ''/crash'', LTau] p \<and>
     sp_status p = PServing \<and>
     proc_step sim_mux p LTau (p\<lparr>sp_status := PDead (Panicked ''Intentionally crashing the application'')\<rparr>)"
proof -
  let ?x = "Panicked ''Intentionally crashing the application''"
  let ?q = "(new_process 0)\<lparr>sp_status := PServing\<rparr>"
  let ?p = "?q\<lparr>sp_clock := millis 100, sp_timers := [(millis 100, ?x)]\<rparr>"
  let ?ls = "[LTau, LAnswer 0 ''GET'' ''/ready'', LAnswer 0 ''GET'' ''/crash'', LTau]"
  note f = sim_mx.find_route
  have 0: "proc_step sim_mux (new_process 0) LTau ?q"
    using proc_step.listen [of "new_process 0"] by (simp add: new_process_def)
  have 1: "proc_step sim_mux ?q (LAnswer 0 ''GET'' ''/ready'') ?q"
    using proc_step.request [of sim_mux "''GET''" "''/ready''" ?q] f
    by (simp add: serve_def new_process_def NewServer_def handler_defs)
  have 2: "proc_step sim_mux ?q (LAnswer 0 ''GET'' ''/crash'') (?q\<lparr>sp_timers := [(millis 100, ?x)]\<rparr>)"
    using proc_step.request [of sim_mux "''GET''" "''/crash''" ?q] f
    by (simp add: serve_def new_process_def NewServer_def handler_defs)
  have 3: "proc_step sim_mux (?q\<lparr>sp_timers := [(millis 100, ?x)]\<rparr>) LTau ?p"
    using proc_step.time [of "millis 100" sim_mux "?q\<lparr>sp_timers := [(millis 100, ?x)]\<rparr>"]
    by (simp add: new_process_def millis_def)
  have r: "proc_run sim_mux (new_process 0) ?ls ?p"
    using proc_run.step [OF proc_run.step [OF proc_run.step [OF proc_run.step [OF proc_run.start 0] 1] 2] 3] by simp
  have "told ?ls (millis 100) ?x" by (auto simp: told_def lethal_def)
  moreover have s: "sp_status ?p = PServing" "sp_clock ?p = millis 100" by (simp_all add: new_process_def)
  ultimately have "told ?ls (millis 100) ?x \<and> millis 100 \<le> sp_clock ?p \<and> (\<forall>y. sp_status ?p \<noteq> PDead y)"
    by (simp del: told_simps)
  then have "proc_step sim_mux ?p LTau (?p\<lparr>sp_status := PDead ?x\<rparr>)"
    by (rule sandbox_lives [OF sim_mx.mux_router_axioms r, THEN conjunct2, THEN conjunct2, THEN conjunct1,
          THEN spec, THEN spec, THEN mp])
  then show ?thesis using r s(1) by blast
qed

end
