(* ===== verification/Pool_Store.thy ===== *)
theory Pool_Store
  imports Project_Store
begin

text \<open>
  The pool of ready and pending sandboxes: the interface \<open>SandboxPoolStore\<close>
  (\<open>pool_store.go\<close>) and its Redis implementation (\<open>redis_pool_store.go\<close>), two sorted
  sets whose scores are the insertion times in seconds.
\<close>

record 'w pool_store =
  ps_AddReadySandbox :: "ctx \<Rightarrow> sandbox_id \<Rightarrow> ('w, err option) op"
  ps_GetReadySandbox :: "ctx \<Rightarrow> ('w, err + sandbox_id) op"
  ps_CountReadySandboxes :: "ctx \<Rightarrow> ('w, err + int) op"
  ps_AddPendingSandbox :: "ctx \<Rightarrow> sandbox_id \<Rightarrow> ('w, err option) op"
  ps_GetPendingSandboxes :: "ctx \<Rightarrow> ('w, err + sandbox_id list) op"
  ps_RemovePendingSandbox :: "ctx \<Rightarrow> sandbox_id \<Rightarrow> ('w, err option) op"
  ps_CountPendingSandboxes :: "ctx \<Rightarrow> ('w, err + int) op"

definition readySandboxesKey :: string where "readySandboxesKey = ''sandboxes:ready''"
definition pendingSandboxesKey :: string where "pendingSandboxesKey = ''sandboxes:pending''"

record 'w redisPool =
  rp_client :: "'w redis"
  rp_keyPrefix :: string
  rp_runtime :: "'w runtime"

definition NewRedisSandboxPoolStore ::
  "'w runtime \<Rightarrow> 'w redis option \<Rightarrow> string \<Rightarrow> err + 'w redisPool" where
  "NewRedisSandboxPoolStore rt cl pfx =
     (case cl of
        None \<Rightarrow> Inl (ErrText ''redis client cannot be nil'')
      | Some c \<Rightarrow> Inr \<lparr>rp_client = c, rp_keyPrefix = pfx, rp_runtime = rt\<rparr>)"

definition getKey :: "'w redisPool \<Rightarrow> string \<Rightarrow> string" where
  "getKey r k = rp_keyPrefix r @ '':'' @ k"

text \<open>\<open>time.Now().Unix()\<close>: whole seconds, exactly representable as a score.\<close>

definition unix_now :: "'w runtime \<Rightarrow> 'w \<Rightarrow> int" where
  "unix_now rt w = rt_now rt w div 1000000000"

definition AddReadySandbox :: "'w redisPool \<Rightarrow> ctx \<Rightarrow> sandbox_id \<Rightarrow> ('w, err option) op" where
  "AddReadySandbox r c s w =
     (let now = unix_now (rp_runtime r) w
      in case rd_ZAdd (rp_client r) c (getKey r readySandboxesKey) now (sid s) w of
           (Inl e, w1) \<Rightarrow> (Some e, w1)
         | (Inr n, w1) \<Rightarrow> (None, w1))"

definition GetReadySandbox :: "'w redisPool \<Rightarrow> ctx \<Rightarrow> ('w, err + sandbox_id) op" where
  "GetReadySandbox r c w =
     (case rd_ZPopMin (rp_client r) c (getKey r readySandboxesKey) 1 w of
        (Inl e, w1) \<Rightarrow> (Inl e, w1)
      | (Inr result, w1) \<Rightarrow>
          (case result of
             [] \<Rightarrow> (Inl ErrPoolEmpty, w1)
           | z # _ \<Rightarrow> (NewSandboxID (snd z), w1)))"

definition CountReadySandboxes :: "'w redisPool \<Rightarrow> ctx \<Rightarrow> ('w, err + int) op" where
  "CountReadySandboxes r c w = rd_ZCard (rp_client r) c (getKey r readySandboxesKey) w"

definition AddPendingSandbox :: "'w redisPool \<Rightarrow> ctx \<Rightarrow> sandbox_id \<Rightarrow> ('w, err option) op" where
  "AddPendingSandbox r c s w =
     (let now = unix_now (rp_runtime r) w
      in case rd_ZAdd (rp_client r) c (getKey r pendingSandboxesKey) now (sid s) w of
           (Inl e, w1) \<Rightarrow> (Some e, w1)
         | (Inr n, w1) \<Rightarrow> (None, w1))"

definition parse_members :: "(int \<times> string) list \<Rightarrow> sandbox_id list" where
  "parse_members zs =
     List.map_filter (\<lambda>z. case NewSandboxID (snd z) of Inl _ \<Rightarrow> None | Inr s \<Rightarrow> Some s) zs"

definition GetPendingSandboxes :: "'w redisPool \<Rightarrow> ctx \<Rightarrow> ('w, err + sandbox_id list) op" where
  "GetPendingSandboxes r c w =
     (case rd_ZRange (rp_client r) c (getKey r pendingSandboxesKey) 0 (-1) w of
        (Inl e, w1) \<Rightarrow> (Inl e, w1)
      | (Inr result, w1) \<Rightarrow> (Inr (parse_members result), w1))"

definition RemovePendingSandbox :: "'w redisPool \<Rightarrow> ctx \<Rightarrow> sandbox_id \<Rightarrow> ('w, err option) op" where
  "RemovePendingSandbox r c s w =
     (case rd_ZRem (rp_client r) c (getKey r pendingSandboxesKey) (sid s) w of
        (Inl e, w1) \<Rightarrow> (Some e, w1)
      | (Inr n, w1) \<Rightarrow> (None, w1))"

definition CountPendingSandboxes :: "'w redisPool \<Rightarrow> ctx \<Rightarrow> ('w, err + int) op" where
  "CountPendingSandboxes r c w = rd_ZCard (rp_client r) c (getKey r pendingSandboxesKey) w"

definition redis_PoolStore :: "'w redisPool \<Rightarrow> 'w pool_store" where
  "redis_PoolStore r =
     \<lparr>ps_AddReadySandbox = AddReadySandbox r,
      ps_GetReadySandbox = GetReadySandbox r,
      ps_CountReadySandboxes = CountReadySandboxes r,
      ps_AddPendingSandbox = AddPendingSandbox r,
      ps_GetPendingSandboxes = GetPendingSandboxes r,
      ps_RemovePendingSandbox = RemovePendingSandbox r,
      ps_CountPendingSandboxes = CountPendingSandboxes r\<rparr>"

section \<open>The contract of the pool\<close>

text \<open>
  Two priority queues of sandboxes, ordered by the second of their insertion. \<open>ready\<close> and
  \<open>pend\<close> are their entries, first out first; \<open>inv\<close> holds of every world the pool's
  operations reach from one where it holds.
\<close>

locale pool_contract =
  fixes P :: "'w pool_store" and inv :: "'w \<Rightarrow> bool"
    and ready :: "'w \<Rightarrow> (int \<times> string) list" and pend :: "'w \<Rightarrow> (int \<times> string) list"
    and now :: "'w \<Rightarrow> int"
  assumes queues_wf: "inv w \<Longrightarrow> zset_wf (ready w) \<and> zset_wf (pend w)"
    and add_ready: "inv w \<Longrightarrow> ps_AddReadySandbox P c s w = (e, w') \<Longrightarrow> inv w' \<and> pend w' = pend w \<and>
      (ready w' = zadd (now w) (sid s) (ready w) \<or> e \<noteq> None \<and> ready w' = ready w)"
    and take_ready: "inv w \<Longrightarrow> ps_GetReadySandbox P c w = (Inr s, w') \<Longrightarrow> inv w' \<and> pend w' = pend w \<and>
      (\<exists>z. ready w = z # ready w' \<and> NewSandboxID (snd z) = Inr s)"
    and take_empty: "inv w \<Longrightarrow> ps_GetReadySandbox P c w = (Inl ErrPoolEmpty, w') \<Longrightarrow>
      ready w = [] \<and> ready w' = []"
    and take_error: "inv w \<Longrightarrow> ps_GetReadySandbox P c w = (Inl er, w') \<Longrightarrow> inv w' \<and> pend w' = pend w \<and>
      (ready w' = ready w \<or> (\<exists>z. ready w = z # ready w'))"
    and count_ready: "inv w \<Longrightarrow> ps_CountReadySandboxes P c w = (x, w') \<Longrightarrow>
      inv w' \<and> ready w' = ready w \<and> pend w' = pend w \<and>
      (\<forall>n. x = Inr n \<longrightarrow> n = int (length (ready w)))"
    and add_pending: "inv w \<Longrightarrow> ps_AddPendingSandbox P c s w = (e, w') \<Longrightarrow> inv w' \<and> ready w' = ready w \<and>
      (pend w' = zadd (now w) (sid s) (pend w) \<or> e \<noteq> None \<and> pend w' = pend w)"
    and list_pending: "inv w \<Longrightarrow> ps_GetPendingSandboxes P c w = (y, w') \<Longrightarrow>
      inv w' \<and> ready w' = ready w \<and> pend w' = pend w \<and>
      (\<forall>ss. y = Inr ss \<longrightarrow> ss = parse_members (pend w))"
    and remove_pending: "inv w \<Longrightarrow> ps_RemovePendingSandbox P c s w = (e, w') \<Longrightarrow>
      inv w' \<and> ready w' = ready w \<and>
      (pend w' = zdel (sid s) (pend w) \<or> e \<noteq> None \<and> pend w' = pend w)"
    and count_pending: "inv w \<Longrightarrow> ps_CountPendingSandboxes P c w = (x, w') \<Longrightarrow>
      inv w' \<and> ready w' = ready w \<and> pend w' = pend w \<and>
      (\<forall>n. x = Inr n \<longrightarrow> n = int (length (pend w)))"
begin

lemma taken_is_oldest:
  assumes "inv w" and "ps_GetReadySandbox P c w = (Inr s, w')"
  shows "\<exists>t m. (t, m) \<in> set (ready w) \<and> NewSandboxID m = Inr s \<and> (t, m) \<notin> set (ready w') \<and>
    (\<forall>z \<in> set (ready w'). t \<le> fst z \<and> snd z \<noteq> m)"
proof -
  obtain z where z: "ready w = z # ready w'" and s: "NewSandboxID (snd z) = Inr s"
    using take_ready [OF assms] by blast
  have wf: "zset_wf (z # ready w')" using queues_wf [OF assms(1)] z by simp
  have "fst z \<le> fst y \<and> snd y \<noteq> snd z" if "y \<in> set (ready w')" for y
  proof -
    have "zless z y" and "snd z \<notin> snd ` set (ready w')"
      using wf that by (auto simp: zset_wf_def)
    then show ?thesis using that unfolding zless_def by (metis imageI less_imp_le order_refl)
  qed
  note later = this
  have "z \<notin> set (ready w')" using later [of z] by blast
  moreover have "z \<in> set (ready w)" by (simp add: z)
  ultimately show ?thesis
    using s later by (intro exI [of _ "fst z"] exI [of _ "snd z"] conjI ballI) simp_all
qed

end

section \<open>The Redis pool keeps the contract\<close>

locale redis_pool = redis_server "rp_client r" db clk
  for r :: "'w redisPool" and db :: "'w \<Rightarrow> redis_db" and clk :: "'w \<Rightarrow> int"

definition ready_queue :: "'w redisPool \<Rightarrow> redis_db \<Rightarrow> (int \<times> string) list" where
  "ready_queue r D = zmembers 0 D (getKey r readySandboxesKey)"

definition pending_queue :: "'w redisPool \<Rightarrow> redis_db \<Rightarrow> (int \<times> string) list" where
  "pending_queue r D = zmembers 0 D (getKey r pendingSandboxesKey)"

definition pool_inv :: "'w redisPool \<Rightarrow> redis_db \<Rightarrow> bool" where
  "pool_inv r D \<longleftrightarrow> zset_wf (ready_queue r D) \<and> zset_wf (pending_queue r D) \<and>
     no_expiry D (getKey r readySandboxesKey) \<and> no_expiry D (getKey r pendingSandboxesKey)"

lemma pool_keys [simp]:
  "getKey r readySandboxesKey \<noteq> getKey r pendingSandboxesKey"
  "getKey r pendingSandboxesKey \<noteq> getKey r readySandboxesKey"
  by (simp_all add: getKey_def readySandboxesKey_def pendingSandboxesKey_def)

lemma pool_at:
  assumes "pool_inv r D"
  shows "zmembers t D (getKey r readySandboxesKey) = ready_queue r D"
    and "zmembers t D (getKey r pendingSandboxesKey) = pending_queue r D"
  using assms no_expiry_zmembers [of D _ t] by (simp_all add: pool_inv_def ready_queue_def pending_queue_def)

lemma pool_put_ready:
  assumes "pool_inv r D" and "zset_wf Z"
  shows "pool_inv r (zput t (getKey r readySandboxesKey) Z D) \<and>
    ready_queue r (zput t (getKey r readySandboxesKey) Z D) = Z \<and>
    pending_queue r (zput t (getKey r readySandboxesKey) Z D) = pending_queue r D"
  using assms by (simp add: pool_inv_def ready_queue_def pending_queue_def no_expiry_put)

lemma pool_put_pending:
  assumes "pool_inv r D" and "zset_wf Z"
  shows "pool_inv r (zput t (getKey r pendingSandboxesKey) Z D) \<and>
    pending_queue r (zput t (getKey r pendingSandboxesKey) Z D) = Z \<and>
    ready_queue r (zput t (getKey r pendingSandboxesKey) Z D) = ready_queue r D"
  using assms by (simp add: pool_inv_def ready_queue_def pending_queue_def no_expiry_put)

text \<open>What taking the first ready sandbox leaves.\<close>

lemma pool_pop:
  assumes "pool_inv r D"
  shows "pool_inv r (zput t (getKey r readySandboxesKey) (drop 1 (ready_queue r D)) D) \<and>
    ready_queue r (zput t (getKey r readySandboxesKey) (drop 1 (ready_queue r D)) D) =
      drop 1 (ready_queue r D) \<and>
    pending_queue r (zput t (getKey r readySandboxesKey) (drop 1 (ready_queue r D)) D) = pending_queue r D"
  using assms pool_put_ready [OF assms] zset_wf_drop [of "ready_queue r D" 1] by (simp add: pool_inv_def)

lemma pool_inv_wf: "pool_inv r D \<Longrightarrow> zset_wf (ready_queue r D) \<and> zset_wf (pending_queue r D)"
  by (simp add: pool_inv_def)

lemmas pool_puts = pool_put_ready pool_put_pending pool_at pool_inv_wf zset_wf_zadd zset_wf_zdel
  zset_wf_drop

lemma redis_PoolStore_simps [simp]:
  "ps_AddReadySandbox (redis_PoolStore r) = AddReadySandbox r"
  "ps_GetReadySandbox (redis_PoolStore r) = GetReadySandbox r"
  "ps_CountReadySandboxes (redis_PoolStore r) = CountReadySandboxes r"
  "ps_AddPendingSandbox (redis_PoolStore r) = AddPendingSandbox r"
  "ps_GetPendingSandboxes (redis_PoolStore r) = GetPendingSandboxes r"
  "ps_RemovePendingSandbox (redis_PoolStore r) = RemovePendingSandbox r"
  "ps_CountPendingSandboxes (redis_PoolStore r) = CountPendingSandboxes r"
  by (simp_all add: redis_PoolStore_def)

lemma NewSandboxID_not_empty: "NewSandboxID m \<noteq> Inl ErrPoolEmpty"
  by (simp add: NewSandboxID_def Let_def)

context redis_pool
begin

text \<open>Taking a sandbox: the first of the queue, or an error after which it may be lost.\<close>

lemma GetReady_taken:
  assumes "pool_inv r (db w)" and "GetReadySandbox r c w = (Inr s, w')"
  shows "pool_inv r (db w') \<and> pending_queue r (db w') = pending_queue r (db w) \<and>
    (\<exists>z. ready_queue r (db w) = z # ready_queue r (db w') \<and> NewSandboxID (snd z) = Inr s)"
proof -
  obtain z zs where p: "rd_ZPopMin (rp_client r) c (getKey r readySandboxesKey) 1 w = (Inr (z # zs), w')"
    and s: "NewSandboxID (snd z) = Inr s"
    using assms(2) by (auto simp: GetReadySandbox_def split: prod.splits sum.splits list.splits)
  have "db w' = zput (clk w') (getKey r readySandboxesKey) (drop 1 (ready_queue r (db w))) (db w)"
    and "z # zs = take 1 (ready_queue r (db w))"
    using ZPopMin_ok [OF p] assms(1) by (simp_all add: pool_at)
  then show ?thesis using s pool_pop [OF assms(1), of "clk w'"] by (cases "ready_queue r (db w)") auto
qed

lemma GetReady_keeps:
  assumes "pool_inv r (db w)" and "GetReadySandbox r c w = (x, w')"
  shows "pool_inv r (db w') \<and> pending_queue r (db w') = pending_queue r (db w) \<and>
    (ready_queue r (db w') = ready_queue r (db w) \<or> (\<exists>z. ready_queue r (db w) = z # ready_queue r (db w')))"
proof -
  obtain y where y: "rd_ZPopMin (rp_client r) c (getKey r readySandboxesKey) 1 w = (y, w')"
    using assms(2) by (auto simp: GetReadySandbox_def split: prod.splits sum.splits list.splits)
  have "db w' = db w \<or>
      db w' = zput (clk w') (getKey r readySandboxesKey) (drop 1 (ready_queue r (db w))) (db w)"
    using y ZPopMin_ok ZPopMin_err assms(1) by (cases y) (fastforce simp: pool_at)+
  then show ?thesis using assms(1) pool_pop [OF assms(1), of "clk w'"] by (cases "ready_queue r (db w)") auto
qed

end

sublocale redis_pool \<subseteq> pl: pool_contract "redis_PoolStore r" "\<lambda>w. pool_inv r (db w)"
  "\<lambda>w. ready_queue r (db w)" "\<lambda>w. pending_queue r (db w)" "unix_now (rp_runtime r)"
proof (unfold_locales, goal_cases)
  case (1 w)
  then show ?case by (rule pool_inv_wf)
next
  case (2 w c s e w')
  then show ?case
    by (auto simp: AddReadySandbox_def Let_def pool_puts split: prod.splits sum.splits
        dest!: ZAdd_ok ZAdd_err)
next
  case (3 w c s w')
  then show ?case using GetReady_taken [of w c s w'] by simp
next
  case (4 w c w')
  then show ?case
    by (auto simp: GetReadySandbox_def NewSandboxID_not_empty pool_puts take_Suc
        split: prod.splits sum.splits list.splits dest!: ZPopMin_ok dest: ZPopMin_foreign)
next
  case (5 w c e w')
  then show ?case using GetReady_keeps [of w c "Inl e" w'] by simp
next
  case (6 w c x w')
  then show ?case
    by (auto simp: CountReadySandboxes_def pool_at dest: ZCard_db dest!: ZCard_ok)
next
  case (7 w c s e w')
  then show ?case
    by (auto simp: AddPendingSandbox_def Let_def pool_puts split: prod.splits sum.splits
        dest!: ZAdd_ok ZAdd_err)
next
  case (8 w c x w')
  then show ?case
    by (auto simp: GetPendingSandboxes_def pool_at split: prod.splits sum.splits
        dest: ZRange_db ZRange_all)
next
  case (9 w c s e w')
  then show ?case
    by (auto simp: RemovePendingSandbox_def pool_puts split: prod.splits sum.splits
        dest!: ZRem_ok ZRem_err)
next
  case (10 w c x w')
  then show ?case
    by (auto simp: CountPendingSandboxes_def pool_at dest: ZCard_db dest!: ZCard_ok)
qed

section \<open>Interleaved users of the pool\<close>

text \<open>
  Several users of the pool: each step is one operation, with what matters of it. Only
  identifiers that read back as they were written are added.
\<close>

datatype pool_label = TAddReady sandbox_id | TTake "err + sandbox_id" | TOther

inductive pool_step :: "'w pool_store \<Rightarrow> 'w \<Rightarrow> pool_label \<Rightarrow> 'w \<Rightarrow> bool" for P where
  t_add: "ps_AddReadySandbox P c s w = (e, w') \<Longrightarrow> plain_sandbox s \<Longrightarrow> pool_step P w (TAddReady s) w'"
| t_take: "ps_GetReadySandbox P c w = (x, w') \<Longrightarrow> pool_step P w (TTake x) w'"
| t_count: "ps_CountReadySandboxes P c w = (n, w') \<Longrightarrow> pool_step P w TOther w'"
| t_addp: "ps_AddPendingSandbox P c s w = (e, w') \<Longrightarrow> pool_step P w TOther w'"
| t_list: "ps_GetPendingSandboxes P c w = (ss, w') \<Longrightarrow> pool_step P w TOther w'"
| t_remove: "ps_RemovePendingSandbox P c s w = (e, w') \<Longrightarrow> pool_step P w TOther w'"
| t_countp: "ps_CountPendingSandboxes P c w = (n, w') \<Longrightarrow> pool_step P w TOther w'"

inductive pool_run :: "'w pool_store \<Rightarrow> 'w \<Rightarrow> pool_label list \<Rightarrow> 'w \<Rightarrow> bool" for P where
  pr_nil: "pool_run P w [] w"
| pr_step: "pool_step P w l w1 \<Longrightarrow> pool_run P w1 ls w' \<Longrightarrow> pool_run P w (l # ls) w'"

definition plain_queue :: "(int \<times> string) list \<Rightarrow> bool" where
  "plain_queue Z \<longleftrightarrow> (\<forall>z \<in> set Z. plain_sandbox (SandboxID (snd z)))"

lemma plain_queue_zadd: "plain_queue Z \<Longrightarrow> plain_sandbox s \<Longrightarrow> plain_queue (zadd t (sid s) Z)"
  by (auto simp: plain_queue_def set_zadd in_zdel)

lemma parse_members_plain: "plain_queue Z \<Longrightarrow> parse_members Z = map (\<lambda>z. SandboxID (snd z)) Z"
proof (induction Z)
  case (Cons z Z)
  then have "NewSandboxID (snd z) = Inr (SandboxID (snd z))"
    using plain_sandbox_parse [of "SandboxID (snd z)"] by (simp add: plain_queue_def)
  then show ?case using Cons by (simp add: parse_members_def List.map_filter_simps plain_queue_def)
qed (simp add: parse_members_def List.map_filter_simps)

text \<open>The sandboxes a queue holds.\<close>

definition members :: "(int \<times> string) list \<Rightarrow> string set" where
  "members Z = snd ` set Z"

lemma members_zadd: "members (zadd t m Z) = insert m (members Z)"
  by (auto simp: members_def set_zadd in_zdel image_iff)

lemma members_zdel: "members (zdel m Z) = members Z - {m}"
  by (auto simp: members_def in_zdel)

lemma parse_members_wf:
  assumes "plain_queue Z" and "zset_wf Z"
  shows "distinct (parse_members Z) \<and> sid ` set (parse_members Z) = members Z"
proof -
  have "distinct (map SandboxID (map snd Z))"
    using assms(2) by (subst distinct_map) (simp add: zset_wf_def inj_on_def)
  moreover have "parse_members Z = map SandboxID (map snd Z)"
    using parse_members_plain [OF assms(1)] by simp
  ultimately show ?thesis by (simp add: members_def image_image)
qed

context pool_contract
begin

text \<open>What one step does to the ready queue: nothing, an addition, or taking the first.\<close>

lemma step_ready:
  assumes "pool_step P w l w'" and "inv w"
  shows "inv w' \<and> (ready w' = ready w \<or>
    (\<exists>s t. l = TAddReady s \<and> plain_sandbox s \<and> ready w' = zadd t (sid s) (ready w)) \<or>
    (\<exists>z. ready w = z # ready w'))"
  using assms
proof (cases rule: pool_step.cases)
  case (t_take c x)
  then show ?thesis using take_ready [OF assms(2)] take_error [OF assms(2)]
    by (cases x) blast+
qed (use assms(2) in \<open>auto dest: add_ready count_ready add_pending list_pending remove_pending count_pending\<close>)

lemma step_plain:
  assumes "pool_step P w l w'" and "inv w" and "plain_queue (ready w)"
  shows "plain_queue (ready w')"
  using step_ready [OF assms(1,2)] assms(3)
  by (auto simp: plain_queue_zadd) (auto simp: plain_queue_def)

lemma step_absent:
  assumes "pool_step P w l w'" and "inv w" and "sid s \<notin> members (ready w)" and "l \<noteq> TAddReady s"
  shows "sid s \<notin> members (ready w')"
  using step_ready [OF assms(1,2)] assms(3,4)
  by (auto simp: members_zadd sandbox_id.expand) (auto simp: members_def)

lemma run_absent:
  "pool_run P w ls w' \<Longrightarrow> inv w \<Longrightarrow> plain_queue (ready w) \<Longrightarrow> sid s \<notin> members (ready w) \<Longrightarrow>
     TAddReady s \<notin> set ls \<Longrightarrow> inv w' \<and> plain_queue (ready w') \<and> sid s \<notin> members (ready w')"
proof (induction rule: pool_run.induct)
  case (pr_step w l w1 ls w')
  then show ?case
    using step_ready [OF pr_step.hyps(1)] step_plain [OF pr_step.hyps(1)]
      step_absent [OF pr_step.hyps(1), of s] by auto
qed simp

lemma taken_member:
  assumes "inv w" and "plain_queue (ready w)" and "ps_GetReadySandbox P c w = (Inr s, w')"
  shows "sid s \<in> members (ready w) \<and> sid s \<notin> members (ready w') \<and> inv w' \<and> plain_queue (ready w')"
proof -
  obtain z where z: "ready w = z # ready w'" "NewSandboxID (snd z) = Inr s" and "inv w'"
    using take_ready [OF assms(1,3)] by blast
  have "plain_sandbox (SandboxID (snd z))" and q: "plain_queue (ready w')"
    using assms(2) z by (simp_all add: plain_queue_def)
  then have "snd z = sid s" using z(2) plain_sandbox_parse by fastforce
  moreover have "snd z \<notin> members (ready w')"
    using queues_wf [OF assms(1)] z by (simp add: zset_wf_def members_def)
  ultimately show ?thesis using z q \<open>inv w'\<close> by (simp add: members_def)
qed

lemma handed_out_once:
  assumes "inv w" and "plain_queue (ready w)" and "ps_GetReadySandbox P c w = (Inr s, w1)"
    and "pool_run P w1 ls w2" and "ps_GetReadySandbox P c' w2 = (Inr s, w3)"
  shows "TAddReady s \<in> set ls"
  using taken_member [OF assms(1-3)] run_absent [OF assms(4), of s] taken_member [OF _ _ assms(5)]
  by blast

end

context redis_pool
begin

lemma contract:
  "pool_contract (redis_PoolStore r) (\<lambda>w. pool_inv r (db w)) (\<lambda>w. ready_queue r (db w))
     (\<lambda>w. pending_queue r (db w)) (unix_now (rp_runtime r))"
  by (rule pl.pool_contract_axioms)

end

lemma redis_pool_contract:
  "redis_server (rp_client r) db clk \<Longrightarrow>
   pool_contract (redis_PoolStore r) (\<lambda>w. pool_inv r (db w)) (\<lambda>w. ready_queue r (db w))
     (\<lambda>w. pending_queue r (db w)) (unix_now (rp_runtime r))"
  by (rule redis_pool.contract) (simp add: redis_pool_def)

section \<open>The pool on the simulated server\<close>

definition sim_pool :: "world redisPool" where
  "sim_pool = \<lparr>rp_client = sim_redis, rp_keyPrefix = ''sch:'', rp_runtime = sim_runtime\<rparr>"

lemma sim_pool_simps [simp]: "rp_client sim_pool = sim_redis" "rp_runtime sim_pool = sim_runtime"
  by (simp_all add: sim_pool_def)

interpretation sim_pl: redis_pool sim_pool w_db w_clk
  by (unfold_locales)
     (simp_all add: sim.redis_server_axioms [unfolded redis_server_def])

lemmas pool_eval = AddReadySandbox_def GetReadySandbox_def CountReadySandboxes_def
  AddPendingSandbox_def GetPendingSandboxes_def RemovePendingSandbox_def CountPendingSandboxes_def
  sim_pool_def getKey_def readySandboxesKey_def pendingSandboxesKey_def unix_now_def
  ready_queue_def pending_queue_def

lemma sim_pool_inv_init: "pool_inv sim_pool (w_db init_world)"
  by (simp add: pool_inv_def no_expiry_def pool_eval sim_eval)

section \<open>Properties of the pool\<close>

text \<open>
  First in, first out. A sandbox taken from the pool was a member of the ready queue
  no younger member of which is left behind: every remaining one was added in the same
  second or later, and the taken one is gone.
\<close>

lemma pool_fifo:
  assumes "redis_server (rp_client r) db clk" and "pool_inv r (db w)"
    and "GetReadySandbox r c w = (Inr s, w')"
  shows "\<exists>t m. (t, m) \<in> set (ready_queue r (db w)) \<and> NewSandboxID m = Inr s \<and>
    (\<forall>z \<in> set (ready_queue r (db w')). t \<le> fst z \<and> snd z \<noteq> m)"
  using pool_contract.taken_is_oldest [OF redis_pool_contract [OF assms(1)] assms(2)] assms(3)
  by (simp add: redis_PoolStore_simps) blast

text \<open>
  C5 (a sandbox is handed out once). However many users the pool has and however they
  interleave: if a sandbox is taken and taken again later, it has been added to the ready
  queue in between.
\<close>

theorem pool_handed_out_once:
  assumes "redis_server (rp_client r) db clk" and "pool_inv r (db w)"
    and "plain_queue (ready_queue r (db w))"
    and "GetReadySandbox r c w = (Inr s, w1)" and "pool_run (redis_PoolStore r) w1 ls w2"
    and "GetReadySandbox r c' w2 = (Inr s, w3)"
  shows "TAddReady s \<in> set ls"
  using pool_contract.handed_out_once [OF redis_pool_contract [OF assms(1)] assms(2,3), of c s w1 ls w2 c' w3]
    assms(4-6) by simp

theorem pool_handed_out_once_witness:
  "\<exists>w1 w2 w3. GetReadySandbox sim_pool background
      (snd (AddReadySandbox sim_pool background (SandboxID ''s'') init_world)) = (Inr (SandboxID ''s''), w1) \<and>
    pool_run (redis_PoolStore sim_pool) w1 [TAddReady (SandboxID ''s'')] w2 \<and>
    GetReadySandbox sim_pool background w2 = (Inr (SandboxID ''s''), w3) \<and>
    TAddReady (SandboxID ''s'') \<in> set [TAddReady (SandboxID ''s'')]"
proof -
  let ?a = "\<lambda>w. AddReadySandbox sim_pool background (SandboxID ''s'') w"
  let ?g = "\<lambda>w. GetReadySandbox sim_pool background w"
  let ?w = "snd (?a init_world)"
  let ?w1 = "snd (?g ?w)"
  let ?w2 = "snd (?a ?w1)"
  have inv: "pool_inv sim_pool (w_db ?w)" "plain_queue (ready_queue sim_pool (w_db ?w))"
    by (simp_all add: pool_inv_def no_expiry_def zset_wf_def plain_queue_def plain_ids_eval pool_eval sim_eval)
  have 1: "?g ?w = (Inr (SandboxID ''s''), ?w1)"
    by (simp add: pool_eval sim_eval NewSandboxID_def trim_prefix_def SandboxPrefix_def)
  have "ps_AddReadySandbox (redis_PoolStore sim_pool) background (SandboxID ''s'') ?w1 = (fst (?a ?w1), ?w2)"
    by simp
  from t_add [OF this] have 2: "pool_run (redis_PoolStore sim_pool) ?w1 [TAddReady (SandboxID ''s'')] ?w2"
    by (intro pr_step [OF _ pr_nil]) (simp add: plain_ids_eval)
  have 3: "?g ?w2 = (Inr (SandboxID ''s''), snd (?g ?w2))"
    by (simp add: pool_eval sim_eval NewSandboxID_def trim_prefix_def SandboxPrefix_def)
  have "TAddReady (SandboxID ''s'') \<in> set [TAddReady (SandboxID ''s'')]"
    using pool_handed_out_once [where db = w_db and clk = w_clk, OF _ inv 1 2 3] sim.redis_server_axioms
    by simp
  with 1 2 3 show ?thesis by blast
qed

text \<open>
  The counts count. After an addition to the ready queue the count is the number of
  different sandboxes in it: one more than before unless the sandbox was there already, in
  which case the addition only refreshes its position. Additions to the pending queue do
  not change it.
\<close>

lemma pool_counts:
  assumes "redis_server (rp_client r) db clk" and "pool_inv r (db w)"
    and "AddReadySandbox r c s w = (None, w1)" and "AddPendingSandbox r c s' w1 = (e, w2)"
    and "CountReadySandboxes r c w2 = (Inr n, w3)"
  shows "n = int (length (ready_queue r (db w))) +
    (if sid s \<in> members (ready_queue r (db w)) then 0 else 1)"
proof -
  note P = redis_pool_contract [OF assms(1)]
  let ?Z = "ready_queue r (db w)"
  have r1: "ready_queue r (db w1) = zadd (unix_now (rp_runtime r) w) (sid s) ?Z" and i1: "pool_inv r (db w1)"
    using pool_contract.add_ready [OF P assms(2), of c s None w1] assms(3) by simp_all
  have r2: "ready_queue r (db w2) = ready_queue r (db w1)" and i2: "pool_inv r (db w2)"
    using pool_contract.add_pending [OF P i1, of c s' e w2] assms(4) by simp_all
  have "n = int (length (ready_queue r (db w2)))"
    using pool_contract.count_ready [OF P i2, of c "Inr n" w3] assms(5) by simp
  moreover have "distinct (map snd ?Z)" using assms(2) by (simp add: pool_inv_def zset_wf_def)
  ultimately show ?thesis
    using length_zdel [of ?Z "sid s"] zdel_absent [of "sid s" ?Z] r1 r2
    by (cases "sid s \<in> snd ` set ?Z") (simp_all add: length_zadd members_def)
qed

end
