(* ===== verification/Idempotence.thy ===== *)
theory Idempotence
  imports Project_Store
begin

text \<open>
  Idempotence keys: \<open>scheduler/internal/persistence/idempotence.go\<close> (the claim a caller
  holds) and \<open>idempotence_impl.go\<close> (the protocol over Redis).
\<close>

section \<open>Claims\<close>

text \<open>\<open>idempotenceSink\<close>: what a claim needs of its store.\<close>

record 'w idem_sink =
  snk_Complete :: "ctx \<Rightarrow> string \<Rightarrow> sandbox_id \<Rightarrow> ('w, err option) op"
  snk_Drop :: "ctx \<Rightarrow> string \<Rightarrow> ('w, err option) op"

record 'w claim_result =
  Claimed :: bool
  cr_SandboxID :: sandbox_id
  cr_Err :: "err option"
  cr_store :: "'w idem_sink option"
  cr_key :: string
  completed :: bool

definition HasExistingSandbox :: "'w claim_result \<Rightarrow> bool" where
  "HasExistingSandbox r \<longleftrightarrow> cr_SandboxID r \<noteq> SandboxID ''''"

definition ShouldCreateSandbox :: "'w claim_result \<Rightarrow> bool" where
  "ShouldCreateSandbox r \<longleftrightarrow> Claimed r \<or> (cr_SandboxID r = SandboxID '''' \<and> cr_Err r \<noteq> None)"

definition IsTimeout :: "'w claim_result \<Rightarrow> bool" where
  "IsTimeout r \<longleftrightarrow>
     (case cr_Err r of
        None \<Rightarrow> False
      | Some e \<Rightarrow> errors_is e DeadlineExceeded \<or> errors_is e Canceled)"

definition HasError :: "'w claim_result \<Rightarrow> bool" where
  "HasError r \<longleftrightarrow> cr_Err r \<noteq> None"

definition claim_Error :: "'w claim_result \<Rightarrow> string" where
  "claim_Error r = (case cr_Err r of None \<Rightarrow> '''' | Some e \<Rightarrow> error_text e)"

text \<open>\<open>Complete\<close> and \<open>Drop\<close> have a pointer receiver: they return the claim as they leave it.\<close>

definition Complete ::
  "'w claim_result \<Rightarrow> ctx \<Rightarrow> sandbox_id \<Rightarrow> ('w, err option \<times> 'w claim_result) op" where
  "Complete r c s w =
     (if completed r then ((Some (ErrText ''already completed''), r), w)
      else if \<not> Claimed r then ((None, r), w)
      else case cr_store r of
        None \<Rightarrow> ((Some (ErrText ''store reference is missing''), r), w)
      | Some st \<Rightarrow>
          (case snk_Complete st c (cr_key r) s w of
             (Some e, w1) \<Rightarrow> ((Some e, r), w1)
           | (None, w1) \<Rightarrow> ((None, r\<lparr>completed := True\<rparr>), w1)))"

definition Drop :: "'w claim_result \<Rightarrow> ctx \<Rightarrow> ('w, err option) op" where
  "Drop r c w =
     (if completed r then (None, w)
      else if \<not> Claimed r then (None, w)
      else case cr_store r of
        None \<Rightarrow> (Some (ErrText ''store reference is missing''), w)
      | Some st \<Rightarrow> snk_Drop st c (cr_key r) w)"

text \<open>
  The interface \<open>IdempotenceStore\<close>; \<open>None\<close> means still waiting after the last of the
  given wake-ups.
\<close>

record 'w idempotence_store =
  is_ClaimOrWait :: "'w wake list \<Rightarrow> ctx \<Rightarrow> string \<Rightarrow> ('w, 'w claim_result option) op"

section \<open>The Redis implementation\<close>

record 'w redisIdem =
  ri_client :: "'w redis"
  ri_keyPrefix :: string
  ri_runtime :: "'w runtime"

definition NewIdempotenceStore ::
  "'w runtime \<Rightarrow> 'w redis option \<Rightarrow> string \<Rightarrow> err + 'w redisIdem" where
  "NewIdempotenceStore rt cl pfx =
     (case cl of
        None \<Rightarrow> Inl (ErrText ''redis client is required'')
      | Some c \<Rightarrow> Inr \<lparr>ri_client = c,
                       ri_keyPrefix = (if pfx = '''' then defaultKeyPrefix else pfx),
                       ri_runtime = rt\<rparr>)"

definition formKey :: "'w redisIdem \<Rightarrow> string \<Rightarrow> string" where
  "formKey r k = ri_keyPrefix r @ ''idem:'' @ k"

definition formPendingKey :: "'w redisIdem \<Rightarrow> string \<Rightarrow> string" where
  "formPendingKey r k = ri_keyPrefix r @ ''pending:'' @ k"

definition formSandboxIdempotenceKey :: "'w redisIdem \<Rightarrow> sandbox_id \<Rightarrow> string" where
  "formSandboxIdempotenceKey r s = ri_keyPrefix r @ ''sandbox-idempotence:'' @ sid s"

definition GetSandboxID :: "'w redisIdem \<Rightarrow> ctx \<Rightarrow> string \<Rightarrow> ('w, err + sandbox_id) op" where
  "GetSandboxID r c k w =
     (case rd_Get (ri_client r) c (formKey r k) w of
        (Inl e, w1) \<Rightarrow>
          (if e = RedisNil then (Inl ErrNotFound, w1)
           else (Inl (ErrWrap (''failed to get sandboxID for key '' @ k @ '': '') e), w1))
      | (Inr v, w1) \<Rightarrow>
          (case NewSandboxID v of
             Inl e \<Rightarrow> (Inl (ErrWrap (''failed to parse sandboxID for key '' @ k @ '': '') e), w1)
           | Inr s \<Rightarrow> (Inr s, w1)))"

definition MarkPendingCreation :: "'w redisIdem \<Rightarrow> ctx \<Rightarrow> string \<Rightarrow> ('w, err + bool) op" where
  "MarkPendingCreation r c k w =
     (case rd_SetNX (ri_client r) c (formPendingKey r k) ''1'' pendingKeyTTL w of
        (Inl e, w1) \<Rightarrow>
          (Inl (ErrWrap (''failed to mark pending creation for key '' @ k @ '': '') e), w1)
      | (Inr b, w1) \<Rightarrow> (Inr b, w1))"

definition complete_pipe :: "'w redisIdem \<Rightarrow> string \<Rightarrow> sandbox_id \<Rightarrow> pcmd list" where
  "complete_pipe r k s =
     [PSet (formKey r k) (sid s) idempotenceKeyTTL,
      PSet (formSandboxIdempotenceKey r s) k idempotenceKeyTTL,
      PDel (formPendingKey r k)]"

definition CompletePendingCreation ::
  "'w redisIdem \<Rightarrow> ctx \<Rightarrow> string \<Rightarrow> sandbox_id \<Rightarrow> ('w, err option) op" where
  "CompletePendingCreation r c k s w =
     (case rd_Exec (ri_client r) c True (complete_pipe r k s) w of
        ((Some e, _), w1) \<Rightarrow>
          (Some (ErrWrap (''failed to complete pending creation for key '' @ k @ '': '') e), w1)
      | ((None, _), w1) \<Rightarrow> (None, w1))"

definition DropPendingCreation :: "'w redisIdem \<Rightarrow> ctx \<Rightarrow> string \<Rightarrow> ('w, err option) op" where
  "DropPendingCreation r c k w =
     (case rd_Del (ri_client r) c (formPendingKey r k) w of
        (Inl e, w1) \<Rightarrow>
          (Some (ErrWrap (''failed to drop pending creation for key '' @ k @ '': '') e), w1)
      | (Inr deleted, w1) \<Rightarrow> (if deleted = 0 then (None, w1) else (None, w1)))"

definition redis_sink :: "'w redisIdem \<Rightarrow> 'w idem_sink" where
  "redis_sink r = \<lparr>snk_Complete = CompletePendingCreation r, snk_Drop = DropPendingCreation r\<rparr>"

text \<open>
  What the check of an idempotence key leads to, before and while polling: a sandbox is
  there, the check failed, or nothing is known yet.
\<close>

definition found_sandbox :: "err + sandbox_id \<Rightarrow> bool" where
  "found_sandbox x = (case x of Inl _ \<Rightarrow> False | Inr s \<Rightarrow> s \<noteq> SandboxID '''')"

definition check_failed :: "err + sandbox_id \<Rightarrow> err option" where
  "check_failed x = (case x of Inl e \<Rightarrow> if e \<noteq> ErrNotFound then Some e else None | Inr _ \<Rightarrow> None)"

fun await_loop :: "'w redisIdem \<Rightarrow> ctx \<Rightarrow> string \<Rightarrow> 'w wake list \<Rightarrow> ('w, (err + sandbox_id) option) op" where
  "await_loop r c k [] w = (None, w)"
| "await_loop r c k (wk # wks) w =
     (let w1 = wake_env wk w
      in case (ctx_err c (rt_now (ri_runtime r) w1), wake_tick wk) of
           (Some e, False) \<Rightarrow> (Some (Inl e), w1)
         | _ \<Rightarrow>
             (let (x, w2) = GetSandboxID r c k w1
              in if found_sandbox x then (Some x, w2)
                 else case check_failed x of
                   Some e \<Rightarrow> (Some (Inl (ErrWrap ''error checking idempotence key: '' e)), w2)
                 | None \<Rightarrow>
                     (case rd_Exists (ri_client r) c (formPendingKey r k) w2 of
                        (Inl e, w3) \<Rightarrow> (Some (Inl (ErrWrap ''error checking pending key: '' e)), w3)
                      | (Inr n, w3) \<Rightarrow>
                          (if n = 0 then (Some (Inl ErrConcurrentCreationFailed), w3)
                           else await_loop r c k wks w3))))"

definition awaitIdempotenceCompletion ::
  "'w redisIdem \<Rightarrow> 'w wake list \<Rightarrow> ctx \<Rightarrow> string \<Rightarrow> ('w, (err + sandbox_id) option) op" where
  "awaitIdempotenceCompletion r wks c k w =
     (let (x, w1) = GetSandboxID r c k w
      in if found_sandbox x then (Some x, w1)
         else case check_failed x of
           Some e \<Rightarrow> (Some (Inl (ErrWrap ''error checking idempotence key: '' e)), w1)
         | None \<Rightarrow> await_loop r c k wks w1)"

definition claim_of :: "'w redisIdem \<Rightarrow> string \<Rightarrow> 'w claim_result" where
  "claim_of r k =
     \<lparr>Claimed = False, cr_SandboxID = SandboxID '''', cr_Err = None,
      cr_store = Some (redis_sink r), cr_key = k, completed = False\<rparr>"

definition ClaimOrWait ::
  "'w redisIdem \<Rightarrow> 'w wake list \<Rightarrow> ctx \<Rightarrow> string \<Rightarrow> ('w, 'w claim_result option) op" where
  "ClaimOrWait r wks c k w =
     (case ctx_err c (rt_now (ri_runtime r) w) of
        Some e \<Rightarrow> (Some ((claim_of r k)\<lparr>cr_Err := Some (ErrWrap ''context error: '' e)\<rparr>), w)
      | None \<Rightarrow>
          (let (x, w1) = GetSandboxID r c k w
           in if found_sandbox x then
                (Some ((claim_of r k)\<lparr>cr_SandboxID := projr x\<rparr>), w1)
              else case check_failed x of
                Some e \<Rightarrow>
                  (Some ((claim_of r k)\<lparr>cr_Err :=
                     Some (ErrWrap ''error checking for existing sandbox: '' e)\<rparr>), w1)
              | None \<Rightarrow>
                  (case MarkPendingCreation r c k w1 of
                     (Inl e, w2) \<Rightarrow>
                       (Some ((claim_of r k)\<lparr>cr_Err :=
                          Some (ErrWrap ''error marking pending creation: '' e)\<rparr>), w2)
                   | (Inr True, w2) \<Rightarrow> (Some ((claim_of r k)\<lparr>Claimed := True\<rparr>), w2)
                   | (Inr False, w2) \<Rightarrow>
                       (case awaitIdempotenceCompletion r wks c k w2 of
                          (None, w3) \<Rightarrow> (None, w3)
                        | (Some (Inl e), w3) \<Rightarrow>
                            (Some ((claim_of r k)\<lparr>cr_Err :=
                               Some (ErrWrap ''error waiting for idempotence completion: '' e)\<rparr>), w3)
                        | (Some (Inr s), w3) \<Rightarrow>
                            (Some ((claim_of r k)\<lparr>cr_SandboxID := s\<rparr>), w3)))))"

definition redis_IdempotenceStore :: "'w redisIdem \<Rightarrow> 'w idempotence_store" where
  "redis_IdempotenceStore r = \<lparr>is_ClaimOrWait = ClaimOrWait r\<rparr>"

section \<open>What the keys mean\<close>

definition idem_done :: "'w redisIdem \<Rightarrow> int \<Rightarrow> redis_db \<Rightarrow> string \<Rightarrow> sandbox_id option" where
  "idem_done r t D k =
     (case lookup t D (formKey r k) of
        Some (RStr v) \<Rightarrow> (case NewSandboxID v of Inl _ \<Rightarrow> None | Inr s \<Rightarrow> Some s)
      | _ \<Rightarrow> None)"

definition idem_absent :: "'w redisIdem \<Rightarrow> int \<Rightarrow> redis_db \<Rightarrow> string \<Rightarrow> bool" where
  "idem_absent r t D k \<longleftrightarrow> lookup t D (formKey r k) = None"

definition idem_pending :: "'w redisIdem \<Rightarrow> int \<Rightarrow> redis_db \<Rightarrow> string \<Rightarrow> bool" where
  "idem_pending r t D k \<longleftrightarrow> lookup t D (formPendingKey r k) \<noteq> None"

lemmas idem_keys = formKey_def formPendingKey_def formSandboxIdempotenceKey_def
lemmas idem_views = idem_done_def idem_absent_def idem_pending_def

lemma idem_key_eqs [simp]:
  "formKey r k = formKey r k' \<longleftrightarrow> k = k'"
  "formPendingKey r k = formPendingKey r k' \<longleftrightarrow> k = k'"
  "formKey r k \<noteq> formPendingKey r k'"
  "formPendingKey r k' \<noteq> formKey r k"
  "formKey r k \<noteq> formSandboxIdempotenceKey r s"
  "formSandboxIdempotenceKey r s \<noteq> formKey r k"
  "formPendingKey r k \<noteq> formSandboxIdempotenceKey r s"
  "formSandboxIdempotenceKey r s \<noteq> formPendingKey r k"
  by (auto simp: idem_keys)

lemma idem_done_later: "idem_done r t' D k = Some s \<Longrightarrow> t \<le> t' \<Longrightarrow> idem_done r t D k = Some s"
  by (auto simp: idem_done_def split: option.splits rval.splits sum.splits dest: lookup_later)

lemma idem_pending_later: "idem_pending r t' D k \<Longrightarrow> t \<le> t' \<Longrightarrow> idem_pending r t D k"
  by (auto simp: idem_pending_def dest: lookup_later)

lemma idem_absent_later: "idem_absent r t D k \<Longrightarrow> t \<le> t' \<Longrightarrow> idem_absent r t' D k"
  by (cases "lookup t' D (formKey r k)") (auto simp: idem_absent_def dest: lookup_later)

section \<open>The shape of a claim\<close>

text \<open>A claim is exactly one of: held, an existing sandbox, an error.\<close>

definition claim_ok :: "'w claim_result \<Rightarrow> bool" where
  "claim_ok r \<longleftrightarrow> \<not> completed r \<and>
     ((Claimed r \<and> \<not> HasExistingSandbox r \<and> \<not> HasError r) \<or>
      (\<not> Claimed r \<and> HasExistingSandbox r \<and> \<not> HasError r) \<or>
      (\<not> Claimed r \<and> \<not> HasExistingSandbox r \<and> HasError r))"

lemma found_sandbox_projr: "found_sandbox x \<Longrightarrow> x = Inr (projr x) \<and> projr x \<noteq> SandboxID ''''"
  by (auto simp: found_sandbox_def split: sum.splits)

lemma GetSandboxID_valid: "GetSandboxID r c k w = (Inr s, w') \<Longrightarrow> s \<noteq> SandboxID ''''"
  by (auto simp: GetSandboxID_def sandbox_IsValid_def split: prod.splits sum.splits if_splits
      dest!: NewSandboxID_valid)

lemma await_loop_found:
  "await_loop r c k wks w = (Some (Inr s), w') \<Longrightarrow> s \<noteq> SandboxID ''''"
  by (induction wks arbitrary: w)
     (auto simp: Let_def found_sandbox_def
       split: prod.splits option.splits bool.splits sum.splits if_splits)

lemma await_found:
  "awaitIdempotenceCompletion r wks c k w = (Some (Inr s), w') \<Longrightarrow> s \<noteq> SandboxID ''''"
  by (auto simp: awaitIdempotenceCompletion_def found_sandbox_def await_loop_found
      split: prod.splits option.splits sum.splits if_splits)

lemma claim_of_simps [simp]:
  "Claimed (claim_of r k) = False" "cr_SandboxID (claim_of r k) = SandboxID ''''"
  "cr_Err (claim_of r k) = None" "cr_store (claim_of r k) = Some (redis_sink r)"
  "cr_key (claim_of r k) = k" "completed (claim_of r k) = False"
  by (simp_all add: claim_of_def)

lemmas claim_predicates = HasExistingSandbox_def HasError_def ShouldCreateSandbox_def

lemma ClaimOrWait_ok:
  "ClaimOrWait r wks c k w = (Some cr, w') \<Longrightarrow>
     claim_ok cr \<and> cr_store cr = Some (redis_sink r) \<and> cr_key cr = k"
  unfolding ClaimOrWait_def Let_def claim_ok_def
  by (auto simp: claim_predicates dest: found_sandbox_projr await_found
      split: option.splits prod.splits sum.splits bool.splits if_splits)

lemma ClaimOrWait_waiting:
  "ClaimOrWait r wks c k w = (None, w') \<Longrightarrow>
     \<exists>w2. awaitIdempotenceCompletion r wks c k w2 = (None, w')"
  unfolding ClaimOrWait_def Let_def
  by (auto split: option.splits prod.splits sum.splits bool.splits if_splits)

section \<open>The contract of the idempotence store\<close>

text \<open>
  \<open>recd t w k\<close>: the sandbox recorded for key \<open>k\<close> as it stands at instant \<open>t\<close>;
  \<open>pend t w k\<close>: somebody holds the claim of \<open>k\<close>.
\<close>

locale idempotence =
  fixes I :: "'w idempotence_store" and clk :: "'w \<Rightarrow> int"
    and recd :: "int \<Rightarrow> 'w \<Rightarrow> string \<Rightarrow> sandbox_id option"
    and pend :: "int \<Rightarrow> 'w \<Rightarrow> string \<Rightarrow> bool"
  assumes claim_shape: "is_ClaimOrWait I wks c k w = (Some r, w') \<Longrightarrow> claim_ok r \<and> cr_key r = k"
    and claim_reuses: "is_ClaimOrWait I wks c k w = (ro, w') \<Longrightarrow> clock_wakes clk wks \<Longrightarrow>
      recd (clk w') w k = Some s \<Longrightarrow>
      (\<exists>r. ro = Some r \<and> \<not> Claimed r \<and> (cr_SandboxID r = s \<or> HasError r)) \<and>
      (\<forall>t k. recd t w' k = recd t w k \<and> pend t w' k = pend t w k)"
    and claim_excludes: "is_ClaimOrWait I wks c k w = (Some r, w') \<Longrightarrow> pend (clk w') w k \<Longrightarrow>
      \<not> Claimed r"
    and claim_holds: "is_ClaimOrWait I wks c k w = (Some r, w') \<Longrightarrow> Claimed r \<Longrightarrow>
      t < clk w' + pendingKeyTTL \<Longrightarrow> pend t w' k"
    and complete_records: "is_ClaimOrWait I wks c k w = (Some r, w') \<Longrightarrow> Claimed r \<Longrightarrow>
      Complete r c' s w1 = ((None, r'), w2) \<Longrightarrow> plain_sandbox s \<Longrightarrow>
      t < clk w2 + idempotenceKeyTTL \<Longrightarrow> recd t w2 k = Some s \<and> \<not> pend t w2 k \<and> completed r'"
    and drop_frees: "is_ClaimOrWait I wks c k w = (Some r, w') \<Longrightarrow> Claimed r \<Longrightarrow>
      Drop r c' w1 = (None, w2) \<Longrightarrow> \<not> pend t w2 k \<and> recd t w2 = recd t w1"
    and recd_later: "recd t' w k = Some s \<Longrightarrow> t \<le> t' \<Longrightarrow> recd t w k = Some s"
begin

text \<open>While a claim is held nobody else gets it.\<close>

lemma claim_exclusive:
  assumes "is_ClaimOrWait I wks c k w = (Some r, w1)" and "Claimed r"
    and "is_ClaimOrWait I wks' c' k w1 = (Some r', w2)" and "clk w2 < clk w1 + pendingKeyTTL"
  shows "\<not> Claimed r'"
  using claim_excludes [OF assms(3)] claim_holds [OF assms(1,2,4)] by blast

text \<open>Once completed, the key answers with its sandbox.\<close>

lemma completed_reused:
  assumes "is_ClaimOrWait I wks c k w = (Some r, w1)" and "Claimed r"
    and "Complete r c1 s w2 = ((None, r'), w3)" and "plain_sandbox s"
    and "is_ClaimOrWait I wks' c' k w3 = (ro, w4)" and "clock_wakes clk wks'"
    and "clk w4 < clk w3 + idempotenceKeyTTL"
  shows "\<exists>q. ro = Some q \<and> \<not> Claimed q \<and> (cr_SandboxID q = s \<or> HasError q)"
  using claim_reuses [OF assms(5,6)] complete_records [OF assms(1-4,7)] by blast

end

section \<open>The Redis protocol keeps the contract\<close>

locale redis_idem = redis_server "ri_client r" db clk
  for r :: "'w redisIdem" and db :: "'w \<Rightarrow> redis_db" and clk :: "'w \<Rightarrow> int"
begin

lemma GetSandboxID_db: "GetSandboxID r c k w = (x, w') \<Longrightarrow> db w' = db w \<and> clk w \<le> clk w'"
  by (auto simp: GetSandboxID_def split: prod.splits sum.splits if_splits dest: Get_db redis_moves)

lemma GetSandboxID_Inr: "GetSandboxID r c k w = (Inr s, w') \<Longrightarrow> idem_done r (clk w') (db w) k = Some s"
  by (auto simp: GetSandboxID_def idem_done_def split: prod.splits sum.splits if_splits dest!: Get_ok)

lemma GetSandboxID_missing:
  "GetSandboxID r c k w = (Inl ErrNotFound, w') \<Longrightarrow> idem_absent r (clk w') (db w) k"
  by (auto simp: GetSandboxID_def idem_absent_def split: prod.splits sum.splits if_splits dest!: Get_nil)

lemma MarkPendingCreation_Inr:
  "MarkPendingCreation r c k w = (Inr b, w') \<Longrightarrow> clk w \<le> clk w' \<and>
     b = (\<not> idem_pending r (clk w') (db w) k) \<and>
     db w' = (if b then put (formPendingKey r k) (RStr ''1'') (Some (clk w' + pendingKeyTTL)) (db w)
              else db w)"
  by (cases b) (auto simp: MarkPendingCreation_def idem_pending_def split: prod.splits sum.splits
      dest: SetNX_set SetNX_kept redis_moves)

lemma CompletePendingCreation_None:
  "CompletePendingCreation r c k s w = (None, w') \<Longrightarrow>
     clk w \<le> clk w' \<and> db w' = run_pcmds (clk w') (complete_pipe r k s) (db w)"
  by (auto simp: CompletePendingCreation_def simp del: run_pcmds_Cons run_pcmds_Nil
      split: prod.splits option.splits dest: Exec_ok redis_moves)

lemma DropPendingCreation_None:
  "DropPendingCreation r c k w = (None, w') \<Longrightarrow> clk w \<le> clk w' \<and> db w' = del (formPendingKey r k) (db w)"
  by (auto simp: DropPendingCreation_def split: prod.splits sum.splits if_splits
      dest: Del_ok redis_moves)

lemma MarkPendingCreation_clock: "MarkPendingCreation r c k w = (x, w') \<Longrightarrow> clk w \<le> clk w'"
  by (auto simp: MarkPendingCreation_def split: prod.splits sum.splits dest: redis_moves)

lemma Exists_clock: "rd_Exists (ri_client r) c k w = (x, w') \<Longrightarrow> clk w \<le> clk w'"
  by (rule redis_moves)

lemma await_loop_clock:
  "await_loop r c k wks w = (x, w') \<Longrightarrow> clock_wakes clk wks \<Longrightarrow> clk w \<le> clk w'"
proof (induction wks arbitrary: w)
  case Nil
  then show ?case by simp
next
  case (Cons wk wks)
  let ?w1 = "wake_env wk w"
  have w1: "clk w \<le> clk ?w1" using Cons.prems(2) by simp
  obtain y w2 where g: "GetSandboxID r c k ?w1 = (y, w2)" by fastforce
  obtain n w3 where e: "rd_Exists (ri_client r) c (formPendingKey r k) w2 = (n, w3)" by fastforce
  have le: "clk w \<le> clk w2" "clk w \<le> clk w3"
    using w1 GetSandboxID_db [OF g] Exists_clock [OF e] by linarith+
  have rest: "await_loop r c k wks w3 = (x, w') \<Longrightarrow> clk w \<le> clk w'"
    using Cons.IH [of w3] Cons.prems(2) le by simp
  show ?case
    using Cons.prems(1) w1 le rest
    by (auto simp: g e Let_def split: option.splits bool.splits sum.splits if_splits)
qed

lemma await_clock:
  assumes "awaitIdempotenceCompletion r wks c k w = (x, w')" and "clock_wakes clk wks"
  shows "clk w \<le> clk w'"
proof -
  obtain y w1 where g: "GetSandboxID r c k w = (y, w1)" by fastforce
  have "clk w \<le> clk w1" using GetSandboxID_db [OF g] by simp
  then show ?thesis
    using assms await_loop_clock [of c k wks w1 x w']
    by (auto simp: awaitIdempotenceCompletion_def g split: option.splits if_splits)
qed

lemma GetSandboxID_undecided:
  assumes "GetSandboxID r c k w = (x, w1)" and "\<not> found_sandbox x" and "check_failed x = None"
  shows "x = Inl ErrNotFound"
  using assms GetSandboxID_valid [of r c k w]
  by (auto simp: found_sandbox_def check_failed_def split: sum.splits if_splits)

text \<open>How a call that finds nothing goes on: it tries to take the claim, or waits.\<close>

lemma ClaimOrWait_undecided_clock:
  assumes "ClaimOrWait r wks c k w = (ro, w')" and "clock_wakes clk wks"
    and "ctx_err c (rt_now (ri_runtime r) w) = None"
    and "GetSandboxID r c k w = (Inl ErrNotFound, w1)"
  shows "clk w1 \<le> clk w'"
proof -
  obtain m w2 where m: "MarkPendingCreation r c k w1 = (m, w2)" by fastforce
  have le: "clk w1 \<le> clk w2" using MarkPendingCreation_clock [OF m] .
  obtain y w3 where a: "awaitIdempotenceCompletion r wks c k w2 = (y, w3)" by fastforce
  have "clk w1 \<le> clk w3" using await_clock [OF a assms(2)] le by simp
  then show ?thesis
    using assms(1,3,4) le
    by (auto simp: ClaimOrWait_def m a found_sandbox_def check_failed_def
        split: sum.splits bool.splits option.splits)
qed

lemma ClaimOrWait_reuses:
  assumes "ClaimOrWait r wks c k w = (ro, w')" and "clock_wakes clk wks"
    and "idem_done r (clk w') (db w) k = Some s"
  shows "(\<exists>q. ro = Some q \<and> \<not> Claimed q \<and> (cr_SandboxID q = s \<or> HasError q)) \<and> db w' = db w"
proof (cases "ctx_err c (rt_now (ri_runtime r) w)")
  case (Some e)
  then show ?thesis using assms by (auto simp: ClaimOrWait_def HasError_def)
next
  case None
  obtain x w1 where g: "GetSandboxID r c k w = (x, w1)" by fastforce
  have db1: "db w1 = db w" using GetSandboxID_db [OF g] by simp
  have "x \<noteq> Inl ErrNotFound"
  proof
    assume x: "x = Inl ErrNotFound"
    have "clk w1 \<le> clk w'"
      using ClaimOrWait_undecided_clock [OF assms(1,2) None] g x by simp
    then have "idem_absent r (clk w') (db w) k"
      using GetSandboxID_missing g x idem_absent_later by blast
    then show False using assms(3) by (simp add: idem_absent_def idem_done_def)
  qed
  then have dec: "found_sandbox x \<or> check_failed x \<noteq> None"
    using GetSandboxID_undecided [OF g] by blast
  then have w': "w' = w1" using assms(1) None g by (auto simp: ClaimOrWait_def split: option.splits if_splits)
  show ?thesis
  proof (cases "found_sandbox x")
    case True
    then obtain s' where x: "x = Inr s'" by (auto simp: found_sandbox_def split: sum.splits)
    have "s' = s" using GetSandboxID_Inr g x assms(3) w' by fastforce
    then show ?thesis using assms(1) None g True x db1 by (auto simp: ClaimOrWait_def)
  next
    case False
    then show ?thesis using assms(1) None g dec db1
      by (auto simp: ClaimOrWait_def HasError_def)
  qed
qed

text \<open>Which of the two it is: an error exactly when the context is done or the \<open>GET\<close> of the record fails.\<close>

lemma GetSandboxID_reads:
  assumes "GetSandboxID r c k w = (x, w')" and "idem_done r (clk w') (db w) k = Some s"
  shows "if \<exists>e. fst (rd_Get (ri_client r) c (formKey r k) w) = Inl e
    then \<not> found_sandbox x \<and> check_failed x \<noteq> None else x = Inr s"
proof -
  obtain y v where g: "rd_Get (ri_client r) c (formKey r k) w = (y, v)" by fastforce
  have v: "v = w'" using assms(1) g by (auto simp: GetSandboxID_def split: sum.splits if_splits)
  show ?thesis
  proof (cases y)
    case (Inl e)
    then have "e \<noteq> RedisNil" using Get_nil [of c "formKey r k" w v] g v assms(2) by (auto simp: idem_done_def)
    then show ?thesis using assms(1) g Inl
      by (auto simp: GetSandboxID_def found_sandbox_def check_failed_def)
  next
    case (Inr t)
    then have "lookup (clk w') (db w) (formKey r k) = Some (RStr t)" using Get_ok g v by simp
    then have "NewSandboxID t = Inr s" using assms(2) by (auto simp: idem_done_def split: sum.splits)
    then show ?thesis using assms(1) g Inr by (auto simp: GetSandboxID_def)
  qed
qed

lemma ClaimOrWait_reads:
  assumes "ClaimOrWait r wks c k w = (ro, w')" and "clock_wakes clk wks"
    and "idem_done r (clk w') (db w) k = Some s"
  shows "\<exists>q. ro = Some q \<and> (if ctx_err c (rt_now (ri_runtime r) w) \<noteq> None \<or>
      (\<exists>e. fst (rd_Get (ri_client r) c (formKey r k) w) = Inl e)
    then \<not> HasExistingSandbox q \<and> HasError q else cr_SandboxID q = s \<and> \<not> HasError q)"
proof (cases "ctx_err c (rt_now (ri_runtime r) w)")
  case (Some e)
  then show ?thesis using assms(1) by (auto simp: ClaimOrWait_def claim_predicates)
next
  case None
  obtain x w1 where g: "GetSandboxID r c k w = (x, w1)" by fastforce
  have "x \<noteq> Inl ErrNotFound"
  proof
    assume x: "x = Inl ErrNotFound"
    then have "clk w1 \<le> clk w'" using ClaimOrWait_undecided_clock [OF assms(1,2) None] g by simp
    then have "idem_absent r (clk w') (db w) k"
      using GetSandboxID_missing g x idem_absent_later by blast
    then show False using assms(3) by (simp add: idem_absent_def idem_done_def)
  qed
  then have dec: "found_sandbox x \<or> check_failed x \<noteq> None" using GetSandboxID_undecided [OF g] by blast
  then have "w' = w1" using assms(1) None g by (auto simp: ClaimOrWait_def split: option.splits if_splits)
  then have r: "if \<exists>e. fst (rd_Get (ri_client r) c (formKey r k) w) = Inl e
      then \<not> found_sandbox x \<and> check_failed x \<noteq> None else x = Inr s"
    using GetSandboxID_reads [OF g] assms(3) by simp
  show ?thesis
  proof (cases "found_sandbox x")
    case True
    then show ?thesis using r assms(1) None g by (auto simp: ClaimOrWait_def HasError_def split: if_splits)
  next
    case False
    then show ?thesis using r dec assms(1) None g
      by (auto simp: ClaimOrWait_def claim_predicates found_sandbox_def check_failed_def split: if_splits)
  qed
qed

lemma ClaimOrWait_claimed:
  assumes "ClaimOrWait r wks c k w = (Some q, w')" and "Claimed q"
  shows "q = (claim_of r k)\<lparr>Claimed := True\<rparr> \<and> \<not> idem_pending r (clk w') (db w) k \<and>
    db w' = put (formPendingKey r k) (RStr ''1'') (Some (clk w' + pendingKeyTTL)) (db w)"
proof -
  obtain x w1 where g: "GetSandboxID r c k w = (x, w1)" by fastforce
  have "MarkPendingCreation r c k w1 = (Inr True, w')" and q: "q = (claim_of r k)\<lparr>Claimed := True\<rparr>"
    using assms by (auto simp: ClaimOrWait_def g split: option.splits if_splits sum.splits
        prod.splits bool.splits)
  then show ?thesis using MarkPendingCreation_Inr GetSandboxID_db [OF g] by fastforce
qed

end

sublocale redis_idem \<subseteq> idm: idempotence "redis_IdempotenceStore r" clk
  "\<lambda>t w. idem_done r t (db w)" "\<lambda>t w. idem_pending r t (db w)"
proof (unfold_locales, goal_cases)
  case (1 wks c k w q w')
  then show ?case by (simp add: redis_IdempotenceStore_def ClaimOrWait_ok)
next
  case (2 wks c k w ro w' s)
  then show ?case using ClaimOrWait_reuses [of wks c k w ro w' s]
    by (simp add: redis_IdempotenceStore_def)
next
  case (3 wks c k w q w')
  then show ?case using ClaimOrWait_claimed [of wks c k w q w']
    by (auto simp: redis_IdempotenceStore_def)
next
  case (4 wks c k w q w' t)
  then show ?case using ClaimOrWait_claimed [of wks c k w q w']
    by (auto simp: redis_IdempotenceStore_def idem_pending_def)
next
  case (5 wks c k w q w' c' s w1 q' w2 t)
  then have q: "q = (claim_of r k)\<lparr>Claimed := True\<rparr>"
    using ClaimOrWait_claimed [of wks c k w q w'] by (simp add: redis_IdempotenceStore_def)
  then have "CompletePendingCreation r c' k s w1 = (None, w2)" and "completed q'"
    using 5 by (auto simp: Complete_def redis_sink_def split: prod.splits option.splits)
  then show ?case
    using CompletePendingCreation_None [of c' k s w1 w2] 5
    by (auto simp: complete_pipe_def idem_done_def idem_pending_def)
next
  case (6 wks c k w q w' c' w1 w2 t)
  then have "q = (claim_of r k)\<lparr>Claimed := True\<rparr>"
    using ClaimOrWait_claimed [of wks c k w q w'] by (simp add: redis_IdempotenceStore_def)
  then have "DropPendingCreation r c' k w1 = (None, w2)"
    using 6 by (auto simp: Drop_def redis_sink_def)
  then show ?case
    using DropPendingCreation_None [of c' k w1 w2]
    by (auto simp: idem_done_def idem_pending_def fun_eq_iff)
next
  case (7 t' w k s t)
  then show ?case by (rule idem_done_later)
qed

context redis_idem
begin

lemma contract:
  "idempotence (redis_IdempotenceStore r) clk
     (\<lambda>t w. idem_done r t (db w)) (\<lambda>t w. idem_pending r t (db w))"
  by (rule idm.idempotence_axioms)

text \<open>A check under a context that is done ends the wait.\<close>

lemma GetSandboxID_ctx_done:
  assumes "GetSandboxID r c k w = (x, w')" and "ctx_err c (clk w) \<noteq> None"
  shows "\<not> found_sandbox x \<and> check_failed x \<noteq> None"
  using assms
  by (auto simp: GetSandboxID_def found_sandbox_def check_failed_def
      split: prod.splits sum.splits if_splits dest!: Get_done)

lemma await_loop_returns:
  assumes "rt_now (ri_runtime r) = clk" and "deadline c = Some D"
  shows "wks \<noteq> [] \<Longrightarrow> ticks_from d clk c t wks \<Longrightarrow> D \<le> t + int (length wks) * d \<Longrightarrow>
    fst (await_loop r c k wks w) \<noteq> None"
proof (induction wks arbitrary: t w)
  case Nil
  then show ?case by simp
next
  case (Cons wk wks)
  let ?w1 = "wake_env wk w"
  obtain x w2 where g: "GetSandboxID r c k ?w1 = (x, w2)" by fastforce
  show ?case
  proof (cases "ctx_err c (clk ?w1)")
    case (Some e)
    then have "\<not> found_sandbox x \<and> check_failed x \<noteq> None"
      using GetSandboxID_ctx_done [OF g] by simp
    then show ?thesis using Some g assms(1) by (auto simp: Let_def split: bool.splits)
  next
    case None
    then have "t + d \<le> clk ?w1" using Cons.prems(2) by (metis ticks_from.simps(2))
    moreover have "\<not> D \<le> clk ?w1" using None ctx_err_deadline [OF assms(2)] by blast
    ultimately have "wks \<noteq> []" using Cons.prems(3) by auto
    then have "fst (await_loop r c k wks v) \<noteq> None" for v
      using Cons.IH [of "t + d" v] Cons.prems(2,3) by (simp add: algebra_simps)
    then show ?thesis using None g assms(1)
      by (auto simp: Let_def split: prod.splits option.splits sum.splits)
  qed
qed

lemma ClaimOrWait_returns:
  assumes "rt_now (ri_runtime r) = clk" and "deadline c = Some D"
    and "wks \<noteq> []" and "ticks_from d clk c t wks" and "D \<le> t + int (length wks) * d"
  shows "fst (ClaimOrWait r wks c k w) \<noteq> None"
proof -
  have "fst (awaitIdempotenceCompletion r wks c k v) \<noteq> None" for v
    using await_loop_returns [OF assms, of k]
    by (auto simp: awaitIdempotenceCompletion_def Let_def split: prod.splits option.splits)
  then show ?thesis
    using ClaimOrWait_waiting [of r wks c k w] by (metis fst_conv prod.exhaust_sel)
qed

text \<open>A claim taken with \<open>SETNX\<close> although the key was completed after the check.\<close>

lemma MarkPendingCreation_after_complete:
  assumes "CompletePendingCreation r c' k s w1 = (None, w2)" and "plain_sandbox s"
    and "MarkPendingCreation r c k w2 = (Inr b, w3)"
    and "t < clk w2 + idempotenceKeyTTL"
  shows "b \<and> idem_done r t (db w3) k = Some s"
  using CompletePendingCreation_None [OF assms(1)] MarkPendingCreation_Inr [OF assms(3)] assms(2,4)
  by (auto simp: complete_pipe_def idem_done_def idem_pending_def)

end

section \<open>The protocol on the simulated server\<close>

definition sim_idem :: "world redisIdem" where
  "sim_idem = \<lparr>ri_client = sim_redis, ri_keyPrefix = defaultKeyPrefix, ri_runtime = sim_runtime\<rparr>"

lemma sim_idem_simps [simp]: "ri_client sim_idem = sim_redis" "ri_runtime sim_idem = sim_runtime"
  by (simp_all add: sim_idem_def)

interpretation sim_id: redis_idem sim_idem w_db w_clk
  by (unfold_locales)
     (simp_all add: sim_idem_def sim.redis_server_axioms [unfolded redis_server_def])

lemma redis_idem_contract:
  "redis_server (ri_client r) db clk \<Longrightarrow> idempotence (redis_IdempotenceStore r) clk
     (\<lambda>t w. idem_done r t (db w)) (\<lambda>t w. idem_pending r t (db w))"
  by (rule redis_idem.contract) (simp add: redis_idem_def)

section \<open>Interleaved callers\<close>

text \<open>
  The protocol as a transition system: each step is one call of the protocol by some
  caller, with its outcome, or the passage of time. Callers interleave freely.
\<close>

datatype idem_label =
    LGet string "err + sandbox_id"
  | LMark string "err + bool"
  | LPendingCheck string "err + int"
  | LComplete string sandbox_id "err option"
  | LDrop string "err option"
  | LTime

inductive idem_step ::
  "'w redisIdem \<Rightarrow> ('w \<Rightarrow> redis_db) \<Rightarrow> ('w \<Rightarrow> int) \<Rightarrow> 'w \<Rightarrow> idem_label \<Rightarrow> 'w \<Rightarrow> bool"
  for r db clk where
  step_get: "GetSandboxID r c k w = (x, w') \<Longrightarrow> idem_step r db clk w (LGet k x) w'"
| step_mark: "MarkPendingCreation r c k w = (b, w') \<Longrightarrow> idem_step r db clk w (LMark k b) w'"
| step_check: "rd_Exists (ri_client r) c (formPendingKey r k) w = (n, w') \<Longrightarrow>
    idem_step r db clk w (LPendingCheck k n) w'"
| step_complete: "CompletePendingCreation r c k s w = (e, w') \<Longrightarrow> idem_step r db clk w (LComplete k s e) w'"
| step_drop: "DropPendingCreation r c k w = (e, w') \<Longrightarrow> idem_step r db clk w (LDrop k e) w'"
| step_time: "db w' = db w \<Longrightarrow> clk w \<le> clk w' \<Longrightarrow> idem_step r db clk w LTime w'"

inductive_cases idem_step_cases: "idem_step r db clk w l w'"
inductive_cases idem_mark_case: "idem_step r db clk w (LMark k b) w'"
inductive_cases idem_get_case: "idem_step r db clk w (LGet k x) w'"
inductive_cases idem_complete_case: "idem_step r db clk w (LComplete k s e) w'"

inductive idem_run ::
  "'w redisIdem \<Rightarrow> ('w \<Rightarrow> redis_db) \<Rightarrow> ('w \<Rightarrow> int) \<Rightarrow> 'w \<Rightarrow> idem_label list \<Rightarrow> 'w \<Rightarrow> bool"
  for r db clk where
  run_nil: "idem_run r db clk w [] w"
| run_step: "idem_step r db clk w l w1 \<Longrightarrow> idem_run r db clk w1 ls w' \<Longrightarrow> idem_run r db clk w (l # ls) w'"

inductive_cases idem_run_Nil: "idem_run r db clk w [] w'"
inductive_cases idem_run_Cons: "idem_run r db clk w (l # ls) w'"

lemma idem_run_append:
  "idem_run r db clk w ls w1 \<Longrightarrow> idem_run r db clk w1 ls' w2 \<Longrightarrow> idem_run r db clk w (ls @ ls') w2"
  by (induction rule: idem_run.induct) (auto intro: idem_run.intros)

lemma idem_run_snoc:
  "idem_run r db clk w ls w1 \<Longrightarrow> idem_step r db clk w1 l w2 \<Longrightarrow> idem_run r db clk w (ls @ [l]) w2"
  using idem_run_append [of r db clk w ls w1 "[l]" w2] by (auto intro: idem_run.intros)

lemma idem_run_split:
  "idem_run r db clk w (ls @ ls') w2 \<Longrightarrow> \<exists>w1. idem_run r db clk w ls w1 \<and> idem_run r db clk w1 ls' w2"
proof (induction ls arbitrary: w)
  case Nil
  then show ?case by (auto intro: idem_run.intros elim: idem_run_Nil)
next
  case (Cons l ls)
  then obtain v where v: "idem_step r db clk w l v" "idem_run r db clk v (ls @ ls') w2"
    by (auto elim: idem_run_Cons)
  then show ?case using Cons.IH [OF v(2)] by (auto intro: idem_run.intros)
qed

text \<open>The labels after which a claim of \<open>k\<close> may be gone, and those that may record a sandbox.\<close>

definition ends_claim :: "string \<Rightarrow> idem_label \<Rightarrow> bool" where
  "ends_claim k l = (case l of LComplete k' s e \<Rightarrow> k' = k | LDrop k' e \<Rightarrow> k' = k | _ \<Rightarrow> False)"

definition records :: "string \<Rightarrow> idem_label \<Rightarrow> bool" where
  "records k l = (case l of LComplete k' s e \<Rightarrow> k' = k | _ \<Rightarrow> False)"

context redis_idem
begin

lemma MarkPendingCreation_db:
  "MarkPendingCreation r c k w = (b, w') \<Longrightarrow> db w' = db w \<or>
     (lookup (clk w') (db w) (formPendingKey r k) = None \<and>
      db w' = put (formPendingKey r k) (RStr ''1'') (Some (clk w' + pendingKeyTTL)) (db w))"
proof (cases b)
  case (Inl e)
  then show "MarkPendingCreation r c k w = (b, w') \<Longrightarrow> ?thesis"
    by (auto simp: MarkPendingCreation_def split: prod.splits sum.splits dest: SetNX_err)
next
  case (Inr x)
  then show "MarkPendingCreation r c k w = (b, w') \<Longrightarrow> ?thesis"
    using MarkPendingCreation_Inr [of c k w x w'] by (auto simp: idem_pending_def)
qed

lemma CompletePendingCreation_db:
  "CompletePendingCreation r c k s w = (e, w') \<Longrightarrow> clk w \<le> clk w' \<and>
     (db w' = db w \<or> db w' = run_pcmds (clk w') (complete_pipe r k s) (db w))"
  by (auto simp: CompletePendingCreation_def simp del: run_pcmds_Cons run_pcmds_Nil
      split: prod.splits option.splits dest: Exec_ok Exec_tx redis_moves)

lemma DropPendingCreation_db:
  "DropPendingCreation r c k w = (e, w') \<Longrightarrow> clk w \<le> clk w' \<and>
     (db w' = db w \<or> db w' = del (formPendingKey r k) (db w))"
  by (auto simp: DropPendingCreation_def split: prod.splits sum.splits if_splits
      dest: Del_ok Del_err redis_moves)

lemma step_clock: "idem_step r db clk w l w' \<Longrightarrow> clk w \<le> clk w'"
  by (erule idem_step_cases)
     (auto dest: GetSandboxID_db MarkPendingCreation_clock Exists_clock
       CompletePendingCreation_db DropPendingCreation_db)

lemma run_clock: "idem_run r db clk w ls w' \<Longrightarrow> clk w \<le> clk w'"
  by (induction rule: idem_run.induct) (auto dest: step_clock)

text \<open>One step keeps a claim that does not run out before the step does.\<close>

lemma step_keeps_pending:
  assumes "idem_step r db clk w l w'" and "\<not> ends_claim k l" and "idem_pending r t (db w) k"
    and "clk w' \<le> t"
  shows "idem_pending r t (db w') k"
  using assms(1)
proof (cases rule: idem_step.cases)
  case (step_mark c k' b)
  then show ?thesis
    using MarkPendingCreation_db [OF step_mark(2)] assms(3,4)
      lookup_later [of t "db w" "formPendingKey r k" _ "clk w'"]
    by (auto simp: idem_pending_def)
next
  case (step_complete c k' s e)
  then show ?thesis
    using CompletePendingCreation_db [OF step_complete(2)] assms(2,3)
    by (auto simp: idem_pending_def complete_pipe_def ends_claim_def)
next
  case (step_drop c k' e)
  then show ?thesis
    using DropPendingCreation_db [OF step_drop(2)] assms(2,3)
    by (auto simp: idem_pending_def ends_claim_def)
qed (use assms(3) in \<open>auto dest: GetSandboxID_db Exists_db\<close>)

lemma run_keeps_pending:
  "idem_run r db clk w ls w' \<Longrightarrow> \<forall>l \<in> set ls. \<not> ends_claim k l \<Longrightarrow> idem_pending r t (db w) k \<Longrightarrow>
     clk w' \<le> t \<Longrightarrow> idem_pending r t (db w') k"
proof (induction rule: idem_run.induct)
  case (run_step w l w1 ls w')
  have "clk w1 \<le> t" using run_clock [OF run_step.hyps(2)] run_step.prems(3) by simp
  then show ?case using run_step step_keeps_pending by simp
qed simp

lemma step_keeps_done:
  assumes "idem_step r db clk w l w'" and "\<not> records k l" and "idem_done r t (db w) k = Some s"
  shows "idem_done r t (db w') k = Some s"
  using assms(1)
proof (cases rule: idem_step.cases)
  case (step_mark c k' b)
  then show ?thesis
    using MarkPendingCreation_db [OF step_mark(2)] assms(3) by (auto simp: idem_done_def)
next
  case (step_complete c k' s' e)
  then show ?thesis
    using CompletePendingCreation_db [OF step_complete(2)] assms(2,3)
    by (auto simp: idem_done_def complete_pipe_def records_def)
next
  case (step_drop c k' e)
  then show ?thesis
    using DropPendingCreation_db [OF step_drop(2)] assms(3) by (auto simp: idem_done_def)
qed (use assms(3) in \<open>auto dest: GetSandboxID_db Exists_db\<close>)

lemma run_keeps_done:
  "idem_run r db clk w ls w' \<Longrightarrow> \<forall>l \<in> set ls. \<not> records k l \<Longrightarrow> idem_done r t (db w) k = Some s \<Longrightarrow>
     idem_done r t (db w') k = Some s"
  by (induction rule: idem_run.induct) (simp_all add: step_keeps_done)

end

text \<open>
  A whole call is a run: the caller's own steps and, while it sleeps, those of the others
  (each wake-up's environment is a run). A claim is won by the last step, a \<open>SETNX\<close> that
  succeeds; a sandbox is returned as the last step read it.
\<close>

definition run_wakes ::
  "'w redisIdem \<Rightarrow> ('w \<Rightarrow> redis_db) \<Rightarrow> ('w \<Rightarrow> int) \<Rightarrow> 'w wake list \<Rightarrow> bool" where
  "run_wakes r db clk wks \<longleftrightarrow> (\<forall>wk \<in> set wks. \<forall>v. \<exists>ls. idem_run r db clk v ls (wake_env wk v))"

lemma run_wakes_simps [simp]:
  "run_wakes r db clk []"
  "run_wakes r db clk (wk # wks) \<longleftrightarrow>
     (\<forall>v. \<exists>ls. idem_run r db clk v ls (wake_env wk v)) \<and> run_wakes r db clk wks"
  by (auto simp: run_wakes_def)

lemma await_loop_run:
  "await_loop r c k wks w = (x, w') \<Longrightarrow> run_wakes r db clk wks \<Longrightarrow>
     \<exists>ls. idem_run r db clk w ls w' \<and>
       (\<forall>s. x = Some (Inr s) \<longrightarrow> (\<exists>ls'. ls = ls' @ [LGet k (Inr s)]))"
proof (induction wks arbitrary: w)
  case Nil
  then show ?case by (auto intro: run_nil)
next
  case (Cons wk wks)
  let ?w1 = "wake_env wk w"
  obtain ls1 where r1: "idem_run r db clk w ls1 ?w1" using Cons.prems(2) by auto
  obtain y w2 where g: "GetSandboxID r c k ?w1 = (y, w2)" by fastforce
  obtain n w3 where e: "rd_Exists (ri_client r) c (formPendingKey r k) w2 = (n, w3)" by fastforce
  have r2: "idem_run r db clk w (ls1 @ [LGet k y]) w2"
    using idem_run_snoc [OF r1 step_get [OF g]] .
  have r3: "idem_run r db clk w ((ls1 @ [LGet k y]) @ [LPendingCheck k n]) w3"
    using idem_run_snoc [OF r2 step_check [OF e]] .
  have rest: "\<exists>ls. idem_run r db clk w ls w' \<and>
      (\<forall>s. x = Some (Inr s) \<longrightarrow> (\<exists>ls'. ls = ls' @ [LGet k (Inr s)]))"
    if "await_loop r c k wks w3 = (x, w')"
    using Cons.IH [OF that] Cons.prems(2) idem_run_append [OF r3] by fastforce
  show ?case
    using Cons.prems(1) r1 r2 r3 rest
    by (auto simp: g e Let_def split: option.splits bool.splits sum.splits if_splits)
qed

lemma await_run:
  assumes "idem_run r db clk w ls w2" and "awaitIdempotenceCompletion r wks c k w2 = (y, w3)"
    and "run_wakes r db clk wks"
  shows "\<exists>ls. idem_run r db clk w ls w3 \<and>
    (\<forall>s. y = Some (Inr s) \<longrightarrow> (\<exists>ls'. ls = ls' @ [LGet k (Inr s)]))"
proof -
  obtain z w4 where g: "GetSandboxID r c k w2 = (z, w4)" by fastforce
  have r: "idem_run r db clk w (ls @ [LGet k z]) w4"
    using idem_run_snoc [OF assms(1) step_get [OF g]] .
  show ?thesis
  proof (cases "found_sandbox z \<or> check_failed z \<noteq> None")
    case True
    then show ?thesis using assms(2) r
      by (auto simp: awaitIdempotenceCompletion_def g split: if_splits option.splits)
  next
    case False
    then have "await_loop r c k wks w4 = (y, w3)"
      using assms(2) by (simp add: awaitIdempotenceCompletion_def g)
    then show ?thesis using await_loop_run [OF _ assms(3)] idem_run_append [OF r] by fastforce
  qed
qed

lemma ClaimOrWait_run:
  assumes "ClaimOrWait r wks c k w = (qo, w')" and "run_wakes r db clk wks"
  shows "\<exists>ls. idem_run r db clk w ls w' \<and>
    (\<forall>q. qo = Some q \<longrightarrow>
      (Claimed q \<longrightarrow> (\<exists>ls'. ls = ls' @ [LMark k (Inr True)])) \<and>
      (HasExistingSandbox q \<longrightarrow> (\<exists>ls'. ls = ls' @ [LGet k (Inr (cr_SandboxID q))])))"
proof -
  obtain x w1 where g: "GetSandboxID r c k w = (x, w1)" by fastforce
  obtain m w2 where m: "MarkPendingCreation r c k w1 = (m, w2)" by fastforce
  obtain y w3 where a: "awaitIdempotenceCompletion r wks c k w2 = (y, w3)" by fastforce
  have r1: "idem_run r db clk w [LGet k x] w1"
    using step_get [OF g] by (auto intro: idem_run.intros)
  have r2: "idem_run r db clk w [LGet k x, LMark k m] w2"
    using idem_run_snoc [OF r1 step_mark [OF m]] by simp
  obtain ls where ls: "idem_run r db clk w ls w3"
    "\<forall>s. y = Some (Inr s) \<longrightarrow> (\<exists>ls'. ls = ls' @ [LGet k (Inr s)])"
    using await_run [OF r2 a assms(2)] by blast
  show ?thesis
  proof (cases "ctx_err c (rt_now (ri_runtime r) w) = None")
    case False
    then show ?thesis using assms(1) run_nil [of r db clk w]
      by (auto simp: ClaimOrWait_def claim_predicates)
  next
    case ok: True
    show ?thesis
    proof (cases "found_sandbox x")
      case True
      then obtain s where "x = Inr s" by (auto simp: found_sandbox_def split: sum.splits)
      then show ?thesis using assms(1) ok True r1
        by (intro exI [of _ "[LGet k x]"]) (auto simp: ClaimOrWait_def g)
    next
      case False
      then show ?thesis using assms(1) ok r1 r2 ls
        by (auto simp: ClaimOrWait_def g m a claim_predicates
            split: option.splits sum.splits bool.splits)
    qed
  qed
qed

section \<open>Properties of the protocol\<close>

lemmas idem_eval = ClaimOrWait_def GetSandboxID_def MarkPendingCreation_def claim_of_def
  CompletePendingCreation_def DropPendingCreation_def complete_pipe_def redis_sink_def
  found_sandbox_def check_failed_def sim_idem_def idem_keys defaultKeyPrefix_def
  pendingKeyTTL_def idempotenceKeyTTL_def Complete_def Drop_def

text \<open>
  Whatever \<open>ClaimOrWait\<close> returns, for any Redis
  client and any wake-ups: exactly one of holding the claim, carrying an existing sandbox,
  carrying an error; not completed; bound to the requested key and to this store.
\<close>

lemma claim_trichotomy:
  assumes "ClaimOrWait r wks c k w = (Some q, w')"
  shows "(Claimed q \<and> cr_SandboxID q = SandboxID '''' \<and> cr_Err q = None \<or>
     \<not> Claimed q \<and> cr_SandboxID q \<noteq> SandboxID '''' \<and> cr_Err q = None \<or>
     \<not> Claimed q \<and> cr_SandboxID q = SandboxID '''' \<and> cr_Err q \<noteq> None) \<and>
    \<not> completed q \<and> cr_key q = k \<and> cr_store q = Some (redis_sink r)"
  using ClaimOrWait_ok [OF assms] by (auto simp: claim_ok_def claim_predicates)

text \<open>
  C1 (mutual exclusion of claims). Callers interleave in any order. If the claim of a key
  is granted and granted again less than a minute later, then in between somebody
  completed or dropped the claim of that very key.
\<close>

theorem claim_mutual_exclusion:
  assumes "redis_server (ri_client r) db clk"
    and "idem_step r db clk w (LMark k (Inr True)) w1"
    and "idem_run r db clk w1 ls w2"
    and "idem_step r db clk w2 (LMark k (Inr True)) w3"
    and "clk w3 < clk w1 + minutes 1"
  shows "\<exists>l \<in> set ls. ends_claim k l"
proof (rule ccontr)
  assume none: "\<not> ?thesis"
  have R: "redis_idem r db clk" using assms(1) by (simp add: redis_idem_def)
  obtain c where c: "MarkPendingCreation r c k w = (Inr True, w1)"
    using assms(2) by (auto elim: idem_mark_case)
  obtain c' where c': "MarkPendingCreation r c' k w2 = (Inr True, w3)"
    using assms(4) by (auto elim: idem_mark_case)
  have "idem_pending r (clk w3) (db w1) k"
    using redis_idem.MarkPendingCreation_Inr [OF R c] assms(5)
    by (simp add: idem_pending_def pendingKeyTTL_def)
  moreover have "clk w2 \<le> clk w3" using redis_idem.step_clock [OF R assms(4)] .
  ultimately have "idem_pending r (clk w3) (db w2) k"
    using redis_idem.run_keeps_pending [OF R assms(3)] none by blast
  then show False using redis_idem.MarkPendingCreation_Inr [OF R c'] by simp
qed

theorem claim_mutual_exclusion_witness:
  "\<exists>w1 w2 w3. idem_step sim_idem w_db w_clk init_world (LMark ''a'' (Inr True)) w1 \<and>
     idem_run sim_idem w_db w_clk w1 [LDrop ''a'' None] w2 \<and>
     idem_step sim_idem w_db w_clk w2 (LMark ''a'' (Inr True)) w3 \<and>
     (\<exists>l \<in> set [LDrop ''a'' None]. ends_claim ''a'' l)"
proof -
  let ?m = "\<lambda>w. MarkPendingCreation sim_idem background ''a'' w"
  let ?w1 = "snd (?m init_world)"
  let ?d = "DropPendingCreation sim_idem background ''a'' ?w1"
  let ?w3 = "snd (?m (snd ?d))"
  have m1: "?m init_world = (Inr True, ?w1)" by (simp add: idem_eval sim_eval)
  have d: "?d = (None, snd ?d)" by (simp add: idem_eval sim_eval)
  have m3: "?m (snd ?d) = (Inr True, ?w3)" by (simp add: idem_eval sim_eval)
  have t: "w_clk ?w3 < w_clk ?w1 + minutes 1" by (simp add: idem_eval sim_eval)
  note s1 = step_mark [where db = w_db and clk = w_clk, OF m1]
    and s3 = step_mark [where db = w_db and clk = w_clk, OF m3]
  have s2: "idem_run sim_idem w_db w_clk ?w1 [LDrop ''a'' None] (snd ?d)"
    using run_step [OF step_drop [OF d] run_nil] .
  have "redis_server (ri_client sim_idem) w_db w_clk"
    using sim.redis_server_axioms by (simp add: sim_idem_def)
  then show ?thesis using claim_mutual_exclusion [OF _ s1 s2 s3 t] s1 s2 s3 by blast
qed

text \<open>
  C23 (a completed key answers with its sandbox). After a claim has been completed, and
  for ten minutes, as long as nobody else completes the key again, whatever the callers do
  in between, every \<open>ClaimOrWait\<close> of the key returns without waiting and does not grant the
  claim. It returns that sandbox and no error, unless its context is done already or the
  \<open>GET\<close> of the record fails: then, and only then, it returns an error and no sandbox.
\<close>

theorem completed_is_reused:
  assumes "redis_server (ri_client r) db clk"
    and "CompletePendingCreation r c k s w = (None, w1)" and "plain_sandbox s"
    and "idem_run r db clk w1 ls w2" and "\<forall>l \<in> set ls. \<not> records k l"
    and "ClaimOrWait r wks c' k w2 = (qo, w3)" and "clock_wakes clk wks"
    and "clk w3 < clk w1 + minutes 10"
  shows "\<exists>q. qo = Some q \<and> \<not> Claimed q \<and> db w3 = db w2 \<and>
    (if ctx_err c' (rt_now (ri_runtime r) w2) \<noteq> None \<or>
        (\<exists>e. fst (rd_Get (ri_client r) c' (formKey r k) w2) = Inl e)
     then \<not> HasExistingSandbox q \<and> HasError q
     else cr_SandboxID q = s \<and> \<not> HasError q)"
proof -
  have R: "redis_idem r db clk" using assms(1) by (simp add: redis_idem_def)
  have "idem_done r (clk w3) (db w1) k = Some s"
    using redis_idem.CompletePendingCreation_None [OF R assms(2)] assms(3,8)
    by (simp add: complete_pipe_def idem_done_def idempotenceKeyTTL_def)
  then have d: "idem_done r (clk w3) (db w2) k = Some s"
    by (rule redis_idem.run_keeps_done [OF R assms(4,5)])
  then show ?thesis
    using redis_idem.ClaimOrWait_reuses [OF R assms(6,7)] redis_idem.ClaimOrWait_reads [OF R assms(6,7)]
    by fastforce
qed

text \<open>The witness reads the record back: the second caller gets the sandbox, and no error.\<close>

theorem completed_is_reused_witness:
  "\<exists>q w'. ClaimOrWait sim_idem [] background ''a''
     (snd (CompletePendingCreation sim_idem background ''a'' (SandboxID ''s'') init_world)) = (Some q, w') \<and>
     \<not> Claimed q \<and> cr_SandboxID q = SandboxID ''s'' \<and> \<not> HasError q"
proof -
  let ?w1 = "snd (CompletePendingCreation sim_idem background ''a'' (SandboxID ''s'') init_world)"
  let ?c = "ClaimOrWait sim_idem [] background ''a'' ?w1"
  have 1: "CompletePendingCreation sim_idem background ''a'' (SandboxID ''s'') init_world = (None, ?w1)"
    by (simp add: idem_eval sim_eval)
  obtain qo v where 2: "?c = (qo, v)" by fastforce
  have "w_clk (snd ?c) < w_clk ?w1 + minutes 10"
    by (simp add: idem_eval sim_eval NewSandboxID_def trim_prefix_def SandboxPrefix_def)
  then have 3: "w_clk v < w_clk ?w1 + minutes 10" by (simp only: 2 snd_conv)
  have 4: "\<not> (ctx_err background (rt_now (ri_runtime sim_idem) ?w1) \<noteq> None \<or>
      (\<exists>e. fst (rd_Get (ri_client sim_idem) background (formKey sim_idem ''a'') ?w1) = Inl e))"
    by (simp add: idem_eval sim_eval)
  have "\<exists>q. qo = Some q \<and> \<not> Claimed q \<and> cr_SandboxID q = SandboxID ''s'' \<and> \<not> HasError q"
    using completed_is_reused [where db = w_db and clk = w_clk, OF _ 1 _ run_nil _ 2 _ 3]
      sim.redis_server_axioms 4
    by (auto simp: plain_ids_eval)
  then show ?thesis using 2 by blast
qed

text \<open>
  A dropped claim is free again. After a drop, if no sandbox is recorded for the key,
  the next \<open>ClaimOrWait\<close> does not wait: it is granted the claim, unless Redis or the
  context fails.
\<close>

lemma dropped_is_free:
  assumes "redis_server (ri_client r) db clk"
    and "DropPendingCreation r c k w = (None, w1)" and "idem_absent r (clk w1) (db w1) k"
    and "ClaimOrWait r wks c' k w1 = (qo, w2)"
  shows "\<exists>q. qo = Some q \<and> (Claimed q \<or> HasError q)"
proof -
  have R: "redis_idem r db clk" using assms(1) by (simp add: redis_idem_def)
  obtain x v where g: "GetSandboxID r c' k w1 = (x, v)" by fastforce
  obtain m u where m: "MarkPendingCreation r c' k v = (m, u)" by fastforce
  have gd: "db v = db w1 \<and> clk w1 \<le> clk v" using redis_idem.GetSandboxID_db [OF R g] .
  have "\<not> found_sandbox x"
  proof
    assume "found_sandbox x"
    then obtain s where "x = Inr s" by (auto simp: found_sandbox_def split: sum.splits)
    then have "idem_done r (clk v) (db w1) k = Some s"
      using redis_idem.GetSandboxID_Inr [OF R] g by simp
    moreover have "idem_absent r (clk v) (db w1) k"
      using idem_absent_later [OF assms(3)] gd by simp
    ultimately show False by (simp add: idem_done_def idem_absent_def)
  qed
  moreover have "m = Inr b \<Longrightarrow> b" for b
    using redis_idem.MarkPendingCreation_Inr [OF R, of c' k v b u] m gd
      redis_idem.DropPendingCreation_None [OF R assms(2)]
    by (auto simp: idem_pending_def)
  ultimately show ?thesis
    using assms(4) by (auto simp: ClaimOrWait_def g m HasError_def
        split: option.splits sum.splits bool.splits)
qed

text \<open>
  Waiting for another claimant ends. Under a context with a deadline, \<open>ClaimOrWait\<close>
  returns after at most as many ticks of its 200ms ticker as fit before the deadline (and
  at least one), whatever the other callers, Redis, and the choices of \<open>select\<close> do. For
  the 10 seconds the scheduler gives, that is 50 ticks.
\<close>

lemma claim_wait_ends:
  assumes "redis_server (ri_client r) db clk" and "rt_now (ri_runtime r) = clk"
    and "deadline c = Some D" and "wks \<noteq> []" and "ticks_from (millis 200) clk c (clk w) wks"
    and "D \<le> clk w + int (length wks) * millis 200"
  shows "\<exists>q w'. ClaimOrWait r wks c k w = (Some q, w')"
proof -
  have R: "redis_idem r db clk" using assms(1) by (simp add: redis_idem_def)
  show ?thesis
    using redis_idem.ClaimOrWait_returns [OF R assms(2-6), of k w] by (auto simp: prod_eq_iff)
qed

text \<open>
  The check for a recorded sandbox and the \<open>SETNX\<close> that takes the claim are two calls of
  \<open>ClaimOrWait\<close>. \<open>after_check env r\<close> is the store of a caller that is overtaken between
  them: when the answer of its \<open>GET\<close> has come back, the others have moved the world by
  \<open>env\<close>.
\<close>

definition after_check :: "('w \<Rightarrow> 'w) \<Rightarrow> 'w redisIdem \<Rightarrow> 'w redisIdem" where
  "after_check env r = r\<lparr>ri_client := (ri_client r)\<lparr>rd_Get := (\<lambda>c k w.
     case rd_Get (ri_client r) c k w of (x, w1) \<Rightarrow> (x, env w1))\<rparr>\<rparr>"

lemma after_check_check:
  "GetSandboxID r c k w = (Inl ErrNotFound, w1) \<Longrightarrow> GetSandboxID (after_check env r) c k w = (Inl ErrNotFound, env w1)"
  by (auto simp: GetSandboxID_def after_check_def formKey_def split: prod.splits sum.splits if_splits)

lemma after_check_mark: "MarkPendingCreation (after_check env r) c k w = MarkPendingCreation r c k w"
  by (simp add: MarkPendingCreation_def after_check_def formPendingKey_def)

lemma after_check_runtime [simp]: "ri_runtime (after_check env r) = ri_runtime r"
  by (simp add: after_check_def)

text \<open>
  C35 (a lost check). Caller A checks a key and finds nothing. Between its check and its
  \<open>SETNX\<close>, caller B gets the claim of the key with its own \<open>ClaimOrWait\<close>, creates its sandbox
  \<open>s\<close> and completes the claim. A's \<open>ClaimOrWait\<close>, which does not look at the record again,
  then returns at once with the claim as well, unless its \<open>SETNX\<close> fails: A is told to
  create a sandbox although \<open>s\<close> is recorded for the key at that moment.
\<close>

theorem claim_race:
  assumes "redis_server (ri_client r) db clk"
    and "ctx_err cA (rt_now (ri_runtime r) w) = None"
    and "GetSandboxID r cA k w = (Inl ErrNotFound, w1)"
    and "ClaimOrWait r wksB cB k w1 = (Some qB, w2)" and "Claimed qB"
    and "Complete qB cB s w2 = ((None, qB'), w3)" and "plain_sandbox s" and "env w1 = w3"
    and "ClaimOrWait (after_check env r) wksA cA k w = (qo, w4)" and "clk w4 < clk w3 + minutes 10"
  shows "\<exists>q. qo = Some q \<and>
    (case fst (rd_SetNX (ri_client r) cA (formPendingKey r k) ''1'' pendingKeyTTL w3) of
       Inl e \<Rightarrow> HasError q \<and> \<not> Claimed q
     | Inr b \<Rightarrow> Claimed q \<and> \<not> HasError q \<and> \<not> HasExistingSandbox q \<and>
         idem_done r (clk w4) (db w4) k = Some s)"
proof -
  have R: "redis_idem r db clk" using assms(1) by (simp add: redis_idem_def)
  have qB: "qB = (claim_of r k)\<lparr>Claimed := True\<rparr>"
    using redis_idem.ClaimOrWait_claimed [OF R assms(4,5)] by simp
  then have compl: "CompletePendingCreation r cB k s w2 = (None, w3)"
    using assms(6) by (auto simp: Complete_def redis_sink_def split: prod.splits option.splits)
  obtain m u where m: "MarkPendingCreation r cA k w3 = (m, u)" by fastforce
  have A: "ClaimOrWait (after_check env r) wksA cA k w = (case m of
      Inl e \<Rightarrow> (Some ((claim_of (after_check env r) k)\<lparr>cr_Err := Some (ErrWrap ''error marking pending creation: '' e)\<rparr>), u)
    | Inr True \<Rightarrow> (Some ((claim_of (after_check env r) k)\<lparr>Claimed := True\<rparr>), u)
    | Inr False \<Rightarrow> ClaimOrWait (after_check env r) wksA cA k w)"
    using assms(2) m by (simp add: ClaimOrWait_def after_check_check [OF assms(3)] after_check_mark
        found_sandbox_def check_failed_def assms(8) split: sum.split bool.split)
  show ?thesis
  proof (cases m)
    case (Inl e)
    then show ?thesis using A assms(9) m
      by (auto simp: claim_predicates MarkPendingCreation_def split: prod.splits sum.splits)
  next
    case (Inr b)
    have "w4 = u" if b using A assms(9) Inr that by simp
    then have "b \<and> idem_done r (clk w4) (db w4) k = Some s"
      using redis_idem.MarkPendingCreation_after_complete [OF R compl assms(7) m [unfolded Inr]] assms(10)
      by (simp add: idempotenceKeyTTL_def)
    then show ?thesis using A assms(9) m Inr
      by (auto simp: claim_predicates MarkPendingCreation_def split: prod.splits sum.splits)
  qed
qed

theorem claim_race_witness:
  "\<exists>env q w4. ClaimOrWait (after_check env sim_idem) [] background ''a'' init_world = (Some q, w4) \<and>
     Claimed q \<and> idem_done sim_idem (w_clk w4) (w_db w4) ''a'' = Some (SandboxID ''s'')"
proof -
  let ?g = "GetSandboxID sim_idem background ''a'' init_world"
  let ?B = "ClaimOrWait sim_idem [] background ''a'' (snd ?g)"
  let ?q = "(claim_of sim_idem ''a'')\<lparr>Claimed := True\<rparr>"
  let ?C = "Complete ?q background (SandboxID ''s'') (snd ?B)"
  let ?env = "\<lambda>_. snd ?C"
  let ?A = "ClaimOrWait (after_check ?env sim_idem) [] background ''a'' init_world"
  have 0: "ctx_err background (rt_now (ri_runtime sim_idem) init_world) = None" by (simp add: sim_eval)
  have 1: "?g = (Inl ErrNotFound, snd ?g)" by (simp add: idem_eval sim_eval)
  have 2: "?B = (Some ?q, snd ?B)" by (simp add: idem_eval sim_eval)
  have 3: "?C = ((None, snd (fst ?C)), snd ?C)" by (simp add: idem_eval sim_eval)
  have 4: "?A = (fst ?A, snd ?A)" by simp
  have 5: "w_clk (snd ?A) < w_clk (snd ?C) + minutes 10"
    by (simp add: idem_eval sim_eval after_check_def)
  have 6: "fst (rd_SetNX (ri_client sim_idem) background (formPendingKey sim_idem ''a'') ''1'' pendingKeyTTL
      (snd ?C)) = Inr True" by (simp add: idem_eval sim_eval)
  have "\<exists>q. fst ?A = Some q \<and> Claimed q \<and> idem_done sim_idem (w_clk (snd ?A)) (w_db (snd ?A)) ''a'' = Some (SandboxID ''s'')"
    using claim_race [where db = w_db and clk = w_clk and env = ?env, OF _ 0 1 2 _ 3 _ _ 4 5]
      sim.redis_server_axioms 6 by (auto simp: plain_ids_eval)
  then show ?thesis by (metis prod.collapse)
qed

section \<open>What the protocol leaves alone\<close>

text \<open>A key that is none of the protocol's own.\<close>

definition foreign_key :: "'w redisIdem \<Rightarrow> string \<Rightarrow> bool" where
  "foreign_key r x \<longleftrightarrow> (\<forall>k. x \<noteq> formKey r k \<and> x \<noteq> formPendingKey r k) \<and>
     (\<forall>s. x \<noteq> formSandboxIdempotenceKey r s)"

lemma foreign_key_D: "foreign_key r x \<Longrightarrow> x \<noteq> formKey r k \<and> x \<noteq> formPendingKey r k \<and> x \<noteq> formSandboxIdempotenceKey r s"
  by (simp add: foreign_key_def)


context redis_idem
begin

lemma Complete_keeps_key:
  "CompletePendingCreation r c k s w = (e, w') \<Longrightarrow> foreign_key r x \<Longrightarrow> keys (db w') x = keys (db w) x"
  by (drule CompletePendingCreation_db, drule foreign_key_D [of r x k s])
     (auto simp: complete_pipe_def)

lemma Drop_keeps_key:
  "DropPendingCreation r c k w = (e, w') \<Longrightarrow> foreign_key r x \<Longrightarrow> keys (db w') x = keys (db w) x"
  by (drule DropPendingCreation_db, drule foreign_key_D [of r x k]) auto

lemma Mark_keeps_key:
  "MarkPendingCreation r c k w = (b, w') \<Longrightarrow> foreign_key r x \<Longrightarrow> keys (db w') x = keys (db w) x"
  by (drule MarkPendingCreation_db, drule foreign_key_D [of r x k]) auto

lemma step_keeps_key:
  assumes "idem_step r db clk w l w'" and "foreign_key r x"
  shows "keys (db w') x = keys (db w) x"
  using assms(1)
proof (cases rule: idem_step.cases)
  case (step_get c k y)
  then show ?thesis using GetSandboxID_db by simp
next
  case (step_mark c k b)
  then show ?thesis using Mark_keeps_key assms(2) by simp
next
  case (step_check c k n)
  then show ?thesis using Exists_db by simp
next
  case (step_complete c k s e)
  then show ?thesis using Complete_keeps_key assms(2) by simp
next
  case (step_drop c k e)
  then show ?thesis using Drop_keeps_key assms(2) by simp
qed simp

lemma run_keeps_key:
  "idem_run r db clk w ls w' \<Longrightarrow> foreign_key r x \<Longrightarrow> keys (db w') x = keys (db w) x"
  by (induction rule: idem_run.induct) (simp_all add: step_keeps_key)

lemma claim_keeps_key:
  assumes "ClaimOrWait r wks c k w = (qo, w')" and "run_wakes r db clk wks" and "foreign_key r x"
  shows "keys (db w') x = keys (db w) x"
proof -
  obtain ls where "idem_run r db clk w ls w'" using ClaimOrWait_run [OF assms(1,2)] by (elim exE conjE) (rule that)
  then show ?thesis using assms(3) by (rule run_keeps_key)
qed

end

context redis_idem
begin

lemma ClaimOrWait_clock:
  assumes "ClaimOrWait r wks c k w = (qo, w')" and "clock_wakes clk wks"
  shows "clk w \<le> clk w'"
proof -
  obtain x w1 where g: "GetSandboxID r c k w = (x, w1)" by fastforce
  obtain b w2 where m: "MarkPendingCreation r c k w1 = (b, w2)" by fastforce
  obtain y w3 where a: "awaitIdempotenceCompletion r wks c k w2 = (y, w3)" by fastforce
  have "clk w \<le> clk w1" "clk w1 \<le> clk w2" "clk w2 \<le> clk w3"
    using GetSandboxID_db [OF g] MarkPendingCreation_clock [OF m] await_clock [OF a assms(2)] by simp_all
  then show ?thesis using assms(1) g m a
    by (auto simp: ClaimOrWait_def Let_def split: option.splits sum.splits bool.splits if_splits)
qed

end

section \<open>Relations along a claim\<close>

text \<open>
  A reflexive and transitive relation that holds along every call of the client and every
  wake-up holds along a claim.
\<close>

lemma GetSandboxID_move: "GetSandboxID r c k w = (x, w') \<Longrightarrow> redis_move (ri_client r) w w'"
  by (auto simp: GetSandboxID_def split: prod.splits sum.splits if_splits intro: redis_move.intros)

lemma MarkPendingCreation_move: "MarkPendingCreation r c k w = (x, w') \<Longrightarrow> redis_move (ri_client r) w w'"
  by (auto simp: MarkPendingCreation_def split: prod.splits sum.splits intro: redis_move.intros)

lemma CompletePendingCreation_move: "CompletePendingCreation r c k s w = (x, w') \<Longrightarrow> redis_move (ri_client r) w w'"
  by (auto simp: CompletePendingCreation_def split: prod.splits option.splits intro: redis_move.intros)

lemma DropPendingCreation_move: "DropPendingCreation r c k w = (x, w') \<Longrightarrow> redis_move (ri_client r) w w'"
  by (auto simp: DropPendingCreation_def split: prod.splits sum.splits if_splits intro: redis_move.intros)

lemmas claim_moves = GetSandboxID_move MarkPendingCreation_move CompletePendingCreation_move
  DropPendingCreation_move

lemma await_loop_steps:
  assumes trans: "\<And>u v z. Q u v \<Longrightarrow> Q v z \<Longrightarrow> Q u z"
    and call: "\<And>v v'. redis_move (ri_client r) v v' \<Longrightarrow> Q v v'" and refl: "\<And>v. Q v v"
  shows "await_loop r c k wks w = (x, w') \<Longrightarrow> (\<And>wk v. wk \<in> set wks \<Longrightarrow> Q v (wake_env wk v)) \<Longrightarrow> Q w w'"
proof (induction wks arbitrary: w)
  case Nil
  then show ?case using refl by simp
next
  case (Cons wk wks)
  let ?w1 = "wake_env wk w"
  obtain y w2 where g: "GetSandboxID r c k ?w1 = (y, w2)" by fastforce
  obtain n w3 where e: "rd_Exists (ri_client r) c (formPendingKey r k) w2 = (n, w3)" by fastforce
  have q1: "Q w ?w1" using Cons.prems(2) by simp
  have q2: "Q w w2" using trans [OF q1 call] claim_moves(1) [OF g] by blast
  have q3: "Q w w3" using trans [OF q2 call] redis_move.intros(3) [OF e] by blast
  have rec: "await_loop r c k wks w3 = (x, w') \<Longrightarrow> Q w w'"
    using Cons.IH [of w3] Cons.prems(2) trans [OF q3] by simp
  show ?case using Cons.prems(1) q1 q2 q3 rec g e
    by (auto simp: Let_def split: option.splits bool.splits if_splits sum.splits)
qed

lemma ClaimOrWait_steps:
  assumes "ClaimOrWait r wks c k w = (qo, w')"
    and refl: "\<And>v. Q v v" and trans: "\<And>u v z. Q u v \<Longrightarrow> Q v z \<Longrightarrow> Q u z"
    and call: "\<And>v v'. redis_move (ri_client r) v v' \<Longrightarrow> Q v v'"
    and wake: "\<And>wk v. wk \<in> set wks \<Longrightarrow> Q v (wake_env wk v)"
  shows "Q w w'"
proof -
  obtain x w1 where g: "GetSandboxID r c k w = (x, w1)" by fastforce
  obtain b w2 where m: "MarkPendingCreation r c k w1 = (b, w2)" by fastforce
  obtain y w3 where g': "GetSandboxID r c k w2 = (y, w3)" by fastforce
  obtain z w4 where a: "await_loop r c k wks w3 = (z, w4)" by fastforce
  have q1: "Q w w1" using call claim_moves(1) [OF g] by blast
  have q2: "Q w w2" using trans [OF q1 call] claim_moves(2) [OF m] by blast
  have q3: "Q w w3" using trans [OF q2 call] claim_moves(1) [OF g'] by blast
  have q4: "Q w w4" using trans [OF q3 await_loop_steps [where Q = Q, OF trans call refl a wake]] .
  have "Q w v" if "awaitIdempotenceCompletion r wks c k w2 = (u, v)" for u v
    using that q3 q4 g' a by (auto simp: awaitIdempotenceCompletion_def split: if_splits option.splits)
  then show ?thesis using assms(1) q1 q2 refl g m
    by (auto simp: ClaimOrWait_def Let_def split: option.splits sum.splits bool.splits if_splits prod.splits)
qed


end
