(* ===== verification/Scheduler_Service.thy ===== *)
theory Scheduler_Service
  imports Idempotence K8s_Client
begin

text \<open>
  The scheduler service, \<open>scheduler/internal/scheduler/service.go\<close>: scheduling under an
  idempotence key, releasing, cleanup of expired sandboxes, and the consumer of pod
  events; and the periodic cleanup job of \<open>scheduler/internal/jobs/cleanup/cleanup.go\<close>.
\<close>

record 'w scheduler =
  sc_idem :: "'w idempotence_store"
  sc_k8s :: "'w k8s"
  sc_store :: "'w store"
  sandboxTTL :: int
  sc_runtime :: "'w runtime"

definition scheduler_New ::
  "int \<Rightarrow> 'w k8s \<Rightarrow> 'w idempotence_store \<Rightarrow> 'w store \<Rightarrow> 'w runtime \<Rightarrow> 'w scheduler" where
  "scheduler_New ttl kc idem st rt =
     \<lparr>sc_idem = idem, sc_k8s = kc, sc_store = st, sandboxTTL = ttl, sc_runtime = rt\<rparr>"

section \<open>Scheduling\<close>

text \<open>
  \<open>wks\<close> are the wake-ups of a wait for another claimant. \<open>defer result.Drop(ctx)\<close> runs
  last, on the claim as it is then and under the caller's context.
\<close>

definition deferred_drop :: "'w claim_result \<Rightarrow> ctx \<Rightarrow> err + sandbox_id \<Rightarrow> ('w, (err + sandbox_id) option) op" where
  "deferred_drop r c x w = (let (e, w1) = Drop r c w in (Some x, w1))"

definition ScheduleSandbox ::
  "'w scheduler \<Rightarrow> 'w wake list \<Rightarrow> ctx \<Rightarrow> string \<Rightarrow> ('w, (err + sandbox_id) option) op" where
  "ScheduleSandbox sc wks c key w =
     (if key = '''' then (Some (Inl (ErrText ''idempotence key cannot be empty'')), w)
      else let claimCtx = with_timeout c (rt_now (sc_runtime sc) w) (seconds 10) in
        (case is_ClaimOrWait (sc_idem sc) wks claimCtx key w of
           (None, w1) \<Rightarrow> (None, w1)
         | (Some result, w1) \<Rightarrow>
             (if HasExistingSandbox result
              then deferred_drop result c (Inr (cr_SandboxID result)) w1
              else if IsTimeout result
              then deferred_drop result c
                (Inl (ErrText (''timeout waiting for idempotence claim: '' @ claim_Error result))) w1
              else case k8_ScheduleSandbox (sc_k8s sc) c w1 of
                (Inl e, w2) \<Rightarrow>
                  deferred_drop result c (Inl (errorf_v ''failed to schedule: '' e)) w2
              | (Inr s, w2) \<Rightarrow>
                  (let ((idempotenceErr, result'), w3) = Complete result c s w2
                   in deferred_drop result' c (Inr s) w3))))"

section \<open>Releasing\<close>

text \<open>Nothing is returned to the caller; the result is whether the log entry is a warning.\<close>

definition ReleaseSandbox :: "'w scheduler \<Rightarrow> ctx \<Rightarrow> sandbox_id \<Rightarrow> ('w, bool) op" where
  "ReleaseSandbox sc c s w =
     (let (errRedis, w1) = st_RemoveSandboxMapping (sc_store sc) c s w;
          (errK8s, w2) = k8_ReleaseSandbox (sc_k8s sc) c s w1
      in (errRedis \<noteq> None \<or> errK8s \<noteq> None, w2))"

fun release_pods :: "'w scheduler \<Rightarrow> ctx \<Rightarrow> string list \<Rightarrow> int \<Rightarrow> ('w, int) op" where
  "release_pods sc c [] released w = (released, w)"
| "release_pods sc c (podName # ps) released w =
     (case NewSandboxID podName of
        Inl _ \<Rightarrow> release_pods sc c ps released w
      | Inr s \<Rightarrow> release_pods sc c ps (released + 1) (snd (ReleaseSandbox sc c s w)))"

text \<open>The page loop; \<open>fuel\<close> bounds the pages, \<open>None\<close> means that more remain after them.\<close>

fun cleanup_loop ::
  "nat \<Rightarrow> 'w scheduler \<Rightarrow> ctx \<Rightarrow> int \<Rightarrow> string \<Rightarrow> int \<Rightarrow> ('w, (int \<times> err option) option) op" where
  "cleanup_loop 0 sc c cutoff tok released w = (None, w)"
| "cleanup_loop (Suc fuel) sc c cutoff tok released w =
     (case k8_GetPodsOlderThan (sc_k8s sc) c cutoff tok w of
        (Inl e, w1) \<Rightarrow> (Some (released, Some (errorf_v ''failed to get old pods: '' e)), w1)
      | (Inr (oldPods, nextToken), w1) \<Rightarrow>
          (let (released', w2) = release_pods sc c oldPods released w1
           in if nextToken = '''' then (Some (released', None), w2)
              else cleanup_loop fuel sc c cutoff nextToken released' w2))"

definition CleanupExpiredSandboxes ::
  "nat \<Rightarrow> 'w scheduler \<Rightarrow> ctx \<Rightarrow> ('w, (int \<times> err option) option) op" where
  "CleanupExpiredSandboxes fuel sc c w =
     (let cutoffTime = rt_now (sc_runtime sc) w - sandboxTTL sc
      in cleanup_loop fuel sc c cutoffTime '''' 0 w)"

text \<open>
  The cleanup job: each entry is a wake-up of the \<open>select\<close> (what the rest of the system
  did meanwhile, and whether the ticker fired or the job's context was cancelled).
\<close>

fun runCleanupJob :: "nat \<Rightarrow> 'w scheduler \<Rightarrow> ctx \<Rightarrow> 'w wake list \<Rightarrow> 'w \<Rightarrow> 'w" where
  "runCleanupJob fuel sc c [] w = w"
| "runCleanupJob fuel sc c (wk # wks) w =
     (let w1 = wake_env wk w
      in if wake_tick wk
         then runCleanupJob fuel sc c wks (snd (CleanupExpiredSandboxes fuel sc c w1))
         else w1)"

section \<open>Pod events\<close>

definition handlePodEvent :: "'w scheduler \<Rightarrow> pod_event \<Rightarrow> 'w \<Rightarrow> 'w" where
  "handlePodEvent sc ev w = snd (ReleaseSandbox sc background (ev_sandbox ev) w)"

text \<open>What a round of the consumer's \<open>select\<close> yields.\<close>

datatype event_input = EventReceived pod_event | ChannelClosed | ContextDone

text \<open>The consumer goroutine; the flag is \<open>eventProcessingRunning\<close>.\<close>

fun event_loop :: "'w scheduler \<Rightarrow> event_input list \<Rightarrow> 'w \<Rightarrow> bool \<times> 'w" where
  "event_loop sc [] w = (True, w)"
| "event_loop sc (EventReceived ev # ins) w = event_loop sc ins (handlePodEvent sc ev w)"
| "event_loop sc (ChannelClosed # ins) w = (False, w)"
| "event_loop sc (ContextDone # ins) w = (False, w)"

definition StartEventProcessing :: "'w scheduler \<Rightarrow> bool \<Rightarrow> event_input list \<Rightarrow> 'w \<Rightarrow> bool \<times> 'w" where
  "StartEventProcessing sc running ins w = (if running then (True, w) else event_loop sc ins w)"

section \<open>Queries\<close>

definition IsSandboxReady :: "'w scheduler \<Rightarrow> ctx \<Rightarrow> sandbox_id \<Rightarrow> ('w, err + bool) op" where
  "IsSandboxReady sc c s w =
     (if s = SandboxID '''' then (Inl (ErrText ''sandbox ID cannot be empty''), w)
      else case k8_IsSandboxReady (sc_k8s sc) c s w of
        (Inl e, w1) \<Rightarrow> (Inl (errorf_v ''failed to check if sandbox is ready: '' e), w1)
      | (Inr b, w1) \<Rightarrow> (Inr b, w1))"

definition IsSandboxGone :: "'w scheduler \<Rightarrow> ctx \<Rightarrow> sandbox_id \<Rightarrow> ('w, err + bool) op" where
  "IsSandboxGone sc c s w =
     (let (released, w1) = st_IsSandboxReleased (sc_store sc) c s w
      in if released = Inr True then (Inr True, w1)
         else case k8_IsSandboxGone (sc_k8s sc) c s w1 of
           (Inl e, w2) \<Rightarrow> (Inl (errorf_v ''failed to check if sandbox is gone: '' e), w2)
         | (Inr b, w2) \<Rightarrow> (Inr b, w2))"

definition WaitForSandboxReady ::
  "'w scheduler \<Rightarrow> 'w wake list \<Rightarrow> ctx \<Rightarrow> sandbox_id \<Rightarrow> ('w, (err + bool) option) op" where
  "WaitForSandboxReady sc wks c s w =
     (case k8_WaitForSandboxReady (sc_k8s sc) wks c s w of
        (None, w1) \<Rightarrow> (None, w1)
      | (Some (Inl e), w1) \<Rightarrow>
          (Some (Inl (errorf_v ''failed to wait for sandbox to be ready: '' e)), w1)
      | (Some (Inr b), w1) \<Rightarrow> (Some (Inr b), w1))"

section \<open>Scheduling over its two contracts\<close>

text \<open>
  The scheduler relies on the idempotence store and on the Kubernetes client only through
  their contracts, and on the two not disturbing each other.
\<close>

locale scheduler_parts = idempotence I clk recd pend + sandbox_backend B db clk live readied routed
  for I :: "'w idempotence_store" and B :: "'w k8s" and clk :: "'w \<Rightarrow> int"
    and recd :: "int \<Rightarrow> 'w \<Rightarrow> string \<Rightarrow> sandbox_id option" and pend :: "int \<Rightarrow> 'w \<Rightarrow> string \<Rightarrow> bool"
    and db :: "'w \<Rightarrow> redis_db" and live :: "'w \<Rightarrow> sandbox_id \<Rightarrow> bool"
    and readied :: "'w \<Rightarrow> sandbox_id \<Rightarrow> bool" and routed :: "'w \<Rightarrow> project_id \<Rightarrow> sandbox_id option" +
  fixes ttl :: int and st :: "'w store" and rt :: "'w runtime"
  assumes views_db: "db w' = db w \<Longrightarrow> recd t w' = recd t w \<and> pend t w' = pend t w"
    and complete_live: "is_ClaimOrWait I wks c k v = (Some q, v') \<Longrightarrow> Complete q c' s w = (x, w') \<Longrightarrow>
      live w' = live w"
    and drop_live: "is_ClaimOrWait I wks c k v = (Some q, v') \<Longrightarrow> Drop q c' w = (e, w') \<Longrightarrow>
      live w' = live w"
begin

abbreviation sc :: "'w scheduler" where "sc \<equiv> scheduler_New ttl B I st rt"

abbreviation claim_ctx :: "ctx \<Rightarrow> 'w \<Rightarrow> ctx" where
  "claim_ctx c w \<equiv> with_timeout c (rt_now rt w) (seconds 10)"

lemma claim_drop_unclaimed: "\<not> Claimed q \<Longrightarrow> Drop q c w = (None, w)"
  by (simp add: Drop_def)

lemma schedule_existing:
  assumes "is_ClaimOrWait I wks (claim_ctx c w) key w = (Some q, w1)" and "key \<noteq> ''''"
    and "HasExistingSandbox q"
  shows "ScheduleSandbox sc wks c key w = (Some (Inr (cr_SandboxID q)), w1)"
proof -
  have "\<not> Claimed q" using claim_shape [OF assms(1)] assms(3) by (auto simp: claim_ok_def)
  then show ?thesis using assms
    by (simp add: ScheduleSandbox_def scheduler_New_def deferred_drop_def claim_drop_unclaimed)
qed

lemma claimed_plain:
  assumes "is_ClaimOrWait I wks c k w = (Some q, w1)" and "Claimed q"
  shows "\<not> HasExistingSandbox q \<and> \<not> IsTimeout q"
  using claim_shape [OF assms(1)] assms(2) by (auto simp: claim_ok_def IsTimeout_def HasError_def)

lemma schedule_completed:
  assumes "is_ClaimOrWait I wks (claim_ctx c w) key w = (Some q, w1)" and "key \<noteq> ''''"
    and "Claimed q" and "k8_ScheduleSandbox B c w1 = (Inr s, w2)"
    and "Complete q c s w2 = ((None, q'), w3)" and "0 \<le> clk w1" and "clk w1 + 255 < 2 ^ 63"
  shows "ScheduleSandbox sc wks c key w = (Some (Inr s), w3) \<and>
    \<not> live w1 s \<and> live w3 s \<and> (\<forall>s'. s' \<noteq> s \<longrightarrow> live w3 s' = live w1 s') \<and>
    (\<forall>t < clk w3 + idempotenceKeyTTL. recd t w3 key = Some s \<and> \<not> pend t w3 key)"
proof -
  note c = create_ok [OF assms(4,6,7)]
  have done_: "recd t w3 key = Some s \<and> \<not> pend t w3 key \<and> completed q'" if "t < clk w3 + idempotenceKeyTTL" for t
    using complete_records [OF assms(1,3,5)] c that by blast
  have "completed q'" using done_ [of "clk w3"] by (simp add: idempotenceKeyTTL_def durations)
  then have "ScheduleSandbox sc wks c key w = (Some (Inr s), w3)"
    using assms claimed_plain [OF assms(1,3)]
    by (simp add: ScheduleSandbox_def scheduler_New_def deferred_drop_def Drop_def)
  moreover have "live w3 = live w2" using complete_live [OF assms(1,5)] .
  ultimately show ?thesis using c done_ by simp
qed

lemma schedule_failed:
  assumes "is_ClaimOrWait I wks (claim_ctx c w) key w = (Some q, w1)" and "key \<noteq> ''''"
    and "Claimed q" and "k8_ScheduleSandbox B c w1 = (Inl e, w2)" and "Drop q c w2 = (None, w3)"
  shows "ScheduleSandbox sc wks c key w = (Some (Inl (errorf_v ''failed to schedule: '' e)), w3) \<and>
    (\<forall>t. \<not> pend t w3 key \<and> recd t w3 = recd t w1)"
proof -
  have "recd t w2 = recd t w1" for t using create_frame [OF assms(4)] views_db by blast
  then show ?thesis
    using assms claimed_plain [OF assms(1,3)] drop_frees [OF assms(1,3,5)]
    by (simp add: ScheduleSandbox_def scheduler_New_def deferred_drop_def)
qed

text \<open>An error of the store that is not a timeout does not stop the creation.\<close>

lemma schedule_unclaimed:
  assumes "is_ClaimOrWait I wks (claim_ctx c w) key w = (Some q, w1)" and "key \<noteq> ''''"
    and "HasError q" and "\<not> IsTimeout q" and "k8_ScheduleSandbox B c w1 = (Inr s, w2)"
  shows "ScheduleSandbox sc wks c key w = (Some (Inr s), w2) \<and> (\<forall>t. recd t w2 = recd t w1)"
proof -
  have q: "\<not> Claimed q" "\<not> HasExistingSandbox q" "\<not> completed q"
    using claim_shape [OF assms(1)] assms(3) by (auto simp: claim_ok_def)
  have "recd t w2 = recd t w1" for t using create_frame [OF assms(5)] views_db by blast
  then show ?thesis using assms q
    by (simp add: ScheduleSandbox_def scheduler_New_def deferred_drop_def Complete_def Drop_def)
qed

lemma schedule_timeout:
  assumes "is_ClaimOrWait I wks (claim_ctx c w) key w = (Some q, w1)" and "key \<noteq> ''''"
    and "IsTimeout q"
  shows "ScheduleSandbox sc wks c key w =
    (Some (Inl (ErrText (''timeout waiting for idempotence claim: '' @ claim_Error q))), w1)"
proof -
  have "HasError q" using assms(3) by (auto simp: IsTimeout_def HasError_def split: option.splits)
  then have "\<not> Claimed q" "\<not> HasExistingSandbox q"
    using claim_shape [OF assms(1)] by (auto simp: claim_ok_def)
  then show ?thesis using assms
    by (simp add: ScheduleSandbox_def scheduler_New_def deferred_drop_def Drop_def)
qed

text \<open>Scheduling twice under one key gives one sandbox.\<close>

lemma schedule_twice:
  assumes "is_ClaimOrWait I wks (claim_ctx c w) key w = (Some q, w1)" and "key \<noteq> ''''"
    and "Claimed q" and "k8_ScheduleSandbox B c w1 = (Inr s, w2)"
    and "Complete q c s w2 = ((None, q'), w3)" and "0 \<le> clk w1" and "clk w1 + 255 < 2 ^ 63"
    and "is_ClaimOrWait I wks' (claim_ctx c' w3) key w3 = (qo, w4)" and "clock_wakes clk wks'"
    and "clk w4 < clk w3 + idempotenceKeyTTL" and "\<And>p. qo = Some p \<Longrightarrow> \<not> HasError p"
  shows "ScheduleSandbox sc wks c key w = (Some (Inr s), w3) \<and>
    ScheduleSandbox sc wks' c' key w3 = (Some (Inr s), w4)"
proof -
  note first = schedule_completed [OF assms(1-7)]
  then have r: "recd (clk w4) w3 key = Some s" using assms(10) by blast
  obtain p where p: "qo = Some p" "\<not> Claimed p" "cr_SandboxID p = s"
    using claim_reuses [OF assms(8,9) r] assms(11) by blast
  have "HasExistingSandbox p"
    using claim_shape [OF assms(8) [unfolded p(1)]] assms(11) p by (auto simp: claim_ok_def)
  then have "ScheduleSandbox sc wks' c' key w3 = (Some (Inr s), w4)"
    using schedule_existing [OF assms(8) [unfolded p(1)] assms(2)] p(3) by simp
  then show ?thesis using first by blast
qed

end

section \<open>The deployed scheduler\<close>

text \<open>The Redis protocol and the Kubernetes client over the same two servers.\<close>

locale scheduler_deployment = k8s_client R db clk k pods svcs
  for R :: "'w redis" and db :: "'w \<Rightarrow> redis_db" and clk :: "'w \<Rightarrow> int"
    and k :: "'w k8sClient" and pods :: "'w \<Rightarrow> string \<Rightarrow> string \<rightharpoonup> pod"
    and svcs :: "'w \<Rightarrow> string \<Rightarrow> string \<rightharpoonup> kservice" +
  fixes r :: "'w redisIdem" and ttl :: int and st :: "'w store"
  assumes idem_client: "ri_client r = R" and idem_runtime: "ri_runtime r = runtime k"

sublocale scheduler_deployment \<subseteq> ri: redis_idem r db clk
  by (simp add: redis_idem_def idem_client redis_server_axioms)

context scheduler_deployment
begin

lemma Complete_pods:
  "cr_store q = Some (redis_sink r) \<Longrightarrow> Complete q c s w = (x, w') \<Longrightarrow> pods w' = pods w"
  by (auto simp: Complete_def redis_sink_def CompletePendingCreation_def idem_client
      split: prod.splits option.splits if_splits dest: redis_frames)

lemma Drop_pods:
  "cr_store q = Some (redis_sink r) \<Longrightarrow> Drop q c w = (x, w') \<Longrightarrow> pods w' = pods w"
  by (auto simp: Drop_def redis_sink_def DropPendingCreation_def idem_client
      split: prod.splits option.splits if_splits sum.splits dest: redis_frames)

lemma claim_store:
  "is_ClaimOrWait (redis_IdempotenceStore r) wks c key w = (Some q, w') \<Longrightarrow> cr_store q = Some (redis_sink r)"
  by (simp add: redis_IdempotenceStore_def ClaimOrWait_ok)

end

sublocale scheduler_deployment \<subseteq> sp: scheduler_parts "redis_IdempotenceStore r" "k8s_iface k" clk
  "\<lambda>t w. idem_done r t (db w)" "\<lambda>t w. idem_pending r t (db w)" db
  "pod_live k pods" "pod_readied k pods" "svc_routed k svcs" ttl st "runtime k"
proof (unfold_locales, goal_cases)
  case (1 w' w t)
  then show ?case by simp
next
  case (2 wks c key v q v' c' s w x w')
  then have "pods w' = pods w" using claim_store Complete_pods by blast
  then show ?case by (simp add: pod_live_def pod_of_def fun_eq_iff)
next
  case (3 wks c key v q v' c' w e w')
  then have "pods w' = pods w" using claim_store Drop_pods by blast
  then show ?case by (simp add: pod_live_def pod_of_def fun_eq_iff)
qed

context scheduler_deployment
begin

lemma contract:
  "scheduler_parts (redis_IdempotenceStore r) (k8s_iface k) clk
     (\<lambda>t w. idem_done r t (db w)) (\<lambda>t w. idem_pending r t (db w)) db
     (pod_live k pods) (pod_readied k pods) (svc_routed k svcs)"
  by (rule sp.scheduler_parts_axioms)

end

lemma redis_IdempotenceStore_simps [simp]: "is_ClaimOrWait (redis_IdempotenceStore r) = ClaimOrWait r"
  by (simp add: redis_IdempotenceStore_def)

text \<open>The scheduler as it is wired: over Redis, Kubernetes, a project store.\<close>

definition deployed :: "int \<Rightarrow> 'w redisIdem \<Rightarrow> 'w k8sClient \<Rightarrow> 'w store \<Rightarrow> 'w scheduler" where
  "deployed ttl r k st = scheduler_New ttl (k8s_iface k) (redis_IdempotenceStore r) st (runtime k)"

definition claim_context :: "'w k8sClient \<Rightarrow> ctx \<Rightarrow> 'w \<Rightarrow> ctx" where
  "claim_context k c w = with_timeout c (rt_now (runtime k) w) (seconds 10)"

section \<open>The scheduler on the simulated cluster\<close>

definition sim_sched :: "world scheduler" where
  "sim_sched = deployed (minutes 15) sim_idem sim_client (redis_Store (\<lambda>xs. xs) sim_store)"

interpretation sim_sd: scheduler_deployment sim_redis w_db w_clk sim_client sim_pods sim_svcs sim_idem
  "minutes 15" "redis_Store (\<lambda>xs. xs) sim_store"
  by (simp add: scheduler_deployment_def scheduler_deployment_axioms_def sim_kc.k8s_client_axioms)

lemma sim_deployment: "scheduler_deployment sim_redis w_db w_clk sim_client sim_pods sim_svcs sim_idem"
  by (rule sim_sd.scheduler_deployment_axioms)

section \<open>Properties of the scheduler\<close>

text \<open>
  C2 (one key, one sandbox). A request that wins the claim of its key, creates the pod and
  completes the claim returns the new sandbox: its pod did not exist before and exists
  now, no other pod changed, and the key answers with it for ten minutes. A second request
  with the same key in that time whose claim meets no error returns the same sandbox and
  creates nothing.
\<close>

theorem schedule_once:
  assumes "scheduler_deployment R db clk k pods svcs r" and "key \<noteq> ''''"
    and "ClaimOrWait r wks (claim_context k c w) key w = (Some q, w1)" and "Claimed q"
    and "0 \<le> clk w1" and "clk w1 + 255 < 2 ^ 63"
    and "k8s_ScheduleSandbox k c w1 = (Inr s, w2)" and "Complete q c s w2 = ((None, q'), w3)"
    and "ClaimOrWait r wks' (claim_context k c' w3) key w3 = (qo, w4)" and "clock_wakes clk wks'"
    and "clk w4 < clk w3 + minutes 10" and "\<And>p. qo = Some p \<Longrightarrow> \<not> HasError p"
  shows "ScheduleSandbox (deployed ttl r k st) wks c key w = (Some (Inr s), w3) \<and>
    pods w1 (namespace k) (sandbox_WithPrefix s) = None \<and>
    pods w3 (namespace k) (sandbox_WithPrefix s) \<noteq> None \<and>
    (\<forall>t < clk w3 + minutes 10. idem_done r t (db w3) key = Some s \<and> \<not> idem_pending r t (db w3) key) \<and>
    ScheduleSandbox (deployed ttl r k st) wks' c' key w3 = (Some (Inr s), w4) \<and> db w4 = db w3"
proof -
  note P = scheduler_deployment.contract [OF assms(1)]
  note C = scheduler_deployment.axioms(1) [OF assms(1)]
  have claim: "is_ClaimOrWait (redis_IdempotenceStore r) wks (with_timeout c (rt_now (runtime k) w) (seconds 10)) key w
      = (Some q, w1)" using assms(3) by (simp add: claim_context_def)
  have claim': "is_ClaimOrWait (redis_IdempotenceStore r) wks' (with_timeout c' (rt_now (runtime k) w3) (seconds 10)) key w3
      = (qo, w4)" using assms(9) by (simp add: claim_context_def)
  have cr: "k8_ScheduleSandbox (k8s_iface k) c w1 = (Inr s, w2)" using assms(7) by simp
  have t4: "clk w4 < clk w3 + idempotenceKeyTTL" using assms(11) by (simp add: idempotenceKeyTTL_def)
  note once = scheduler_parts.schedule_completed [OF P claim assms(2,4) cr assms(8,5,6)]
  note twice = scheduler_parts.schedule_twice [OF P claim assms(2,4) cr assms(8,5,6) claim' assms(10) t4 assms(12)]
  have "idem_done r (clk w4) (db w3) key = Some s" using once assms(11) by (simp add: idempotenceKeyTTL_def)
  then have "db w4 = db w3"
    using idempotence.claim_reuses [OF scheduler_parts.axioms(1) [OF P] claim' assms(10)]
      redis_idem.ClaimOrWait_reuses [OF _ assms(9,10), of db] assms(1)
    by (simp add: scheduler_deployment_def scheduler_deployment_axioms_def k8s_client_def cluster_def
        redis_idem_def)
  moreover have "sandbox_IsValid s"
    using once by (simp add: pod_live_def)
  ultimately show ?thesis using once twice
    by (simp add: deployed_def idempotenceKeyTTL_def pod_live_def pod_of_def)
qed

text \<open>A first request on the simulated cluster, stage by stage.\<close>

definition run_claim :: "'w redisIdem \<Rightarrow> 'w k8sClient \<Rightarrow> string \<Rightarrow> 'w \<Rightarrow> 'w claim_result option \<times> 'w" where
  "run_claim r k key w = ClaimOrWait r [] (claim_context k background w) key w"

lemmas sched_eval = run_claim_def claim_context_def idem_eval client_eval sim_eval Let_def

definition sim_s :: sandbox_id where "sim_s = GenerateSandboxID (seconds 1000 + millis 2) 7"

lemma sim_s_plain: "plain_sandbox sim_s" "NewSandboxID (sid sim_s) = Inr sim_s"
  using plain_generated [of "seconds 1000 + millis 2" 7] plain_sandbox_parse [of sim_s]
  by (simp_all add: sim_s_def durations)

lemma sim_s_ne: "sim_s \<noteq> SandboxID ''''"
  using sim_s_plain(1) unfolding plain_sandbox_def sandbox_IsValid_def by (metis sandbox_id.sel)

definition sim_w1 :: world where "sim_w1 = snd (run_claim sim_idem sim_client ''a'' init_world)"
definition sim_w2 :: world where "sim_w2 = snd (k8s_ScheduleSandbox sim_client background sim_w1)"
definition sim_w3 :: world where
  "sim_w3 = snd (CompletePendingCreation sim_idem background ''a'' sim_s sim_w2)"

lemma sim_stage1:
  "run_claim sim_idem sim_client ''a'' init_world =
     (Some ((claim_of sim_idem ''a'')\<lparr>Claimed := True\<rparr>), sim_w1)"
  unfolding sim_w1_def by (simp add: sched_eval)

lemma sim_w1_clk: "w_clk sim_w1 = seconds 1000 + millis 2"
  unfolding sim_w1_def by (simp add: sched_eval)

lemma sim_stage2: "k8s_ScheduleSandbox sim_client background sim_w1 = (Inr sim_s, sim_w2)"
  unfolding sim_w2_def sim_w1_def by (simp add: sched_eval sim_s_def)

lemma sim_stage3:
  "Complete ((claim_of sim_idem ''a'')\<lparr>Claimed := True\<rparr>) background sim_s sim_w2 =
     ((None, (claim_of sim_idem ''a'')\<lparr>Claimed := True, completed := True\<rparr>), sim_w3)"
  unfolding sim_w3_def sim_w2_def sim_w1_def by (simp add: sched_eval)

lemma sim_stage4:
  "fst (run_claim sim_idem sim_client ''a'' sim_w3) = Some ((claim_of sim_idem ''a'')\<lparr>cr_SandboxID := sim_s\<rparr>) \<and>
   w_clk (snd (run_claim sim_idem sim_client ''a'' sim_w3)) < w_clk sim_w3 + minutes 10"
  unfolding sim_w3_def sim_w2_def sim_w1_def
  using sim_s_ne by (simp add: sched_eval sim_s_plain)

theorem schedule_once_witness:
  "\<exists>w4. ScheduleSandbox sim_sched [] background ''a'' init_world = (Some (Inr sim_s), sim_w3) \<and>
     ScheduleSandbox sim_sched [] background ''a'' sim_w3 = (Some (Inr sim_s), w4) \<and>
     sim_pods sim_w3 DefaultNamespace (sandbox_WithPrefix sim_s) \<noteq> None"
proof -
  let ?q4 = "(claim_of sim_idem ''a'')\<lparr>cr_SandboxID := sim_s\<rparr>"
  obtain w4 where 4: "run_claim sim_idem sim_client ''a'' sim_w3 = (Some ?q4, w4)"
    and t4: "w_clk w4 < w_clk sim_w3 + minutes 10"
    using sim_stage4 by (metis prod.exhaust_sel)
  have err: "\<not> HasError p" if "Some ?q4 = Some p" for p
  proof -
    have "p = ?q4" using that by simp
    then show ?thesis by (simp add: HasError_def)
  qed
  have clk: "0 \<le> w_clk sim_w1" "w_clk sim_w1 + 255 < 2 ^ 63"
    by (simp_all add: sim_w1_clk durations)
  show ?thesis
    using schedule_once [OF sim_deployment _ sim_stage1 [unfolded run_claim_def] _ clk sim_stage2 sim_stage3
        4 [unfolded run_claim_def] _ t4 err, of "minutes 15" "redis_Store (\<lambda>xs. xs) sim_store"]
    by (simp add: sim_sched_def)
qed

text \<open>
  A failed creation frees the key. When the claim is held but the pod cannot be
  created, the request fails with that error, and the deferred drop, if Redis answers,
  leaves the key without a claim and without a sandbox that was not there before: the next
  request can claim it.
\<close>

lemma schedule_failure_frees:
  assumes "scheduler_deployment R db clk k pods svcs r" and "key \<noteq> ''''"
    and "ClaimOrWait r wks (claim_context k c w) key w = (Some q, w1)" and "Claimed q"
    and "k8s_ScheduleSandbox k c w1 = (Inl e, w2)" and "Drop q c w2 = (None, w3)"
  shows "ScheduleSandbox (deployed ttl r k st) wks c key w =
      (Some (Inl (errorf_v ''failed to schedule: '' e)), w3) \<and>
    (\<forall>t. \<not> idem_pending r t (db w3) key \<and> idem_done r t (db w3) = idem_done r t (db w1))"
proof -
  note P = scheduler_deployment.contract [OF assms(1)]
  have claim: "is_ClaimOrWait (redis_IdempotenceStore r) wks (with_timeout c (rt_now (runtime k) w) (seconds 10)) key w
      = (Some q, w1)" using assms(3) by (simp add: claim_context_def)
  have cr: "k8_ScheduleSandbox (k8s_iface k) c w1 = (Inl e, w2)" using assms(5) by simp
  show ?thesis
    using scheduler_parts.schedule_failed [OF P claim assms(2,4) cr assms(6)] by (simp add: deployed_def)
qed

text \<open>
  Scheduling goes on without the store. When the claim fails with an error other than
  a timeout (Redis does not answer), the request still creates a pod and returns it, and
  nothing is recorded under the key: every repetition of the request creates one more pod.
\<close>

lemma schedule_without_claim:
  assumes "scheduler_deployment R db clk k pods svcs r" and "key \<noteq> ''''"
    and "ClaimOrWait r wks (claim_context k c w) key w = (Some q, w1)" and "HasError q" and "\<not> IsTimeout q"
    and "k8s_ScheduleSandbox k c w1 = (Inr s, w2)"
  shows "ScheduleSandbox (deployed ttl r k st) wks c key w = (Some (Inr s), w2) \<and>
    pods w2 (namespace k) (sandbox_WithPrefix s) \<noteq> None \<and> db w2 = db w1"
proof -
  note P = scheduler_deployment.contract [OF assms(1)]
  note C = scheduler_deployment.axioms(1) [OF assms(1)]
  have claim: "is_ClaimOrWait (redis_IdempotenceStore r) wks (with_timeout c (rt_now (runtime k) w) (seconds 10)) key w
      = (Some q, w1)" using assms(3) by (simp add: claim_context_def)
  have cr: "k8_ScheduleSandbox (k8s_iface k) c w1 = (Inr s, w2)" using assms(6) by simp
  have "db w2 = db w1" using k8s_client.ScheduleSandbox_frame [OF C assms(6)] by simp
  moreover have "pods w2 (namespace k) (sandbox_WithPrefix s) \<noteq> None"
    using k8s_client.ScheduleSandbox_pods [OF C assms(6)] by auto
  ultimately show ?thesis
    using scheduler_parts.schedule_unclaimed [OF P claim assms(2,4,5) cr] by (simp add: deployed_def)
qed

lemma ScheduleSandbox_waiting:
  "ScheduleSandbox sc wks c key w = (None, w') \<Longrightarrow> key \<noteq> '''' \<and>
     is_ClaimOrWait (sc_idem sc) wks (with_timeout c (rt_now (sc_runtime sc) w) (seconds 10)) key w = (None, w')"
  unfolding ScheduleSandbox_def Let_def deferred_drop_def
  by (auto split: if_splits option.splits prod.splits sum.splits)

text \<open>
  C24 (a schedule request returns). Whatever the other callers, Redis, the API server and
  \<open>select\<close> do, \<open>ScheduleSandbox\<close> returns after at most 50 ticks of the 200ms ticker: its wait
  for another claimant is bounded by the 10 seconds of the claim context.
\<close>

theorem schedule_returns:
  assumes "scheduler_deployment R db clk k pods svcs r"
    and "50 \<le> length wks" and "ticks_from (millis 200) clk (claim_context k c w) (clk w) wks"
  shows "\<exists>x w'. ScheduleSandbox (deployed ttl r k st) wks c key w = (Some x, w')"
proof -
  have I: "redis_idem r db clk" and now: "rt_now (ri_runtime r) = clk" and rt: "rt_now (runtime k) = clk"
    using assms(1) by (simp_all add: scheduler_deployment_def scheduler_deployment_axioms_def k8s_client_def
        cluster_def cluster_axioms_def redis_idem_def)
  obtain D where D: "deadline (claim_context k c w) = Some D" "D \<le> clk w + seconds 10"
    using with_timeout_deadline [of c "clk w" "seconds 10"] by (auto simp: claim_context_def rt)
  have "seconds 10 \<le> int (length wks) * millis 200" using assms(2) by (simp add: durations)
  then have "D \<le> clk w + int (length wks) * millis 200" using D(2) by simp
  moreover have "wks \<noteq> []" using assms(2) by auto
  ultimately have "fst (ClaimOrWait r wks (claim_context k c w) key w) \<noteq> None"
    using redis_idem.ClaimOrWait_returns [OF I now D(1) _ assms(3)] by blast
  then show ?thesis
    using ScheduleSandbox_waiting [of "deployed ttl r k st" wks c key w]
    by (cases "ScheduleSandbox (deployed ttl r k st) wks c key w")
       (fastforce simp: deployed_def scheduler_New_def claim_context_def)
qed

theorem schedule_returns_witness:
  "\<exists>x w'. ScheduleSandbox sim_sched
     (replicate 50 \<lparr>wake_env = (\<lambda>w. w\<lparr>w_clk := max (w_clk w) (seconds 1011)\<rparr>), wake_tick = True\<rparr>)
     background ''a'' init_world = (Some x, w')"
proof -
  let ?wk = "\<lparr>wake_env = (\<lambda>w. w\<lparr>w_clk := max (w_clk w) (seconds 1011)\<rparr>), wake_tick = True\<rparr> :: world wake"
  have "ticks_from (millis 200) w_clk c t (replicate n ?wk)" if "t + int n * millis 200 \<le> seconds 1011" for c t n
    using that by (induction n arbitrary: t) (auto simp: durations algebra_simps le_max_iff_disj)
  then have "ticks_from (millis 200) w_clk (claim_context sim_client background init_world) (w_clk init_world)
      (replicate 50 ?wk)" by (simp add: durations init_world_def)
  then show ?thesis
    using schedule_returns [OF sim_deployment, of "replicate 50 ?wk" background init_world "minutes 15"
        "redis_Store (\<lambda>xs. xs) sim_store" "''a''"]
    by (simp add: sim_sched_def)
qed

section \<open>Releasing and cleaning up\<close>

lemma RemoveSandboxMapping_pods:
  assumes "cluster R db clk (clientset k) pods svcs (runtime k)" and "client rs = R"
    and "RemoveSandboxMapping rs c s w = (e, w')"
  shows "pods w' = pods w"
proof -
  note F = cluster.redis_frame [OF assms(1)]
  obtain x w1 where f: "FindProjectForSandbox rs c s w = (x, w1)" by fastforce
  then have "redis_move R w w1"
    by (auto simp: FindProjectForSandbox_def assms(2) split: prod.splits sum.splits if_splits intro: redis_move.intros)
  moreover have "w' = w1 \<or> redis_move R w1 w'"
    using assms(3) f
    by (auto simp: RemoveSandboxMapping_def assms(2) split: prod.splits sum.splits option.splits intro: redis_move.intros)
  ultimately show ?thesis using F by metis
qed

text \<open>What a release does, by the outcomes of its two halves.\<close>

lemma release_both:
  assumes "scheduler_deployment R db clk k pods svcs r" and "client rs = R"
    and "RemoveSandboxMapping rs c s w = (e1, w1)" and "k8s_ReleaseSandbox k c s w1 = (e2, w2)"
  shows "ReleaseSandbox (deployed ttl r k (redis_Store ord rs)) c s w = (e1 \<noteq> None \<or> e2 \<noteq> None, w2) \<and>
    (e1 = None \<longrightarrow> (\<forall>t < clk w + minutes 5. released_at rs t (db w2) s)) \<and>
    (e2 = None \<longrightarrow> (pods w2 (namespace k) (sandbox_WithPrefix s) = None \<or>
      (\<exists>p. pods w2 (namespace k) (sandbox_WithPrefix s) = Some p \<and> pod_deletion p \<noteq> None)) \<and>
      (\<forall>n. n \<noteq> sandbox_WithPrefix s \<longrightarrow> pods w2 (namespace k) n = pods w (namespace k) n))"
proof -
  have C: "k8s_client R db clk k pods svcs" and S: "redis_server (client rs) db clk"
    and K: "cluster R db clk (clientset k) pods svcs (runtime k)"
    using assms(1,2) by (simp_all add: scheduler_deployment_def k8s_client_def cluster_def)
  have "pods w1 = pods w" by (rule RemoveSandboxMapping_pods [OF K assms(2,3)])
  have d: "db w2 = db w1" using k8s_client.ReleaseSandbox_frame [OF C assms(4)] by simp
  have "released_at rs t (db w1) s" if "e1 = None" and "t < clk w + minutes 5" for t
  proof -
    note P = redis_store_contract [OF S]
    have rm: "st_RemoveSandboxMapping (redis_Store (\<lambda>xs. xs) rs) c s w = (None, w1)"
      using assms(3) that(1) by simp
    obtain t1 where "clk w \<le> t1" "t1 \<le> clk w1" using project_store.remove_maps [OF P rm] by blast
    then show ?thesis using project_store.remove_marks [OF P rm, of t] that(2) by simp
  qed
  moreover have "ReleaseSandbox (deployed ttl r k (redis_Store ord rs)) c s w = (e1 \<noteq> None \<or> e2 \<noteq> None, w2)"
    using assms(3,4) by (simp add: ReleaseSandbox_def deployed_def scheduler_New_def)
  ultimately show ?thesis using d \<open>pods w1 = pods w\<close> release_pod_gone [OF K assms(4)] by simp
qed

text \<open>
  C28 (release does both halves). \<open>ReleaseSandbox\<close> always asks the API server to delete the
  pod, even when the store failed, and warns exactly when one of the two failed. If the
  store answered, the sandbox counts as released for five minutes; if the API server did,
  the pod is gone or terminating and no other pod of the namespace was touched.
\<close>

theorem release_outcome:
  assumes "scheduler_deployment R db clk k pods svcs r" and "client rs = R"
    and "RemoveSandboxMapping rs c s w = (e1, w1)" and "k8s_ReleaseSandbox k c s w1 = (e2, w2)"
  shows "ReleaseSandbox (deployed ttl r k (redis_Store ord rs)) c s w = (e1 \<noteq> None \<or> e2 \<noteq> None, w2) \<and>
    (e1 = None \<longrightarrow> (\<forall>t < clk w + minutes 5. released_at rs t (db w2) s)) \<and>
    (e2 = None \<longrightarrow> (pods w2 (namespace k) (sandbox_WithPrefix s) = None \<or>
      (\<exists>p. pods w2 (namespace k) (sandbox_WithPrefix s) = Some p \<and> pod_deletion p \<noteq> None)) \<and>
      (\<forall>n. n \<noteq> sandbox_WithPrefix s \<longrightarrow> pods w2 (namespace k) n = pods w (namespace k) n))"
  by (rule release_both [OF assms])

theorem release_outcome_witness:
  "\<exists>w2. ReleaseSandbox sim_sched background (SandboxID ''s'') (init_world\<lparr>w_up := False\<rparr>) = (True, w2) \<and>
     (sim_pods w2 DefaultNamespace (sandbox_WithPrefix (SandboxID ''s'')) = None \<or>
      (\<exists>p. sim_pods w2 DefaultNamespace (sandbox_WithPrefix (SandboxID ''s'')) = Some p \<and> pod_deletion p \<noteq> None))"
proof -
  let ?w = "init_world\<lparr>w_up := False\<rparr>"
  obtain e1 w1 where 1: "RemoveSandboxMapping sim_store background (SandboxID ''s'') ?w = (e1, w1)"
    and e1: "e1 \<noteq> None" and w1: "w1 = tick ?w"
    by (simp add: RemoveSandboxMapping_def FindProjectForSandbox_def sim_eval)
  have 2: "k8s_ReleaseSandbox sim_client background (SandboxID ''s'') w1 =
      (None, snd (k8s_ReleaseSandbox sim_client background (SandboxID ''s'') w1))"
    unfolding w1 by (simp add: client_eval sim_eval)
  show ?thesis
    using release_outcome [OF sim_deployment _ 1 2, of "minutes 15" "\<lambda>xs. xs"] e1
    by (auto simp: sim_sched_def)
qed

text \<open>
  The cleanup as a relation between worlds: the pages it saw (with the world each was
  listed in), how it ended, and the world it leaves. A page's sandboxes are released in
  order before the next page is listed.
\<close>

definition valid_ids :: "string list \<Rightarrow> sandbox_id list" where
  "valid_ids ns = List.map_filter (\<lambda>n. case NewSandboxID n of Inl _ \<Rightarrow> None | Inr s \<Rightarrow> Some s) ns"

definition release_all :: "'w scheduler \<Rightarrow> ctx \<Rightarrow> sandbox_id list \<Rightarrow> 'w \<Rightarrow> 'w" where
  "release_all sc c ss w = fold (\<lambda>s v. snd (ReleaseSandbox sc c s v)) ss w"

inductive cleanup_pages ::
  "'w scheduler \<Rightarrow> ctx \<Rightarrow> int \<Rightarrow> string \<Rightarrow> 'w \<Rightarrow> ('w \<times> string list) list \<Rightarrow> err option \<Rightarrow> 'w \<Rightarrow> bool"
  for sc c cutoff where
  cp_error: "k8_GetPodsOlderThan (sc_k8s sc) c cutoff tok w = (Inl e, w1) \<Longrightarrow>
    cleanup_pages sc c cutoff tok w [] (Some (errorf_v ''failed to get old pods: '' e)) w1"
| cp_last: "k8_GetPodsOlderThan (sc_k8s sc) c cutoff tok w = (Inr (ns, ''''), w1) \<Longrightarrow>
    cleanup_pages sc c cutoff tok w [(w, ns)] None (release_all sc c (valid_ids ns) w1)"
| cp_more: "k8_GetPodsOlderThan (sc_k8s sc) c cutoff tok w = (Inr (ns, tok'), w1) \<Longrightarrow> tok' \<noteq> '''' \<Longrightarrow>
    cleanup_pages sc c cutoff tok' (release_all sc c (valid_ids ns) w1) pgs e w2 \<Longrightarrow>
    cleanup_pages sc c cutoff tok w ((w, ns) # pgs) e w2"

lemma release_pods_eq:
  "release_pods sc c ns n w = (n + int (length (valid_ids ns)), release_all sc c (valid_ids ns) w)"
  by (induction ns arbitrary: n w)
     (auto simp: valid_ids_def release_all_def List.map_filter_simps split: sum.splits)

definition count_ids :: "('w \<times> string list) list \<Rightarrow> int" where
  "count_ids pgs = int (length (valid_ids (concat (map snd pgs))))"

lemma valid_ids_append: "valid_ids (xs @ ys) = valid_ids xs @ valid_ids ys"
  by (induction xs) (simp_all add: valid_ids_def List.map_filter_simps split: option.splits)

lemma count_ids_simps [simp]:
  "count_ids [] = 0"
  "count_ids ((w, ns) # pgs) = int (length (valid_ids ns)) + count_ids pgs"
  by (simp_all add: count_ids_def valid_ids_append)
     (simp add: valid_ids_def List.map_filter_simps)

lemma cleanup_loop_pages:
  "cleanup_loop fuel sc c cutoff tok n w = (Some (m, e), w') \<Longrightarrow>
     \<exists>pgs. cleanup_pages sc c cutoff tok w pgs e w' \<and> m = n + count_ids pgs \<and> length pgs \<le> fuel"
proof (induction fuel arbitrary: tok n w)
  case 0
  then show ?case by simp
next
  case (Suc fuel)
  obtain x w1 where g: "k8_GetPodsOlderThan (sc_k8s sc) c cutoff tok w = (x, w1)" by fastforce
  show ?case
  proof (cases x)
    case (Inl e')
    then show ?thesis using Suc.prems g
      by (intro exI [of _ "[]"]) (auto intro: cp_error)
  next
    case (Inr y)
    obtain ns tok' where y: "y = (ns, tok')" by (cases y)
    let ?w2 = "release_all sc c (valid_ids ns) w1" and ?n = "n + int (length (valid_ids ns))"
    show ?thesis
    proof (cases "tok' = ''''")
      case True
      then show ?thesis using Suc.prems g Inr y
        by (intro exI [of _ "[(w, ns)]"]) (auto simp: release_pods_eq intro: cp_last)
    next
      case False
      then have "cleanup_loop fuel sc c cutoff tok' ?n ?w2 = (Some (m, e), w')"
        using Suc.prems g Inr y by (simp add: release_pods_eq)
      then obtain pgs where "cleanup_pages sc c cutoff tok' ?w2 pgs e w'" "m = ?n + count_ids pgs" "length pgs \<le> fuel"
        using Suc.IH by blast
      then show ?thesis using g Inr y False
        by (intro exI [of _ "(w, ns) # pgs"]) (auto intro: cp_more)
    qed
  qed
qed

lemma cleanup_loop_terminates:
  assumes "\<And>tok v ns tok' v'. k8_GetPodsOlderThan (sc_k8s sc) c cutoff tok v = (Inr (ns, tok'), v') \<Longrightarrow>
    tok' = '''' \<or> rank tok' < (rank tok :: nat)"
  shows "rank tok < fuel \<Longrightarrow> fst (cleanup_loop fuel sc c cutoff tok n w) \<noteq> None"
proof (induction fuel arbitrary: tok n w)
  case 0
  then show ?case by simp
next
  case (Suc fuel)
  obtain x w1 where g: "k8_GetPodsOlderThan (sc_k8s sc) c cutoff tok w = (x, w1)" by fastforce
  show ?case
  proof (cases x)
    case (Inl e)
    then show ?thesis using g by simp
  next
    case (Inr y)
    obtain ns tok' where y: "y = (ns, tok')" by (cases y)
    have "tok' = '''' \<or> rank tok' < fuel" using assms g Inr y Suc.prems by fastforce
    then show ?thesis using g Inr y Suc.IH by (auto simp: release_pods_eq)
  qed
qed

lemma cleanup_pages_listed:
  "cleanup_pages sc c cutoff tok w pgs e w' \<Longrightarrow> (v, ns) \<in> set pgs \<Longrightarrow>
     \<exists>tok tok' v'. k8_GetPodsOlderThan (sc_k8s sc) c cutoff tok v = (Inr (ns, tok'), v')"
  by (induction rule: cleanup_pages.induct) auto

text \<open>
  C11 (the cleanup). With fuel beyond the rank of the first continuation token, where each
  token the server returns is empty or of smaller rank, the cleanup returns. It releases,
  page by page and in order, exactly the sandboxes of the pages; the number it reports is
  that of their parseable pod names; and every name on a page is that of a pod that existed
  when the page was listed, is managed by the scheduler, and was created longer ago than
  the time to live.
\<close>

theorem cleanup_old_only:
  assumes "scheduler_deployment R db clk k pods svcs r"
    and "\<And>tok v ns tok' v'. k8s_GetPodsOlderThan k c (clk w - ttl) tok v = (Inr (ns, tok'), v') \<Longrightarrow>
      tok' = '''' \<or> rank tok' < (rank tok :: nat)"
    and "rank '''' < fuel"
  shows "\<exists>n e w' pgs. CleanupExpiredSandboxes fuel (deployed ttl r k st) c w = (Some (n, e), w') \<and>
    cleanup_pages (deployed ttl r k st) c (clk w - ttl) '''' w pgs e w' \<and> n = count_ids pgs \<and>
    (\<forall>(v, ns) \<in> set pgs. \<forall>name \<in> set ns. \<exists>p. pods v (namespace k) name = Some p \<and>
      pod_labels p ''managed-by'' = Some ''scheduler'' \<and> pod_created p < clk w - ttl)"
proof -
  let ?sc = "deployed ttl r k st" and ?cut = "clk w - ttl"
  have K: "kube_server (clientset k) pods svcs" and rt: "rt_now (runtime k) = clk"
    using assms(1) by (simp_all add: scheduler_deployment_def k8s_client_def cluster_def cluster_axioms_def)
  have sc: "k8_GetPodsOlderThan (sc_k8s ?sc) = k8s_GetPodsOlderThan k"
    by (simp add: deployed_def scheduler_New_def)
  have run: "CleanupExpiredSandboxes fuel ?sc c w = cleanup_loop fuel ?sc c ?cut '''' 0 w"
    by (simp add: CleanupExpiredSandboxes_def deployed_def scheduler_New_def rt)
  have "fst (cleanup_loop fuel ?sc c ?cut '''' 0 w) \<noteq> None"
    using cleanup_loop_terminates [of ?sc c ?cut rank "''''" fuel 0 w] assms(2,3) by (simp add: sc)
  then obtain n e w' where l: "cleanup_loop fuel ?sc c ?cut '''' 0 w = (Some (n, e), w')"
    by (metis option.exhaust prod.exhaust_sel)
  obtain pgs where pgs: "cleanup_pages ?sc c ?cut '''' w pgs e w'" "n = 0 + count_ids pgs"
    using cleanup_loop_pages [OF l] by blast
  have "\<exists>p. pods v (namespace k) name = Some p \<and> pod_labels p ''managed-by'' = Some ''scheduler'' \<and>
      pod_created p < ?cut" if vns: "(v, ns) \<in> set pgs" and nm: "name \<in> set ns" for v ns name
  proof -
    obtain tok tok' v' where "k8s_GetPodsOlderThan k c ?cut tok v = (Inr (ns, tok'), v')"
      using cleanup_pages_listed [OF pgs(1) vns] by (auto simp: sc)
    then obtain items where i: "kb_pod_list (clientset k) c (namespace k) (older_list_options tok) v = (Inr (items, tok'), v')"
      and ns: "ns = map pod_name (filter (\<lambda>p. pod_created p < ?cut) items)"
      by (auto simp: k8s_GetPodsOlderThan_def split: prod.splits sum.splits)
    then obtain p where "p \<in> set items" "pod_name p = name" "pod_created p < ?cut" using nm by auto
    then show ?thesis using kube_server.pod_list_ok [OF K i, of p]
      by (auto simp: older_list_options_def Let_def)
  qed
  then show ?thesis using run l pgs by fastforce
qed

text \<open>Two pods, of which the first is older than the time to live.\<close>

definition sim_two_pods :: world where
  "sim_two_pods = init_world\<lparr>w_pods :=
     [((DefaultNamespace, ''sandbox-s''), sim_pending\<lparr>pod_created := 0\<rparr>),
      ((DefaultNamespace, ''sandbox-t''),
        (sandbox_pod sim_client (SandboxID ''t''))\<lparr>pod_created := seconds 900\<rparr>)]\<rparr>"

theorem cleanup_old_only_witness:
  "\<exists>w'. CleanupExpiredSandboxes 1 sim_sched background sim_two_pods = (Some (1, None), w') \<and>
     sim_pods w' DefaultNamespace ''sandbox-s'' = None \<and> sim_pods w' DefaultNamespace ''sandbox-t'' \<noteq> None"
proof -
  let ?R = "CleanupExpiredSandboxes 1 sim_sched background sim_two_pods"
  have "tok' = ''''" if "k8s_GetPodsOlderThan sim_client background cut tok v = (Inr (ns, tok'), v')" for cut tok v ns tok' v'
    using that
    by (auto simp: k8s_GetPodsOlderThan_def sim_kube_def split: prod.splits sum.splits dest!: kube_call_cases)
  then have r: "\<exists>n e w'. ?R = (Some (n, e), w')"
    using cleanup_old_only [OF sim_deployment, where rank = "\<lambda>_. 0" and fuel = 1 and c = background
        and w = sim_two_pods and ttl = "minutes 15" and st = "redis_Store (\<lambda>xs. xs) sim_store"]
    by (fastforce simp: sim_sched_def)
  have s: "sandbox_WithPrefix (SandboxID ''s'') = ''sandbox-s''" "NewSandboxID ''sandbox-s'' = Inr (SandboxID ''s'')"
    "sandbox_WithPrefix (SandboxID ''t'') = ''sandbox-t''"
    by (simp_all add: sandbox_WithPrefix_def sandbox_IsValid_def SandboxPrefix_def NewSandboxID_def trim_prefix_def)
  have x: "fst ?R = Some (1, None) \<and> sim_pods (snd ?R) DefaultNamespace ''sandbox-s'' = None \<and>
    sim_pods (snd ?R) DefaultNamespace ''sandbox-t'' \<noteq> None"
    by (simp add: CleanupExpiredSandboxes_def sim_sched_def deployed_def scheduler_New_def k8s_GetPodsOlderThan_def k8s_iface_def
       sim_two_pods_def sim_pending_def client_eval sim_eval s ReleaseSandbox_def RemoveSandboxMapping_def FindProjectForSandbox_def redis_Store_def removal_pipe_def)
  then show ?thesis using r by (metis prod.exhaust_sel fst_conv snd_conv)
qed

section \<open>What a schedule request touches\<close>

text \<open>
  Any relation between worlds that the store's calls and the creation of a pod keep is kept
  by the whole request.
\<close>

lemma Complete_steps:
  assumes "Complete q c s w = ((e, q'), w')"
    and "\<And>v. Q v v" and "\<And>st e v v'. cr_store q = Some st \<Longrightarrow> snk_Complete st c (cr_key q) s v = (e, v') \<Longrightarrow> Q v v'"
  shows "Q w w' \<and> cr_store q' = cr_store q \<and> cr_key q' = cr_key q"
  using assms by (auto simp: Complete_def split: if_splits option.splits prod.splits)

lemma Drop_steps:
  assumes "Drop q c w = (e, w')"
    and "\<And>v. Q v v" and "\<And>st e v v'. cr_store q = Some st \<Longrightarrow> snk_Drop st c (cr_key q) v = (e, v') \<Longrightarrow> Q v v'"
  shows "Q w w'"
  using assms by (auto simp: Drop_def split: if_splits option.splits prod.splits)

lemma ScheduleSandbox_steps:
  assumes "ScheduleSandbox sc wks c key w = (x, w')"
    and refl: "\<And>v. Q v v" and trans: "\<And>u v z. Q u v \<Longrightarrow> Q v z \<Longrightarrow> Q u z"
    and claim: "\<And>c' qo v v'. is_ClaimOrWait (sc_idem sc) wks c' key v = (qo, v') \<Longrightarrow> Q v v'"
    and create: "\<And>y v v'. k8_ScheduleSandbox (sc_k8s sc) c v = (y, v') \<Longrightarrow> Q v v'"
    and complete: "\<And>q st c' k s e u u' v v'. is_ClaimOrWait (sc_idem sc) wks c' key u = (Some q, u') \<Longrightarrow>
      cr_store q = Some st \<Longrightarrow> snk_Complete st c k s v = (e, v') \<Longrightarrow> Q v v'"
    and drop: "\<And>q st c' k e u u' v v'. is_ClaimOrWait (sc_idem sc) wks c' key u = (Some q, u') \<Longrightarrow>
      cr_store q = Some st \<Longrightarrow> snk_Drop st c k v = (e, v') \<Longrightarrow> Q v v'"
  shows "Q w w'"
proof (cases "key = ''''")
  case True
  then show ?thesis using assms(1) refl by (simp add: ScheduleSandbox_def)
next
  case False
  let ?cc = "with_timeout c (rt_now (sc_runtime sc) w) (seconds 10)"
  obtain qo w1 where cl: "is_ClaimOrWait (sc_idem sc) wks ?cc key w = (qo, w1)" by fastforce
  have q1: "Q w w1" using claim [OF cl] .
  show ?thesis
  proof (cases qo)
    case None
    then show ?thesis using assms(1) False cl q1 by (simp add: ScheduleSandbox_def Let_def)
  next
    case (Some q)
    note cl' = cl [unfolded Some]
    have dr: "Q v v'" if "Drop p c v = (e, v')" and "cr_store p = cr_store q" for p e v v'
      using Drop_steps [where Q = Q, OF that(1) refl] drop [OF cl'] that(2) by metis
    obtain y w2 where y: "k8_ScheduleSandbox (sc_k8s sc) c w1 = (y, w2)" by fastforce
    have q2: "Q w w2" using trans [OF q1 create [OF y]] .
    have cm: "Q w v \<and> cr_store p = cr_store q" if "Complete q c s w2 = ((e, p), v)" for s e p v
      using Complete_steps [where Q = Q, OF that refl] complete [OF cl'] trans [OF q2] by metis
    have dd: "Q v v'" if "deferred_drop p c z v = (u, v')" and "cr_store p = cr_store q" for p z v u v'
      using that dr by (auto simp: deferred_drop_def Let_def split: prod.splits)
    have fin: "Q w v'" if "Complete q c s w2 = ((e, p), v)" and "deferred_drop p c z v = (u, v')" for s e p v z u v'
      using cm [OF that(1)] trans [OF _ dd [OF that(2)]] by blast
    show ?thesis
      using assms(1) False cl Some y trans [OF q1 dd] trans [OF q2 dd] fin
      by (auto simp: ScheduleSandbox_def Let_def split: if_splits sum.splits prod.splits)
  qed
qed

text \<open>
  The backend is asked for a sandbox at most once: a relation \<open>P\<close> that one creation may
  make holds from the start to the end, when all the rest only makes moves \<open>Q\<close> that \<open>P\<close>
  absorbs.
\<close>

lemma ScheduleSandbox_creates_once:
  assumes "ScheduleSandbox sc wks c key w = (x, w')"
    and refl: "\<And>v. Q v v" and trans: "\<And>u v z. Q u v \<Longrightarrow> Q v z \<Longrightarrow> Q u z"
    and incl: "\<And>u v. Q u v \<Longrightarrow> P u v" and before: "\<And>u v z. Q u v \<Longrightarrow> P v z \<Longrightarrow> P u z"
    and after: "\<And>u v z. P u v \<Longrightarrow> Q v z \<Longrightarrow> P u z"
    and create: "\<And>y v v'. k8_ScheduleSandbox (sc_k8s sc) c v = (y, v') \<Longrightarrow> P v v'"
    and claim: "\<And>c' qo v v'. is_ClaimOrWait (sc_idem sc) wks c' key v = (qo, v') \<Longrightarrow> Q v v'"
    and complete: "\<And>q st c' k s e u u' v v'. is_ClaimOrWait (sc_idem sc) wks c' key u = (Some q, u') \<Longrightarrow>
      cr_store q = Some st \<Longrightarrow> snk_Complete st c k s v = (e, v') \<Longrightarrow> Q v v'"
    and drop: "\<And>q st c' k e u u' v v'. is_ClaimOrWait (sc_idem sc) wks c' key u = (Some q, u') \<Longrightarrow>
      cr_store q = Some st \<Longrightarrow> snk_Drop st c k v = (e, v') \<Longrightarrow> Q v v'"
  shows "P w w'"
proof (cases "key = ''''")
  case True
  then show ?thesis using assms(1) incl [OF refl] by (simp add: ScheduleSandbox_def)
next
  case False
  let ?cc = "with_timeout c (rt_now (sc_runtime sc) w) (seconds 10)"
  obtain qo w1 where cl: "is_ClaimOrWait (sc_idem sc) wks ?cc key w = (qo, w1)" by fastforce
  have q1: "Q w w1" using claim [OF cl] .
  show ?thesis
  proof (cases qo)
    case None
    then show ?thesis using assms(1) False cl incl [OF q1] by (simp add: ScheduleSandbox_def Let_def)
  next
    case (Some q)
    note cl' = cl [unfolded Some]
    have dr: "Q v v'" if "Drop p c v = (e, v')" and "cr_store p = cr_store q" for p e v v'
      using Drop_steps [where Q = Q, OF that(1) refl] drop [OF cl'] that(2) by metis
    obtain y w2 where y: "k8_ScheduleSandbox (sc_k8s sc) c w1 = (y, w2)" by fastforce
    have p2: "P w w2" using before [OF q1 create [OF y]] .
    have cm: "Q w2 v \<and> cr_store p = cr_store q" if "Complete q c s w2 = ((e, p), v)" for s e p v
      using Complete_steps [where Q = Q, OF that refl] complete [OF cl'] by metis
    have dd: "Q v v'" if "deferred_drop p c z v = (u, v')" and "cr_store p = cr_store q" for p z v u v'
      using that dr by (auto simp: deferred_drop_def Let_def split: prod.splits)
    have fin: "P w v'" if "Complete q c s w2 = ((e, p), v)" and "deferred_drop p c z v = (u, v')" for s e p v z u v'
      using cm [OF that(1)] after [OF p2] trans dd [OF that(2)] by metis
    show ?thesis
      using assms(1) False cl Some y incl [OF q1] incl [OF trans [OF q1 dd]] after [OF p2 dd] p2 fin
      by (auto simp: ScheduleSandbox_def Let_def split: if_splits sum.splits prod.splits)
  qed
qed

section \<open>Time and identifiers of a request\<close>

context scheduler_deployment
begin

lemma Complete_clock:
  assumes "Complete q c s w = ((e, q'), w')" and "cr_store q = Some (redis_sink r)"
  shows "clk w \<le> clk w' \<and> cr_store q' = Some (redis_sink r)"
  using Complete_steps [where Q = "\<lambda>v v'. clk v \<le> clk v'", OF assms(1)] assms(2)
    ri.CompletePendingCreation_db by (fastforce simp: redis_sink_def)

lemma Drop_clock:
  assumes "Drop q c w = (e, w')" and "cr_store q = Some (redis_sink r)"
  shows "clk w \<le> clk w'"
  using Drop_steps [where Q = "\<lambda>v v'. clk v \<le> clk v'", OF assms(1)] assms(2)
    ri.DropPendingCreation_db by (fastforce simp: redis_sink_def)

text \<open>
  A successful request returns what its claim found, or the pod it created in between.
\<close>

lemma schedule_result:
  assumes "ScheduleSandbox (deployed ttl r k st) wks c key w = (Some (Inr s), w')"
    and "clock_wakes clk wks"
  shows "s \<noteq> SandboxID '''' \<and> clk w \<le> clk w' \<or>
    (\<exists>w1 w2. clk w \<le> clk w1 \<and> k8s_ScheduleSandbox k c w1 = (Inr s, w2) \<and> clk w2 \<le> clk w')"
proof -
  let ?cc = "with_timeout c (rt_now (runtime k) w) (seconds 10)"
  obtain q w1 where q: "ClaimOrWait r wks ?cc key w = (Some q, w1)" and key: "key \<noteq> ''''"
    using assms(1) by (auto simp: ScheduleSandbox_def deployed_def scheduler_New_def Let_def
        split: if_splits option.splits prod.splits)
  have st: "cr_store q = Some (redis_sink r)" using q claim_store by simp
  have c1: "clk w \<le> clk w1" using ri.ClaimOrWait_clock [OF q assms(2)] .
  have dd: "clk v \<le> clk v'" if "deferred_drop p c z v = (u, v')" "cr_store p = Some (redis_sink r)" for p z v u v'
    using that Drop_clock by (auto simp: deferred_drop_def split: prod.splits)
  show ?thesis
  proof (cases "HasExistingSandbox q")
    case True
    then have "deferred_drop q c (Inr (cr_SandboxID q)) w1 = (Some (Inr s), w')"
      using assms(1) q key by (simp add: ScheduleSandbox_def deployed_def scheduler_New_def Let_def)
    then show ?thesis using dd [OF _ st] c1 True
      by (fastforce simp: HasExistingSandbox_def deferred_drop_def split: prod.splits)
  next
    case False
    obtain y w2 where y: "k8s_ScheduleSandbox k c w1 = (y, w2)" by fastforce
    show ?thesis
    proof (cases y)
      case (Inl e)
      then show ?thesis using assms(1) q key False y
        by (auto simp: ScheduleSandbox_def deployed_def scheduler_New_def k8s_iface_def Let_def deferred_drop_def
            split: if_splits prod.splits)
    next
      case (Inr s')
      obtain e q' w3 where cm: "Complete q c s' w2 = ((e, q'), w3)" by (metis prod.exhaust)
      have "s' = s \<and> deferred_drop q' c (Inr s) w3 = (Some (Inr s), w')"
        using assms(1) q key False y Inr cm
        by (auto simp: ScheduleSandbox_def deployed_def scheduler_New_def k8s_iface_def Let_def deferred_drop_def
            split: if_splits prod.splits)
      then have "s' = s" "clk w2 \<le> clk w'"
        using Complete_clock [OF cm st] dd by (auto intro: order_trans)
      then show ?thesis using y Inr c1 by blast
    qed
  qed
qed

text \<open>What a request returns is a sandbox identifier, as long as the clock is in its range.\<close>

lemma schedule_valid:
  assumes "ScheduleSandbox (deployed ttl r k st) wks c key w = (Some (Inr s), w')"
    and "clock_wakes clk wks" and "0 \<le> clk w" and "clk w' + 255 < 2 ^ 63"
  shows "s \<noteq> SandboxID ''''"
  using schedule_result [OF assms(1,2)]
proof (elim disjE exE conjE)
  fix w1 w2
  assume w: "clk w \<le> clk w1" "k8s_ScheduleSandbox k c w1 = (Inr s, w2)" "clk w2 \<le> clk w'"
  have "clk w1 \<le> clk w2" using ScheduleSandbox_frame [OF w(2)] by simp
  then have "plain_sandbox s"
    using be.create_ok [of c w1 s w2] w assms(3,4) by (simp add: k8s_iface_def)
  then show ?thesis by (auto simp: plain_sandbox_def sandbox_IsValid_def)
qed

end

end
