(* ===== verification/Sandbox_Pool.thy ===== *)
theory Sandbox_Pool
  imports Pool_Store Scheduler_Service
begin

text \<open>
  The sandbox pool service, \<open>scheduler/internal/sandboxpool/service.go\<close>.
\<close>

record 'w pool_service =
  pl_store :: "'w pool_store"
  pl_scheduler :: "'w scheduler"
  pl_runtime :: "'w runtime"
  PoolEnabled :: bool
  PoolSize :: int
  PoolMaxPending :: int

text \<open>
  Taking a sandbox also starts a maintenance goroutine, whatever the answer: the second
  component of the result says so.
\<close>

definition GetSandbox :: "'w pool_service \<Rightarrow> ctx \<Rightarrow> string \<Rightarrow> ('w, (err + sandbox_id) \<times> bool) op" where
  "GetSandbox ps c idempotenceKey w =
     (let (x, w1) = ps_GetReadySandbox (pl_store ps) c w in ((x, True), w1))"

fun check_pending_loop :: "'w pool_service \<Rightarrow> ctx \<Rightarrow> sandbox_id list \<Rightarrow> 'w \<Rightarrow> 'w" where
  "check_pending_loop ps c [] w = w"
| "check_pending_loop ps c (s # ss) w =
     (case IsSandboxReady (pl_scheduler ps) c s w of
        (Inl _, w1) \<Rightarrow> check_pending_loop ps c ss w1
      | (Inr ready, w1) \<Rightarrow>
          (if ready
           then case ps_RemovePendingSandbox (pl_store ps) c s w1 of
             (Some _, w2) \<Rightarrow> check_pending_loop ps c ss w2
           | (None, w2) \<Rightarrow>
               (case ps_AddReadySandbox (pl_store ps) c s w2 of
                  (_, w3) \<Rightarrow> check_pending_loop ps c ss w3)
           else check_pending_loop ps c ss w1))"

definition checkPendingSandboxes :: "'w pool_service \<Rightarrow> ctx \<Rightarrow> ('w, err option) op" where
  "checkPendingSandboxes ps c w =
     (case ps_GetPendingSandboxes (pl_store ps) c w of
        (Inl e, w1) \<Rightarrow> (Some (errorf_v ''failed to get pending sandboxes: '' e), w1)
      | (Inr pending, w1) \<Rightarrow> (None, check_pending_loop ps c pending w1))"

definition pool_key :: "int \<Rightarrow> string" where
  "pool_key nanos = ''pool:'' @ show_int nanos"

definition createPoolSandbox ::
  "'w pool_service \<Rightarrow> 'w wake list \<Rightarrow> ctx \<Rightarrow> ('w, err option option) op" where
  "createPoolSandbox ps wks c w =
     (case ScheduleSandbox (pl_scheduler ps) wks c (pool_key (rt_now (pl_runtime ps) w)) w of
        (None, w1) \<Rightarrow> (None, w1)
      | (Some (Inl e), w1) \<Rightarrow> (Some (Some (errorf_v ''failed to schedule sandbox: '' e)), w1)
      | (Some (Inr s), w1) \<Rightarrow>
          (case ps_AddPendingSandbox (pl_store ps) c s w1 of
             (Some e, w2) \<Rightarrow> (Some (Some (errorf_v ''failed to add to pending pool: '' e)), w2)
           | (None, w2) \<Rightarrow> (Some None, w2)))"

text \<open>The creation loop from index \<open>i\<close>, \<open>n\<close> rounds left; an error does not stop it.\<close>

fun create_loop ::
  "'w pool_service \<Rightarrow> (nat \<Rightarrow> 'w wake list) \<Rightarrow> ctx \<Rightarrow> nat \<Rightarrow> nat \<Rightarrow> ('w, unit option) op" where
  "create_loop ps wks c i 0 w = (Some (), w)"
| "create_loop ps wks c i (Suc n) w =
     (case createPoolSandbox ps (wks i) c w of
        (None, w1) \<Rightarrow> (None, w1)
      | (Some _, w1) \<Rightarrow> create_loop ps wks c (Suc i) n w1)"

definition go_min :: "int \<Rightarrow> int \<Rightarrow> int" where
  "go_min a b = (if a < b then a else b)"

text \<open>The value of a count whose error is ignored: the zero value.\<close>

definition count_or_zero :: "err + int \<Rightarrow> int" where
  "count_or_zero x = (case x of Inl _ \<Rightarrow> 0 | Inr n \<Rightarrow> n)"

text \<open>How many sandboxes to create, given the counts after the check of the pending ones.\<close>

definition to_create :: "'w pool_service \<Rightarrow> int \<Rightarrow> int \<Rightarrow> int" where
  "to_create ps readyCount pendingCount =
     (let needed = PoolSize ps - readyCount - pendingCount
      in if needed \<le> 0 then 0
         else if pendingCount \<ge> PoolMaxPending ps then 0
         else go_min needed (PoolMaxPending ps - pendingCount))"

text \<open>
  \<open>maintainPool\<close>; \<open>busy\<close> says that another maintenance holds the mutex. The result is
  \<open>None\<close> while a creation still waits for its claim.
\<close>

definition maintainPool ::
  "'w pool_service \<Rightarrow> (nat \<Rightarrow> 'w wake list) \<Rightarrow> bool \<Rightarrow> ctx \<Rightarrow> ('w, err option option) op" where
  "maintainPool ps wks busy sctx w =
     (if busy then (Some None, w)
      else let c = with_timeout sctx (rt_now (pl_runtime ps) w) (seconds 30) in
        (case ps_CountReadySandboxes (pl_store ps) c w of
           (Inl e, w1) \<Rightarrow> (Some (Some (errorf_v ''failed to get ready sandboxes count: '' e)), w1)
         | (Inr ready0, w1) \<Rightarrow>
             (case ps_CountPendingSandboxes (pl_store ps) c w1 of
                (Inl e, w2) \<Rightarrow>
                  (Some (Some (errorf_v ''failed to get pending sandboxes count: '' e)), w2)
              | (Inr pending0, w2) \<Rightarrow>
                  (let w3 = (if pending0 > 0 then snd (checkPendingSandboxes ps c w2) else w2);
                       (r1, w4) = ps_CountReadySandboxes (pl_store ps) c w3;
                       (p1, w5) = ps_CountPendingSandboxes (pl_store ps) c w4
                   in case create_loop ps wks c 0
                             (nat (to_create ps (count_or_zero r1) (count_or_zero p1))) w5 of
                        (None, w6) \<Rightarrow> (None, w6)
                      | (Some _, w6) \<Rightarrow> (Some None, w6)))))"

text \<open>The goroutine that \<open>GetSandbox\<close> starts; an error is only logged.\<close>

definition triggerMaintenance ::
  "'w pool_service \<Rightarrow> (nat \<Rightarrow> 'w wake list) \<Rightarrow> bool \<Rightarrow> ctx \<Rightarrow> ('w, unit option) op" where
  "triggerMaintenance ps wks busy sctx w =
     (case maintainPool ps wks busy sctx w of
        (None, w') \<Rightarrow> (None, w')
      | (Some e, w') \<Rightarrow> (Some (), w'))"

text \<open>The second pair of counts of a maintenance, on which its decision rests.\<close>

definition recount :: "'w pool_service \<Rightarrow> ctx \<Rightarrow> 'w \<Rightarrow> (err + int) \<times> (err + int)" where
  "recount ps c w =
     (let w1 = snd (ps_CountReadySandboxes (pl_store ps) c w);
          (p0, w2) = ps_CountPendingSandboxes (pl_store ps) c w1;
          w3 = (if count_or_zero p0 > 0 then snd (checkPendingSandboxes ps c w2) else w2);
          (r1, w4) = ps_CountReadySandboxes (pl_store ps) c w3;
          (p1, w5) = ps_CountPendingSandboxes (pl_store ps) c w4
      in (r1, p1))"

text \<open>The state in which it decides.\<close>

definition decision_world :: "'w pool_service \<Rightarrow> ctx \<Rightarrow> 'w \<Rightarrow> 'w" where
  "decision_world ps c w =
     (let w1 = snd (ps_CountReadySandboxes (pl_store ps) c w);
          (p0, w2) = ps_CountPendingSandboxes (pl_store ps) c w1;
          w3 = (if count_or_zero p0 > 0 then snd (checkPendingSandboxes ps c w2) else w2);
          w4 = snd (ps_CountReadySandboxes (pl_store ps) c w3)
      in snd (ps_CountPendingSandboxes (pl_store ps) c w4))"

text \<open>The sandboxes that the creation loop puts into the pending queue.\<close>

fun created ::
  "'w pool_service \<Rightarrow> (nat \<Rightarrow> 'w wake list) \<Rightarrow> ctx \<Rightarrow> nat \<Rightarrow> nat \<Rightarrow> 'w \<Rightarrow> sandbox_id list" where
  "created ps wks c i 0 w = []"
| "created ps wks c i (Suc n) w =
     (case ScheduleSandbox (pl_scheduler ps) (wks i) c (pool_key (rt_now (pl_runtime ps) w)) w of
        (None, w1) \<Rightarrow> []
      | (Some (Inl e), w1) \<Rightarrow> created ps wks c (Suc i) n w1
      | (Some (Inr s), w1) \<Rightarrow>
          (case ps_AddPendingSandbox (pl_store ps) c s w1 of
             (Some e, w2) \<Rightarrow> created ps wks c (Suc i) n w2
           | (None, w2) \<Rightarrow> s # created ps wks c (Suc i) n w2))"

lemma created_le: "length (created ps wks c i n w) \<le> n"
  by (induction n arbitrary: i w)
    (auto split: prod.split option.split sum.split intro: le_SucI)

definition maintenance_ctx :: "'w pool_service \<Rightarrow> ctx \<Rightarrow> 'w \<Rightarrow> ctx" where
  "maintenance_ctx ps sctx w = with_timeout sctx (rt_now (pl_runtime ps) w) (seconds 30)"

text \<open>
  The periodic job: wake-ups of its \<open>select\<close> (the ticker fired, or the service's context
  was cancelled); \<open>None\<close> when a round still waits for a claim.
\<close>

fun runMaintenanceJob ::
  "'w pool_service \<Rightarrow> (nat \<Rightarrow> 'w wake list) \<Rightarrow> ctx \<Rightarrow> 'w wake list \<Rightarrow> 'w \<Rightarrow> 'w option" where
  "runMaintenanceJob ps wks sctx [] w = Some w"
| "runMaintenanceJob ps wks sctx (wk # rest) w =
     (let w1 = wake_env wk w
      in if wake_tick wk
         then case maintainPool ps wks False sctx w1 of
           (None, w2) \<Rightarrow> None
         | (Some _, w2) \<Rightarrow> runMaintenanceJob ps wks sctx rest w2
         else Some w1)"

text \<open>\<open>Start\<close>: the job runs only when the pool is enabled.\<close>

definition Start ::
  "'w pool_service \<Rightarrow> (nat \<Rightarrow> 'w wake list) \<Rightarrow> ctx \<Rightarrow> 'w wake list \<Rightarrow> 'w \<Rightarrow> 'w option" where
  "Start ps wks sctx rest w =
     (if \<not> PoolEnabled ps then Some w else runMaintenanceJob ps wks sctx rest w)"

text \<open>At every round of the job the second count of pending sandboxes answers.\<close>

fun job_counts_answer ::
  "'w pool_service \<Rightarrow> (nat \<Rightarrow> 'w wake list) \<Rightarrow> ctx \<Rightarrow> 'w wake list \<Rightarrow> 'w \<Rightarrow> bool" where
  "job_counts_answer ps wks sctx [] w \<longleftrightarrow> True"
| "job_counts_answer ps wks sctx (wk # rest) w \<longleftrightarrow>
     (let w1 = wake_env wk w
      in if wake_tick wk
         then (case snd (recount ps (maintenance_ctx ps sctx w1) w1) of Inl _ \<Rightarrow> False | Inr _ \<Rightarrow> True) \<and>
           job_counts_answer ps wks sctx rest (snd (maintainPool ps wks False sctx w1))
         else True)"

text \<open>
  A triggered maintenance does not look at \<open>PoolEnabled\<close>: a request to a disabled pool,
  whose job \<open>Start\<close> does not run, fills it like an enabled one.
\<close>

lemma check_pending_loop_PoolEnabled:
  "check_pending_loop (ps\<lparr>PoolEnabled := b\<rparr>) c ss w = check_pending_loop ps c ss w"
  by (induction ss arbitrary: w) (simp_all split: prod.split sum.split option.split)

lemma createPoolSandbox_PoolEnabled: "createPoolSandbox (ps\<lparr>PoolEnabled := b\<rparr>) = createPoolSandbox ps"
  by (simp add: fun_eq_iff createPoolSandbox_def cong del: option.case_cong_weak prod.case_cong_weak sum.case_cong_weak)

lemma create_loop_PoolEnabled:
  "create_loop (ps\<lparr>PoolEnabled := b\<rparr>) wks c i n w = create_loop ps wks c i n w"
  by (induction n arbitrary: i w) (simp_all add: createPoolSandbox_PoolEnabled split: prod.split option.split)

lemma trigger_ignores_enabled:
  "triggerMaintenance (ps\<lparr>PoolEnabled := b\<rparr>) wks busy sctx w = triggerMaintenance ps wks busy sctx w"
  by (simp add: triggerMaintenance_def maintainPool_def checkPendingSandboxes_def check_pending_loop_PoolEnabled
      create_loop_PoolEnabled to_create_def Let_def
      cong del: option.case_cong_weak prod.case_cong_weak sum.case_cong_weak if_weak_cong)

section \<open>Maintenance over the contract of the pool\<close>

text \<open>
  What the maintenance relies on beside the pool's contract: checking and scheduling
  sandboxes leave the two queues alone (\<open>okw\<close>: the wake-ups for which that is so), and
  looking at queues and sandboxes makes no sandbox ready.
\<close>

locale pool_maintenance = pool_contract P inv ready pend now
  for P :: "'w pool_store" and inv :: "'w \<Rightarrow> bool"
    and ready :: "'w \<Rightarrow> (int \<times> string) list" and pend :: "'w \<Rightarrow> (int \<times> string) list"
    and now :: "'w \<Rightarrow> int" +
  fixes sched :: "'w scheduler" and okw :: "'w wake list \<Rightarrow> bool"
    and readied :: "'w \<Rightarrow> sandbox_id \<Rightarrow> bool"
  assumes schedule_keeps: "inv w \<Longrightarrow> okw wks \<Longrightarrow> ScheduleSandbox sched wks c key w = (x, w') \<Longrightarrow>
      inv w' \<and> ready w' = ready w \<and> pend w' = pend w"
    and check_keeps: "inv w \<Longrightarrow> IsSandboxReady sched c s w = (b, w') \<Longrightarrow>
      inv w' \<and> ready w' = ready w \<and> pend w' = pend w"
    and check_answer: "IsSandboxReady sched c s w = (Inr True, w') \<Longrightarrow> readied w s"
    and check_readied: "IsSandboxReady sched c s w = (b, w') \<Longrightarrow> readied w' = readied w"
    and count_ready_readied: "inv w \<Longrightarrow> ps_CountReadySandboxes P c w = (n, w') \<Longrightarrow> readied w' = readied w"
    and count_pending_readied: "inv w \<Longrightarrow> ps_CountPendingSandboxes P c w = (n, w') \<Longrightarrow> readied w' = readied w"
    and list_pending_readied: "inv w \<Longrightarrow> ps_GetPendingSandboxes P c w = (y, w') \<Longrightarrow> readied w' = readied w"
begin

abbreviation total :: "'w \<Rightarrow> int" where
  "total w \<equiv> int (length (ready w)) + int (length (pend w))"

text \<open>Moving one pending sandbox never makes the two queues longer.\<close>

lemma move_one:
  assumes "inv w" and "sid s \<in> members (pend w)"
    and "ps_RemovePendingSandbox P c s w = (None, w1)" and "ps_AddReadySandbox P c s w1 = (e, w2)"
  shows "inv w2 \<and> total w2 \<le> total w \<and> length (pend w2) < length (pend w) \<and>
    members (pend w2) = members (pend w) - {sid s}"
proof -
  have 1: "inv w1" "ready w1 = ready w" "pend w1 = zdel (sid s) (pend w)"
    using remove_pending [OF assms(1,3)] by auto
  have 2: "inv w2" "pend w2 = pend w1" "length (ready w2) \<le> Suc (length (ready w1))"
    using add_ready [OF 1(1) assms(4)] by (auto simp: length_zadd zdel_def le_SucI)
  have "distinct (map snd (pend w))" using queues_wf [OF assms(1)] by (simp add: zset_wf_def)
  then have "Suc (length (zdel (sid s) (pend w))) = length (pend w)"
    using length_zdel assms(2) by (simp add: members_def)
  then show ?thesis using 1 2 by (simp add: members_zdel)
qed

text \<open>One round of the check.\<close>

lemma check_round_bound:
  assumes "pl_store ps = P" and "pl_scheduler ps = sched" and "inv w" and "sid s \<in> members (pend w)"
  shows "\<exists>w'. check_pending_loop ps c (s # ss) w = check_pending_loop ps c ss w' \<and> inv w' \<and>
    total w' \<le> total w \<and> length (pend w') \<le> length (pend w) \<and> members (pend w) - {sid s} \<subseteq> members (pend w')"
proof -
  obtain b w1 where b: "IsSandboxReady sched c s w = (b, w1)" by fastforce
  have k: "inv w1" "ready w1 = ready w" "pend w1 = pend w" using check_keeps [OF assms(3) b] by auto
  obtain e w2 where rm: "ps_RemovePendingSandbox P c s w1 = (e, w2)" by fastforce
  obtain e' w3 where ad: "ps_AddReadySandbox P c s w2 = (e', w3)" by fastforce
  consider "b \<noteq> Inr True" | er where "b = Inr True" "e = Some er" | "b = Inr True" "e = None" by (cases e) auto
  then show ?thesis
  proof cases
    case 1
    then show ?thesis using b k assms(1,2) by (intro exI [of _ w1]) (auto split: sum.splits)
  next
    case 2
    have "inv w2" "ready w2 = ready w1" "pend w2 = zdel (sid s) (pend w1) \<or> pend w2 = pend w1"
      using remove_pending [OF k(1) rm] by auto
    moreover have "length (zdel (sid s) (pend w1)) \<le> length (pend w1)" by (simp add: zdel_def)
    ultimately show ?thesis using 2 b rm k assms(1,2)
      by (intro exI [of _ w2]) (auto simp: members_zdel)
  next
    case 3
    note m = move_one [OF k(1) _ rm [unfolded 3(2)] ad]
    show ?thesis using 3 m b rm ad k assms by (intro exI [of _ w3]) (auto simp: split_beta)
  qed
qed

lemma check_loop_bound:
  "inv w \<Longrightarrow> distinct ss \<Longrightarrow> sid ` set ss \<subseteq> members (pend w) \<Longrightarrow>
     inv (check_pending_loop ps c ss w) \<and> total (check_pending_loop ps c ss w) \<le> total w \<and>
     length (pend (check_pending_loop ps c ss w)) \<le> length (pend w)"
  if "pl_store ps = P" and "pl_scheduler ps = sched"
proof (induction ss arbitrary: w)
  case Nil
  then show ?case by simp
next
  case (Cons s ss)
  have s: "sid s \<in> members (pend w)" using Cons.prems by auto
  have "sid ` set ss \<subseteq> members (pend w) - {sid s}"
    using Cons.prems by (auto dest: sandbox_id.expand)
  then show ?case
    using check_round_bound [OF that Cons.prems(1) s, of c ss] Cons.IH Cons.prems(2) by fastforce
qed

lemma check_bound:
  assumes "pl_store ps = P" and "pl_scheduler ps = sched" and "inv w" and "plain_queue (pend w)"
  shows "inv (snd (checkPendingSandboxes ps c w)) \<and> total (snd (checkPendingSandboxes ps c w)) \<le> total w \<and>
    length (pend (snd (checkPendingSandboxes ps c w))) \<le> length (pend w)"
proof -
  obtain y w1 where y: "ps_GetPendingSandboxes P c w = (y, w1)" by fastforce
  note l = list_pending [OF assms(3) y]
  have m: "distinct (parse_members (pend w))" "sid ` set (parse_members (pend w)) \<subseteq> members (pend w1)"
    using parse_members_wf [OF assms(4)] queues_wf [OF assms(3)] l by simp_all
  show ?thesis
    using check_loop_bound [OF assms(1,2) _ m, of c] l y assms(1)
    by (auto simp: checkPendingSandboxes_def split: sum.splits)
qed

lemma create_loop_bound:
  "pl_store ps = P \<Longrightarrow> pl_scheduler ps = sched \<Longrightarrow> inv w \<Longrightarrow> (\<And>i. okw (wks i)) \<Longrightarrow>
   create_loop ps wks c i n w = (x, w') \<Longrightarrow>
     inv w' \<and> ready w' = ready w \<and> length (pend w') \<le> length (pend w) + n"
proof (induction n arbitrary: i w)
  case 0
  then show ?case by simp
next
  case (Suc n)
  obtain y w1 where s: "ScheduleSandbox sched (wks i) c (pool_key (rt_now (pl_runtime ps) w)) w = (y, w1)"
    by fastforce
  have k: "inv w1" "ready w1 = ready w" "pend w1 = pend w"
    using schedule_keeps [OF Suc.prems(3) Suc.prems(4) s] by auto
  obtain z w2 where cr: "createPoolSandbox ps (wks i) c w = (z, w2)" by fastforce
  have w2: "inv w2" "ready w2 = ready w" "length (pend w2) \<le> Suc (length (pend w))"
  proof -
    have "w2 = w1 \<or> (\<exists>e sb. ps_AddPendingSandbox P c sb w1 = (e, w2))"
      using cr s Suc.prems(1,2)
      by (auto simp: createPoolSandbox_def split: option.splits sum.splits prod.splits)
    then show "inv w2" "ready w2 = ready w" "length (pend w2) \<le> Suc (length (pend w))"
      using k add_pending [OF k(1)] by (auto simp: length_zadd zdel_def le_SucI dest!: add_pending [OF k(1)])
  qed
  show ?case
  proof (cases z)
    case None
    then show ?thesis using Suc.prems(5) cr w2 by simp
  next
    case (Some z')
    then have "create_loop ps wks c (Suc i) n w2 = (x, w')" using Suc.prems(5) cr by simp
    then show ?thesis using Suc.IH [OF Suc.prems(1,2) w2(1) Suc.prems(4)] w2 by fastforce
  qed
qed

text \<open>When every creation succeeds with a new sandbox, each makes the pending queue longer.\<close>

lemma create_loop_created:
  "pl_store ps = P \<Longrightarrow> pl_scheduler ps = sched \<Longrightarrow> inv w \<Longrightarrow> (\<And>i. okw (wks i)) \<Longrightarrow>
   create_loop ps wks c i n w = (x, w') \<Longrightarrow> length (created ps wks c i n w) = n \<Longrightarrow>
   distinct (created ps wks c i n w) \<Longrightarrow> (\<forall>s \<in> set (created ps wks c i n w). sid s \<notin> members (pend w)) \<Longrightarrow>
     x = Some () \<and> ready w' = ready w \<and> length (pend w') = length (pend w) + n \<and>
     members (pend w') = members (pend w) \<union> sid ` set (created ps wks c i n w)"
proof (induction n arbitrary: i w)
  case 0
  then show ?case by simp
next
  case (Suc n)
  let ?key = "pool_key (rt_now (pl_runtime ps) w)"
  obtain y w1 where s: "ScheduleSandbox sched (wks i) c ?key w = (y, w1)" by fastforce
  have short: "length (created ps wks c (Suc i) n v) \<noteq> Suc n" for v
    using created_le [of ps wks c "Suc i" n v] by simp
  obtain sb where y: "y = Some (Inr sb)"
    using Suc.prems(1,2,6) s short by (cases y) (auto split: sum.splits)
  obtain e w2 where a: "ps_AddPendingSandbox P c sb w1 = (e, w2)" by fastforce
  have e: "e = None" using Suc.prems(1,2,6) s short y a by (cases e) auto
  have cr: "created ps wks c i (Suc n) w = sb # created ps wks c (Suc i) n w2"
    using Suc.prems(1,2) s y a e by simp
  have k: "inv w1" "ready w1 = ready w" "pend w1 = pend w"
    using schedule_keeps [OF Suc.prems(3) Suc.prems(4) s] by auto
  have q: "inv w2" "ready w2 = ready w" "pend w2 = zadd (now w1) (sid sb) (pend w)"
    using add_pending [OF k(1) a] k e by auto
  note all = Suc.prems(6-8) [unfolded cr]
  have new: "sid sb \<notin> members (pend w)" using all(3) by simp
  have m: "members (pend w2) = insert (sid sb) (members (pend w))" "length (pend w2) = Suc (length (pend w))"
    using q(3) new zdel_absent [of "sid sb" "pend w"] by (simp_all add: members_zadd length_zadd) (simp add: members_def)
  have run: "create_loop ps wks c (Suc i) n w2 = (x, w')"
    using Suc.prems(1,2,5) s y a e by (simp add: createPoolSandbox_def)
  have "\<forall>s \<in> set (created ps wks c (Suc i) n w2). sid s \<notin> members (pend w2)"
    using all(2,3) m(1) by (auto dest: sandbox_id.expand)
  then show ?case
    using Suc.IH [OF Suc.prems(1,2) q(1) Suc.prems(4) run] all(1,2) q(2) m unfolding cr by auto
qed

text \<open>
  The stages of a maintenance: it stops at its first counts, or it decides on the second
  ones, taken after the pending sandboxes were checked, and creates.
\<close>

lemma maintain_stages:
  assumes "pl_store ps = P" and "pl_scheduler ps = sched" and "inv w" and "plain_queue (pend w)"
    and "maintainPool ps wks False sctx w = (x, w')"
  obtains (stopped) "inv w'" "ready w' = ready w" "pend w' = pend w" "\<exists>e. x = Some (Some e)"
  | (decided) v v0 r1 p1 y where "inv v" and "total v \<le> total w" and "length (pend v) \<le> length (pend w)"
    and "inv v0" and "ready v0 = ready w" and "pend v0 = pend w" and "readied v0 = readied w"
    and "ready v = ready v0 \<and> pend v = pend v0 \<or>
       ready v = ready (snd (checkPendingSandboxes ps (maintenance_ctx ps sctx w) v0)) \<and>
       pend v = pend (snd (checkPendingSandboxes ps (maintenance_ctx ps sctx w) v0))"
    and "recount ps (maintenance_ctx ps sctx w) w = (r1, p1)"
    and "\<And>n. r1 = Inr n \<Longrightarrow> n = int (length (ready v))" and "\<And>m. p1 = Inr m \<Longrightarrow> m = int (length (pend v))"
    and "create_loop ps wks (maintenance_ctx ps sctx w) 0
        (nat (to_create ps (count_or_zero r1) (count_or_zero p1))) v = (y, w')"
    and "x = map_option (\<lambda>_. None) y" and "v = decision_world ps (maintenance_ctx ps sctx w) w"
proof -
  let ?c = "maintenance_ctx ps sctx w"
  obtain a w1 where 1: "ps_CountReadySandboxes P ?c w = (a, w1)" by fastforce
  note k1 = count_ready [OF assms(3) 1]
  obtain b w2 where 2: "ps_CountPendingSandboxes P ?c w1 = (b, w2)" by fastforce
  have k2: "inv w2" "ready w2 = ready w" "pend w2 = pend w" "readied w2 = readied w"
    using count_pending [OF _ 2] k1 count_ready_readied [OF assms(3) 1] count_pending_readied [OF _ 2] by auto
  show thesis
  proof (cases "(\<exists>e. a = Inl e) \<or> (\<exists>e. b = Inl e)")
    case True
    then show thesis
      using assms(5) 1 2 assms(1) k1 k2
      by (intro stopped) (auto simp: maintainPool_def Let_def maintenance_ctx_def split: sum.splits)
  next
    case False
    then obtain r0 p0 where a: "a = Inr r0" and b: "b = Inr p0" by (metis sum.exhaust_sel)
    define w3 where "w3 = (if p0 > 0 then snd (checkPendingSandboxes ps ?c w2) else w2)"
    have k3: "inv w3" "total w3 \<le> total w" "length (pend w3) \<le> length (pend w)"
      using check_bound [OF assms(1,2) k2(1), of ?c] k2 assms(4) by (auto simp: w3_def)
    obtain r1 w4 where 4: "ps_CountReadySandboxes P ?c w3 = (r1, w4)" by fastforce
    note k4 = count_ready [OF k3(1) 4]
    obtain p1 w5 where 5: "ps_CountPendingSandboxes P ?c w4 = (p1, w5)" by fastforce
    have k5: "inv w5" "ready w5 = ready w3" "pend w5 = pend w3"
      using count_pending [OF _ 5] k4 by auto
    obtain y v' where cl: "create_loop ps wks ?c 0
        (nat (to_create ps (count_or_zero r1) (count_or_zero p1))) w5 = (y, v')" by fastforce
    have run: "x = map_option (\<lambda>_. None) y \<and> w' = v'"
      using assms(5) 1 2 4 5 a b cl assms(1)
      by (cases y) (auto simp: maintainPool_def Let_def w3_def maintenance_ctx_def split: prod.splits if_splits)
    show thesis
    proof (rule decided [of w5 w2 r1 p1 y])
      show "recount ps ?c w = (r1, p1)"
        using 1 2 4 5 b assms(1) by (simp add: recount_def Let_def w3_def count_or_zero_def)
      show "w5 = decision_world ps ?c w"
        using 1 2 4 5 b assms(1) by (simp add: decision_world_def Let_def w3_def count_or_zero_def)
      show "ready w5 = ready w2 \<and> pend w5 = pend w2 \<or>
         ready w5 = ready (snd (checkPendingSandboxes ps ?c w2)) \<and>
         pend w5 = pend (snd (checkPendingSandboxes ps ?c w2))"
        using k5 by (auto simp: w3_def)
      show "n = int (length (ready w5))" if "r1 = Inr n" for n using k4 k5 that by simp
      show "m = int (length (pend w5))" if "p1 = Inr m" for m
        using count_pending [OF _ 5] k4 k5 that by simp
      show "create_loop ps wks ?c 0
          (nat (to_create ps (count_or_zero r1) (count_or_zero p1))) w5 = (y, w')" using cl run by simp
    qed (use k2 k3 k5 run in simp_all)
  qed
qed

text \<open>
  The maintenance respects both limits and never grows a pool that is over them, provided
  its second counts answer. Whether they do or not, it creates no more than the smaller
  limit.
\<close>

lemma to_create_le:
  "0 \<le> m \<Longrightarrow> 0 \<le> n \<Longrightarrow> to_create ps n m \<le> max 0 (min (PoolSize ps) (PoolMaxPending ps))"
  by (auto simp: to_create_def go_min_def Let_def)

lemma maintain_bounds:
  assumes "pl_store ps = P" and "pl_scheduler ps = sched" and "inv w" and "plain_queue (pend w)"
    and "\<And>i. okw (wks i)" and "maintainPool ps wks False sctx w = (x, w')"
  shows "(\<forall>n m. recount ps (maintenance_ctx ps sctx w) w = (Inr n, Inr m) \<longrightarrow>
      total w' \<le> max (total w) (PoolSize ps) \<and>
      int (length (pend w')) \<le> max (int (length (pend w))) (PoolMaxPending ps)) \<and>
    total w' \<le> total w + max 0 (min (PoolSize ps) (PoolMaxPending ps))"
  using assms(1-4,6)
proof (cases rule: maintain_stages)
  case stopped
  then show ?thesis by simp
next
  case (decided v v0 r1 p1 y)
  note b = create_loop_bound [OF assms(1,2) decided(1) assms(5) decided(12)]
  have "0 \<le> count_or_zero r1" using decided(10) by (cases r1) (simp_all add: count_or_zero_def)
  moreover have "0 \<le> count_or_zero p1" using decided(11) by (cases p1) (simp_all add: count_or_zero_def)
  ultimately have c: "to_create ps (count_or_zero r1) (count_or_zero p1)
      \<le> max 0 (min (PoolSize ps) (PoolMaxPending ps))" using to_create_le by blast
  have "total w' \<le> max (total w) (PoolSize ps) \<and>
      int (length (pend w')) \<le> max (int (length (pend w))) (PoolMaxPending ps)"
    if "r1 = Inr n" "p1 = Inr m" for n m
    using that b decided(2,3,10,11) by (auto simp: to_create_def go_min_def Let_def count_or_zero_def split: if_splits)
  moreover have "total w' \<le> total w + max 0 (min (PoolSize ps) (PoolMaxPending ps))"
    using b c decided(2) by auto
  ultimately show ?thesis using decided(9) by auto
qed

text \<open>A maintenance whose calls succeed fills the pool, as far as the pending queue may grow.\<close>

lemma maintain_fills:
  assumes "pl_store ps = P" and "pl_scheduler ps = sched" and "inv w" and "plain_queue (pend w)"
    and "\<And>i. okw (wks i)" and "maintainPool ps wks False sctx w = (Some None, w')"
    and "recount ps (maintenance_ctx ps sctx w) w = (Inr n, Inr m)"
    and v: "v = decision_world ps (maintenance_ctx ps sctx w) w"
    and ids: "ids = created ps wks (maintenance_ctx ps sctx w) 0 (nat (to_create ps n m)) v"
    and all: "length ids = nat (to_create ps n m)" "distinct ids" "\<forall>s \<in> set ids. sid s \<notin> members (pend v)"
  shows "int (length (ready w')) = n \<and> int (length (pend w')) = m + int (length ids) \<and>
    members (pend w') = members (pend v) \<union> sid ` set ids \<and>
    (PoolSize ps \<le> total w' \<or> PoolMaxPending ps \<le> int (length (pend w')))"
  using assms(1-4,6)
proof (cases rule: maintain_stages)
  case stopped
  then show ?thesis by simp
next
  case (decided v' v0 r1 p1 y)
  have eq: "v' = v" "r1 = Inr n" "p1 = Inr m" using decided(9,14) assms(7) v by simp_all
  then have q: "n = int (length (ready v))" "m = int (length (pend v))" using decided(10,11) by simp_all
  have "create_loop ps wks (maintenance_ctx ps sctx w) 0 (nat (to_create ps n m)) v = (y, w')"
    using decided(12) eq by (simp add: count_or_zero_def)
  then have c: "y = Some ()" "ready w' = ready v" "length (pend w') = length (pend v) + nat (to_create ps n m)"
      "members (pend w') = members (pend v) \<union> sid ` set ids"
    using create_loop_created [where wks = wks, OF assms(1,2) _ assms(5)] decided(1) eq(1) all unfolding ids by blast+
  have "PoolSize ps \<le> total w' \<or> PoolMaxPending ps \<le> int (length (pend w'))"
    using c(2,3) q by (auto simp: to_create_def go_min_def Let_def)
  then show ?thesis using c q all(1) by simp
qed

text \<open>A pool full of pending sandboxes that are not ready stays as it is.\<close>

lemma check_loop_stuck:
  "pl_store ps = P \<Longrightarrow> pl_scheduler ps = sched \<Longrightarrow> inv w \<Longrightarrow>
   (\<And>s. s \<in> set ss \<Longrightarrow> \<not> readied w s) \<Longrightarrow>
     inv (check_pending_loop ps c ss w) \<and> ready (check_pending_loop ps c ss w) = ready w \<and>
     pend (check_pending_loop ps c ss w) = pend w"
proof (induction ss arbitrary: w)
  case Nil
  then show ?case by simp
next
  case (Cons s ss)
  obtain b w1 where b: "IsSandboxReady sched c s w = (b, w1)" by fastforce
  have "b \<noteq> Inr True" using check_answer [of c s w] b Cons.prems(4) [of s] by auto
  then show ?case
    using check_keeps [OF Cons.prems(3) b] check_readied [OF b] Cons.IH [of w1] Cons.prems b
    by (auto split: sum.splits)
qed

lemma maintain_stuck:
  assumes "pl_store ps = P" and "pl_scheduler ps = sched" and "inv w" and "plain_queue (pend w)"
    and "maintainPool ps wks False sctx w = (x, w')"
    and "snd (recount ps (maintenance_ctx ps sctx w) w) = Inr m"
    and "PoolMaxPending ps \<le> int (length (pend w))"
    and "\<And>s. s \<in> set (parse_members (pend w)) \<Longrightarrow> \<not> readied w s"
  shows "inv w' \<and> ready w' = ready w \<and> pend w' = pend w \<and>
    ((\<exists>e. x = Some (Some e)) \<or> x = Some None \<and> w' = decision_world ps (maintenance_ctx ps sctx w) w)"
  using assms(1-5)
proof (cases rule: maintain_stages)
  case stopped
  then show ?thesis by simp
next
  case (decided v v0 r1 p1 y)
  let ?c = "maintenance_ctx ps sctx w"
  obtain l u where l: "ps_GetPendingSandboxes P ?c v0 = (l, u)" by fastforce
  note lp = list_pending [OF decided(4) l] list_pending_readied [OF decided(4) l]
  have "ready (snd (checkPendingSandboxes ps ?c v0)) = ready v0 \<and>
      pend (snd (checkPendingSandboxes ps ?c v0)) = pend v0"
    using check_loop_stuck [OF assms(1,2), of u "parse_members (pend w)" ?c] lp l assms(1,8) decided
    by (auto simp: checkPendingSandboxes_def split: sum.splits)
  then have q: "ready v = ready w" "pend v = pend w" using decided by auto
  have "p1 = Inr m" using assms(6) decided(9) by simp
  then have "to_create ps (count_or_zero r1) (count_or_zero p1) = 0"
    using decided(11) q assms(7) by (simp add: to_create_def Let_def count_or_zero_def)
  then show ?thesis using decided(1,12-14) q by auto
qed

end

section \<open>The deployed pool\<close>

lemma pool_key_foreign:
  "rp_keyPrefix pl = ri_keyPrefix r \<Longrightarrow> foreign_key r (getKey pl x)"
  by (simp add: foreign_key_def getKey_def idem_keys)

lemma queues_keys:
  assumes "keys D' (getKey pl readySandboxesKey) = keys D (getKey pl readySandboxesKey)"
    and "keys D' (getKey pl pendingSandboxesKey) = keys D (getKey pl pendingSandboxesKey)"
  shows "ready_queue pl D' = ready_queue pl D \<and> pending_queue pl D' = pending_queue pl D \<and>
    pool_inv pl D' = pool_inv pl D"
  using assms
  by (simp add: ready_queue_def pending_queue_def pool_inv_def zmembers_def lookup_def no_expiry_def)

definition same_queues :: "'w redisPool \<Rightarrow> ('w \<Rightarrow> redis_db) \<Rightarrow> 'w \<Rightarrow> 'w \<Rightarrow> bool" where
  "same_queues pl db w w' \<longleftrightarrow> (\<forall>x. keys (db w') (getKey pl x) = keys (db w) (getKey pl x))"

locale pool_deployment = scheduler_deployment R db clk k pods svcs r ttl st
  for R :: "'w redis" and db :: "'w \<Rightarrow> redis_db" and clk :: "'w \<Rightarrow> int"
    and k :: "'w k8sClient" and pods :: "'w \<Rightarrow> string \<Rightarrow> string \<rightharpoonup> pod"
    and svcs :: "'w \<Rightarrow> string \<Rightarrow> string \<rightharpoonup> kservice"
    and r :: "'w redisIdem" and ttl :: int and st :: "'w store" +
  fixes pl :: "'w redisPool"
  assumes pool_client: "rp_client pl = R" and pool_prefix: "rp_keyPrefix pl = ri_keyPrefix r"

sublocale pool_deployment \<subseteq> rp: redis_pool pl db clk
  by (simp add: redis_pool_def pool_client redis_server_axioms)

context pool_deployment
begin

lemma schedule_same_queues:
  assumes "run_wakes r db clk wks" and "ScheduleSandbox (deployed ttl r k st) wks c key w = (x, w')"
  shows "same_queues pl db w w'"
proof (rule ScheduleSandbox_steps [where Q = "same_queues pl db", OF assms(2)], goal_cases)
  case (3 c' qo v v')
  then show ?case
    using ri.claim_keeps_key [OF _ assms(1)] pool_key_foreign [OF pool_prefix]
    by (simp add: same_queues_def deployed_def scheduler_New_def)
next
  case (4 y v v')
  then show ?case
    using ScheduleSandbox_frame by (simp add: same_queues_def deployed_def scheduler_New_def)
next
  case (5 q s c' key' sb e u u' v v')
  then have "s = redis_sink r"
    using claim_store by (fastforce simp: deployed_def scheduler_New_def)
  then show ?case
    using 5(3) ri.Complete_keeps_key pool_key_foreign [OF pool_prefix]
    by (simp add: same_queues_def redis_sink_def)
next
  case (6 q s c' key' e u u' v v')
  then have "s = redis_sink r"
    using claim_store by (fastforce simp: deployed_def scheduler_New_def)
  then show ?case
    using 6(3) ri.Drop_keeps_key pool_key_foreign [OF pool_prefix]
    by (simp add: same_queues_def redis_sink_def)
qed (simp_all add: same_queues_def)

lemma counting_pods:
  "ps_CountReadySandboxes (redis_PoolStore pl) c w = (n, w') \<Longrightarrow> pods w' = pods w"
  "ps_CountPendingSandboxes (redis_PoolStore pl) c w = (n, w') \<Longrightarrow> pods w' = pods w"
  "ps_GetPendingSandboxes (redis_PoolStore pl) c w = (y, w') \<Longrightarrow> pods w' = pods w"
  by (auto simp: redis_PoolStore_def CountReadySandboxes_def CountPendingSandboxes_def
      GetPendingSandboxes_def pool_client split: prod.splits sum.splits dest: redis_frames)

lemma check_db:
  assumes "IsSandboxReady (deployed ttl r k st) c s w = (b, w')"
  shows "db w' = db w"
  using assms IsSandboxReady_frame
  by (auto simp: IsSandboxReady_def deployed_def scheduler_New_def split: if_splits prod.splits sum.splits)

text \<open>Checking sandboxes and moving them between the queues leaves the pods alone.\<close>

lemma check_pods: "IsSandboxReady (deployed ttl r k st) c s w = (b, w') \<Longrightarrow> pods w' = pods w"
  using IsSandboxReady_frame
  by (auto simp: IsSandboxReady_def deployed_def scheduler_New_def split: if_splits prod.splits sum.splits)

lemma moving_pods:
  "ps_RemovePendingSandbox (redis_PoolStore pl) c s w = (e, w') \<Longrightarrow> pods w' = pods w"
  "ps_AddReadySandbox (redis_PoolStore pl) c s w = (e, w') \<Longrightarrow> pods w' = pods w"
  "ps_AddPendingSandbox (redis_PoolStore pl) c s w = (e, w') \<Longrightarrow> pods w' = pods w"
  by (auto simp: redis_PoolStore_def RemovePendingSandbox_def AddReadySandbox_def AddPendingSandbox_def
      pool_client Let_def split: prod.splits sum.splits if_splits dest: redis_frames)

lemma check_loop_pods:
  assumes "pl_store ps = redis_PoolStore pl" and "pl_scheduler ps = deployed ttl r k st"
  shows "pods (check_pending_loop ps c ss w) = pods w"
proof (induction ss arbitrary: w)
  case Nil
  then show ?case by simp
next
  case (Cons s ss)
  obtain b w1 where b: "IsSandboxReady (deployed ttl r k st) c s w = (b, w1)" by fastforce
  obtain e w2 where rm: "ps_RemovePendingSandbox (redis_PoolStore pl) c s w1 = (e, w2)" by fastforce
  obtain e' w3 where ad: "ps_AddReadySandbox (redis_PoolStore pl) c s w2 = (e', w3)" by fastforce
  have "pods w1 = pods w" "pods w2 = pods w1" "pods w3 = pods w2"
    using check_pods [OF b] moving_pods(1) [OF rm] moving_pods(2) [OF ad] by simp_all
  then show ?case using Cons assms b rm ad by (auto split: sum.splits option.splits)
qed

lemma checkPending_pods:
  assumes "pl_store ps = redis_PoolStore pl" and "pl_scheduler ps = deployed ttl r k st"
  shows "pods (snd (checkPendingSandboxes ps c w)) = pods w"
  using check_loop_pods [OF assms] counting_pods(3)
  by (auto simp: checkPendingSandboxes_def assms(1) split: prod.splits sum.splits)

text \<open>
  So a maintenance stops at its first counts with the pods as they were, or decides with the
  pods as they were and runs the creation loop.
\<close>

lemma decision_pods:
  assumes "pl_store ps = redis_PoolStore pl" and "pl_scheduler ps = deployed ttl r k st"
  shows "pods (decision_world ps c w) = pods w"
proof -
  have c: "pods (snd (ps_CountReadySandboxes (redis_PoolStore pl) c v)) = pods v"
      "pods (snd (ps_CountPendingSandboxes (redis_PoolStore pl) c v)) = pods v" for v
    using counting_pods(1,2) by (metis prod.collapse)+
  then show ?thesis using checkPending_pods [OF assms, of c]
    by (simp add: decision_world_def Let_def assms(1) split_beta)
qed

lemma maintain_pods:
  assumes "pl_store ps = redis_PoolStore pl" and "pl_scheduler ps = deployed ttl r k st"
    and "maintainPool ps wks False sctx w = (x, w')"
  shows "(\<exists>e. x = Some (Some e)) \<and> pods w' = pods w \<or>
    (\<exists>y. create_loop ps wks (maintenance_ctx ps sctx w) 0
       (nat (to_create ps (count_or_zero (fst (recount ps (maintenance_ctx ps sctx w) w)))
         (count_or_zero (snd (recount ps (maintenance_ctx ps sctx w) w)))))
       (decision_world ps (maintenance_ctx ps sctx w) w) = (y, w') \<and> x = map_option (\<lambda>_. None) y)"
proof -
  let ?c = "maintenance_ctx ps sctx w"
  obtain a w1 where 1: "ps_CountReadySandboxes (redis_PoolStore pl) ?c w = (a, w1)" by fastforce
  obtain b w2 where 2: "ps_CountPendingSandboxes (redis_PoolStore pl) ?c w1 = (b, w2)" by fastforce
  have p: "pods w1 = pods w" "pods w2 = pods w"
    using counting_pods(1) [OF 1] counting_pods(2) [OF 2] by simp_all
  show ?thesis
  proof (cases "(\<exists>e. a = Inl e) \<or> (\<exists>e. b = Inl e)")
    case True
    then show ?thesis using assms 1 2 p
      by (auto simp: maintainPool_def Let_def maintenance_ctx_def split: sum.splits)
  next
    case False
    then obtain r0 p0 where a: "a = Inr r0" and b: "b = Inr p0" by (metis sum.exhaust_sel)
    define w3 where "w3 = (if p0 > 0 then snd (checkPendingSandboxes ps ?c w2) else w2)"
    obtain r1 w4 where 4: "ps_CountReadySandboxes (redis_PoolStore pl) ?c w3 = (r1, w4)" by fastforce
    obtain p1 w5 where 5: "ps_CountPendingSandboxes (redis_PoolStore pl) ?c w4 = (p1, w5)" by fastforce
    obtain y v' where cl: "create_loop ps wks ?c 0
        (nat (to_create ps (count_or_zero r1) (count_or_zero p1))) w5 = (y, v')" by fastforce
    have "x = map_option (\<lambda>_. None) y \<and> w' = v'"
      using assms(3) 1 2 4 5 a b cl assms(1)
      by (cases y) (auto simp: maintainPool_def Let_def w3_def maintenance_ctx_def split: prod.splits if_splits)
    moreover have "recount ps ?c w = (r1, p1)" "decision_world ps ?c w = w5"
      using 1 2 4 5 b assms(1) by (simp_all add: recount_def decision_world_def Let_def w3_def count_or_zero_def)
    ultimately show ?thesis using cl by auto
  qed
qed

end

sublocale pool_deployment \<subseteq> pm: pool_maintenance "redis_PoolStore pl" "\<lambda>w. pool_inv pl (db w)"
  "\<lambda>w. ready_queue pl (db w)" "\<lambda>w. pending_queue pl (db w)" "unix_now (rp_runtime pl)"
  "deployed ttl r k st" "run_wakes r db clk" "pod_readied k pods"
proof (unfold_locales, goal_cases)
  case (1 w wks c key x w')
  then show ?case using schedule_same_queues queues_keys [of "db w'" pl "db w"]
    by (simp add: same_queues_def)
next
  case (2 w c s b w')
  then show ?case using check_db by simp
next
  case (3 c s w w')
  then have "s \<noteq> SandboxID ''''" and "k8_IsSandboxReady (k8s_iface k) c s w = (Inr True, w')"
    by (auto simp: IsSandboxReady_def deployed_def scheduler_New_def split: if_splits prod.splits sum.splits)
  moreover from this(1) have "sandbox_IsValid s" by (cases s) (simp add: sandbox_IsValid_def)
  ultimately show ?case using be.ready_answer [of c s w True w'] by blast
next
  case (4 c s w b w')
  then show ?case using be.ready_frame
    by (auto simp: IsSandboxReady_def deployed_def scheduler_New_def split: if_splits prod.splits sum.splits)
next
  case (5 w c n w')
  then show ?case using counting_pods by (simp add: pod_readied_def pod_of_def fun_eq_iff)
next
  case (6 w c n w')
  then show ?case using counting_pods by (simp add: pod_readied_def pod_of_def fun_eq_iff)
next
  case (7 w c y w')
  then show ?case using counting_pods by (simp add: pod_readied_def pod_of_def fun_eq_iff)
qed

context pool_deployment
begin

lemma contract:
  "pool_maintenance (redis_PoolStore pl) (\<lambda>w. pool_inv pl (db w)) (\<lambda>w. ready_queue pl (db w))
     (\<lambda>w. pending_queue pl (db w)) (unix_now (rp_runtime pl)) (deployed ttl r k st)
     (run_wakes r db clk) (pod_readied k pods)"
  by (rule pm.pool_maintenance_axioms)

end

section \<open>How many pods a maintenance creates\<close>

text \<open>At most \<open>n\<close> pods of the namespace are new.\<close>

definition pods_added ::
  "'w k8sClient \<Rightarrow> ('w \<Rightarrow> string \<Rightarrow> string \<rightharpoonup> pod) \<Rightarrow> nat \<Rightarrow> 'w \<Rightarrow> 'w \<Rightarrow> bool" where
  "pods_added k pods n w w' \<longleftrightarrow>
     (\<exists>N. finite N \<and> card N \<le> n \<and> dom (pods w' (namespace k)) \<subseteq> dom (pods w (namespace k)) \<union> N)"

lemma pods_added_0: "pods_added k pods 0 w w' \<longleftrightarrow> dom (pods w' (namespace k)) \<subseteq> dom (pods w (namespace k))"
  unfolding pods_added_def by (metis Un_empty_right card.empty card_eq_0_iff finite.emptyI le_zero_eq)

lemma pods_added_same: "pods w' = pods w \<Longrightarrow> pods_added k pods n w w'"
  by (auto simp: pods_added_def intro!: exI [of _ "{}"])

lemma pods_added_trans: "pods_added k pods n u v \<Longrightarrow> pods_added k pods m v w \<Longrightarrow> pods_added k pods (n + m) u w"
proof -
  assume "pods_added k pods n u v" and "pods_added k pods m v w"
  then obtain N M where "finite N" "card N \<le> n" "dom (pods v (namespace k)) \<subseteq> dom (pods u (namespace k)) \<union> N"
    and "finite M" "card M \<le> m" "dom (pods w (namespace k)) \<subseteq> dom (pods v (namespace k)) \<union> M"
    unfolding pods_added_def by blast
  moreover from this have "card (N \<union> M) \<le> n + m" using card_Un_le [of N M] by linarith
  moreover from calculation have "dom (pods w (namespace k)) \<subseteq> dom (pods u (namespace k)) \<union> (N \<union> M)" by blast
  ultimately show ?thesis unfolding pods_added_def by (meson finite_UnI)
qed

lemma pods_added_mono: "pods_added k pods n w w' \<Longrightarrow> n \<le> m \<Longrightarrow> pods_added k pods m w w'"
  unfolding pods_added_def by (meson le_trans)

text \<open>
  While the job sleeps nothing happens that concerns the pool: the queues stay, nobody creates
  a pod, and none of the given sandboxes becomes ready.
\<close>

definition no_news ::
  "'w redisPool \<Rightarrow> ('w \<Rightarrow> redis_db) \<Rightarrow> 'w k8sClient \<Rightarrow> ('w \<Rightarrow> string \<Rightarrow> string \<rightharpoonup> pod) \<Rightarrow> sandbox_id list \<Rightarrow>
     'w wake \<Rightarrow> bool" where
  "no_news pl db k pods ss wk \<longleftrightarrow> (\<forall>v. same_queues pl db v (wake_env wk v) \<and>
     dom (pods (wake_env wk v) (namespace k)) \<subseteq> dom (pods v (namespace k)) \<and>
     (\<forall>s \<in> set ss. pod_readied k pods (wake_env wk v) s \<longrightarrow> pod_readied k pods v s))"

context pool_deployment
begin

lemma backend_creates_once: "k8s_ScheduleSandbox k c w = (y, w') \<Longrightarrow> pods_added k pods 1 w w'"
proof -
  assume run: "k8s_ScheduleSandbox k c w = (y, w')"
  obtain b w1 where u: "rt_uuid0 (runtime k) w = (b, w1)" by fastforce
  let ?p = "sandbox_pod k (GenerateSandboxID (clk w) b)"
  obtain e where cr: "kb_pod_create (clientset k) c (namespace k) ?p w1 = (e, w')"
    using run u by (auto simp: k8s_ScheduleSandbox_def Let_def now_clk split: prod.splits option.splits)
  have "dom (pods w' (namespace k)) \<subseteq> dom (pods w1 (namespace k)) \<union> {pod_name ?p}"
  proof (cases e)
    case None
    then show ?thesis using pod_create_ok [of c "namespace k" ?p w1 w'] cr by fastforce
  next
    case (Some e')
    then show ?thesis using pod_create_err [of c "namespace k" ?p w1 e' w'] cr by auto
  qed
  then show ?thesis using uuid_frame [OF u] unfolding pods_added_def by (intro exI [of _ "{pod_name ?p}"]) simp
qed

lemma schedule_creates_once:
  assumes "ScheduleSandbox (deployed ttl r k st) wks c key w = (x, w')"
    and "\<And>wk v. wk \<in> set wks \<Longrightarrow> pods_added k pods 0 v (wake_env wk v)"
  shows "pods_added k pods 1 w w'"
proof (rule ScheduleSandbox_creates_once [where Q = "pods_added k pods 0" and P = "pods_added k pods 1", OF assms(1)],
    goal_cases)
  case (1 v)
  then show ?case by (simp add: pods_added_0)
next
  case (2 u v z)
  then show ?case using pods_added_trans [of k pods 0 u v 0 z] by simp
next
  case (3 u v)
  then show ?case by (rule pods_added_mono) simp
next
  case (4 u v z)
  then show ?case using pods_added_trans [of k pods 0 u v 1 z] by simp
next
  case (5 u v z)
  then show ?case using pods_added_trans [of k pods 1 u v 0 z] by simp
next
  case (6 y v v')
  then show ?case using backend_creates_once by (simp add: deployed_def scheduler_New_def)
next
  case (7 c' qo v v')
  have "pods_added k pods 0 u u'" if "redis_move (ri_client r) u u'" for u u'
    using redis_frame [of u u'] that idem_client by (simp add: pods_added_same)
  moreover have "pods_added k pods 0 a z" if "pods_added k pods 0 a b" "pods_added k pods 0 b z" for a b z
    using pods_added_trans [OF that] by simp
  ultimately show ?case
    using ClaimOrWait_steps [where Q = "pods_added k pods 0", of r wks c' key v qo v'] 7 assms(2)
    by (simp add: deployed_def scheduler_New_def redis_IdempotenceStore_def pods_added_same)
next
  case (8 q s c' key' sb e u u' v v')
  then have "s = redis_sink r" using claim_store by (fastforce simp: deployed_def scheduler_New_def)
  then have "redis_move (ri_client r) v v'" using 8(3) claim_moves(3) by (simp add: redis_sink_def)
  then show ?case using redis_frame idem_client by (simp add: pods_added_same)
next
  case (9 q s c' key' e u u' v v')
  then have "s = redis_sink r" using claim_store by (fastforce simp: deployed_def scheduler_New_def)
  then have "redis_move (ri_client r) v v'" using 9(3) claim_moves(4) by (simp add: redis_sink_def)
  then show ?case using redis_frame idem_client by (simp add: pods_added_same)
qed

lemma create_loop_creates:
  assumes "pl_store ps = redis_PoolStore pl" and "pl_scheduler ps = deployed ttl r k st"
    and "\<And>i wk v. wk \<in> set (wks i) \<Longrightarrow> pods_added k pods 0 v (wake_env wk v)"
  shows "create_loop ps wks c i n w = (x, w') \<Longrightarrow> pods_added k pods n w w'"
proof (induction n arbitrary: i w)
  case 0
  then show ?case by (simp add: pods_added_0)
next
  case (Suc n)
  obtain y w1 where s: "ScheduleSandbox (deployed ttl r k st) (wks i) c (pool_key (rt_now (pl_runtime ps) w)) w = (y, w1)"
    by fastforce
  obtain z w2 where cr: "createPoolSandbox ps (wks i) c w = (z, w2)" by fastforce
  have "w2 = w1 \<or> (\<exists>e sb. ps_AddPendingSandbox (redis_PoolStore pl) c sb w1 = (e, w2))"
    using cr s assms(1,2) by (auto simp: createPoolSandbox_def split: option.splits sum.splits prod.splits)
  then have "pods w2 = pods w1" using moving_pods(3) by blast
  then have "pods_added k pods 0 w1 w2" by (rule pods_added_same)
  then have one: "pods_added k pods 1 w w2"
    using pods_added_trans [OF schedule_creates_once [OF s assms(3)]] by fastforce
  show ?case
  proof (cases z)
    case None
    then show ?thesis using Suc.prems cr pods_added_mono [OF one] by simp
  next
    case (Some z')
    then have "pods_added k pods n w2 w'" using Suc.IH Suc.prems cr by simp
    then show ?thesis using pods_added_trans [OF one] by fastforce
  qed
qed

text \<open>
  A maintenance creates no more pods than it decided to, which is at most the smaller limit,
  and exactly bounded by what its counts leave when they answer.
\<close>

lemma maintain_creates:
  assumes "pl_store ps = redis_PoolStore pl" and "pl_scheduler ps = deployed ttl r k st"
    and "pool_inv pl (db w)" and "plain_queue (pending_queue pl (db w))"
    and "\<And>i wk v. wk \<in> set (wks i) \<Longrightarrow> pods_added k pods 0 v (wake_env wk v)"
    and "maintainPool ps wks False sctx w = (x, w')"
    and "recount ps (maintenance_ctx ps sctx w) w = (r1, p1)"
  shows "pods_added k pods (nat (min (PoolSize ps) (PoolMaxPending ps))) w w' \<and>
    (\<forall>n m. r1 = Inr n \<and> p1 = Inr m \<longrightarrow>
      pods_added k pods (nat (min (PoolSize ps - n - m) (PoolMaxPending ps - m))) w w')"
  using maintain_pods [OF assms(1,2,6)]
proof (elim disjE exE conjE)
  assume "pods w' = pods w"
  then show ?thesis by (simp add: pods_added_same)
next
  fix y
  let ?c = "maintenance_ctx ps sctx w"
  let ?n = "nat (to_create ps (count_or_zero r1) (count_or_zero p1))"
  assume cl: "create_loop ps wks ?c 0 (nat (to_create ps (count_or_zero (fst (recount ps ?c w)))
      (count_or_zero (snd (recount ps ?c w))))) (decision_world ps ?c w) = (y, w')"
    and x: "x = map_option (\<lambda>_. None) y"
  have "pods_added k pods ?n (decision_world ps ?c w) w'"
    using create_loop_creates [OF assms(1,2,5) cl] assms(7) by simp
  then have a: "pods_added k pods ?n w w'"
    using decision_pods [OF assms(1,2), of ?c w] by (simp add: pods_added_def)
  have pos: "0 \<le> count_or_zero r1 \<and> 0 \<le> count_or_zero p1"
    using assms(1-4,6)
  proof (cases rule: pm.maintain_stages)
    case stopped
    then show ?thesis using x by (cases y) simp_all
  next
    case (decided v v0 r p z)
    then show ?thesis using assms(7)
      by (cases r; cases p) (auto simp: count_or_zero_def)
  qed
  have "?n \<le> nat (min (PoolSize ps) (PoolMaxPending ps))"
    using pos by (auto simp: to_create_def go_min_def Let_def)
  moreover have "?n \<le> nat (min (PoolSize ps - n - m) (PoolMaxPending ps - m))" if "r1 = Inr n" "p1 = Inr m" for n m
    using that by (auto simp: to_create_def go_min_def Let_def count_or_zero_def)
  ultimately show ?thesis using pods_added_mono [OF a] by blast
qed

text \<open>
  A full pending queue without a ready sandbox: a maintenance leaves the queues and the pods
  as they are, and so does a job that runs any number of them.
\<close>

lemma stuck_round:
  assumes "pl_store ps = redis_PoolStore pl" and "pl_scheduler ps = deployed ttl r k st"
    and "pool_inv pl (db w)" and "plain_queue (pending_queue pl (db w))"
    and "PoolMaxPending ps \<le> int (length (pending_queue pl (db w)))"
    and "\<And>s. s \<in> set (parse_members (pending_queue pl (db w))) \<Longrightarrow> \<not> pod_readied k pods w s"
    and "snd (recount ps (maintenance_ctx ps sctx w) w) = Inr m"
  shows "\<exists>e w'. maintainPool ps wks False sctx w = (Some e, w') \<and> pool_inv pl (db w') \<and>
    ready_queue pl (db w') = ready_queue pl (db w) \<and> pending_queue pl (db w') = pending_queue pl (db w) \<and>
    pods w' = pods w"
proof -
  obtain x w' where m: "maintainPool ps wks False sctx w = (x, w')" by fastforce
  note q = pm.maintain_stuck [OF assms(1-4) m assms(7,5,6)]
  have "pods w' = pods w"
  proof (cases "\<exists>e. x = Some (Some e)")
    case True
    then have "x \<noteq> map_option (\<lambda>_. None) y" for y by (cases y) auto
    then show ?thesis using maintain_pods [OF assms(1,2) m] by blast
  next
    case False
    then show ?thesis using q decision_pods [OF assms(1,2)] by simp
  qed
  then show ?thesis using m q by auto
qed

lemma job_stuck:
  assumes "pl_store ps = redis_PoolStore pl" and "pl_scheduler ps = deployed ttl r k st"
    and "plain_queue Q" and "PoolMaxPending ps \<le> int (length Q)"
  shows "pool_inv pl (db w) \<Longrightarrow> pending_queue pl (db w) = Q \<Longrightarrow>
    \<forall>s \<in> set (parse_members Q). \<not> pod_readied k pods w s \<Longrightarrow>
    \<forall>wk \<in> set rest. no_news pl db k pods (parse_members Q) wk \<Longrightarrow> job_counts_answer ps wks sctx rest w \<Longrightarrow>
    \<exists>w'. runMaintenanceJob ps wks sctx rest w = Some w' \<and> ready_queue pl (db w') = ready_queue pl (db w) \<and>
      pending_queue pl (db w') = Q \<and> dom (pods w' (namespace k)) \<subseteq> dom (pods w (namespace k))"
proof (induction rest arbitrary: w)
  case Nil
  then show ?case by simp
next
  case (Cons wk rest)
  let ?v = "wake_env wk w"
  have n: "same_queues pl db w ?v" "dom (pods ?v (namespace k)) \<subseteq> dom (pods w (namespace k))"
      "\<forall>s \<in> set (parse_members Q). \<not> pod_readied k pods ?v s"
    using Cons.prems(3,4) by (auto simp: no_news_def)
  have q: "pool_inv pl (db ?v)" "pending_queue pl (db ?v) = Q" "ready_queue pl (db ?v) = ready_queue pl (db w)"
    using queues_keys [of "db ?v" pl "db w"] n(1) Cons.prems(1,2) by (simp_all add: same_queues_def)
  show ?case
  proof (cases "wake_tick wk")
    case False
    then show ?thesis using n(2) q by (simp add: Let_def)
  next
    case True
    then obtain m where m: "snd (recount ps (maintenance_ctx ps sctx ?v) ?v) = Inr m"
      and rest: "job_counts_answer ps wks sctx rest (snd (maintainPool ps wks False sctx ?v))"
      using Cons.prems(5) by (auto simp: Let_def split: sum.splits)
    obtain e u where u: "maintainPool ps wks False sctx ?v = (Some e, u)" "pool_inv pl (db u)"
      "ready_queue pl (db u) = ready_queue pl (db ?v)" "pending_queue pl (db u) = Q" "pods u = pods ?v"
      using stuck_round [OF assms(1,2) q(1) _ _ _ m, of wks] q(2) n(3) assms(3,4) by auto
    have "\<forall>s \<in> set (parse_members Q). \<not> pod_readied k pods u s"
      using n(3) u(5) by (simp add: pod_readied_def pod_of_def)
    then show ?thesis
      using Cons.IH [OF u(2,4)] Cons.prems(4) rest u(1,3,5) n(2) q(3) True by (fastforce simp: Let_def)
  qed
qed

end

section \<open>The pool on the simulated cluster\<close>

interpretation sim_pd: pool_deployment sim_redis w_db w_clk sim_client sim_pods sim_svcs sim_idem
  "minutes 15" "redis_Store (\<lambda>xs. xs) sim_store" sim_pool
  by (rule pool_deployment.intro [OF sim_deployment])
     (simp add: pool_deployment_axioms_def sim_pool_def sim_idem_def defaultKeyPrefix_def)

lemma sim_pool_deployment:
  "pool_deployment sim_redis w_db w_clk sim_client sim_pods sim_svcs sim_idem sim_pool"
  by (rule sim_pd.pool_deployment_axioms)

definition sim_pool_service :: "int \<Rightarrow> int \<Rightarrow> world pool_service" where
  "sim_pool_service n mx =
     \<lparr>pl_store = redis_PoolStore sim_pool, pl_scheduler = sim_sched, pl_runtime = sim_runtime,
      PoolEnabled = True, PoolSize = n, PoolMaxPending = mx\<rparr>"

text \<open>Looking at the simulated cluster answers as long as it is up and the context is not done.\<close>

lemma sim_counts:
  assumes "w_up w" and "ctx_err c (w_clk w) = None"
  shows "CountReadySandboxes sim_pool c w =
      (Inr (int (length (zmembers (w_clk w + millis 1) (w_db w) (getKey sim_pool readySandboxesKey)))), tick w)"
    and "CountPendingSandboxes sim_pool c w =
      (Inr (int (length (zmembers (w_clk w + millis 1) (w_db w) (getKey sim_pool pendingSandboxesKey)))), tick w)"
    and "GetPendingSandboxes sim_pool c w =
      (Inr (parse_members (zmembers (w_clk w + millis 1) (w_db w) (getKey sim_pool pendingSandboxesKey))), tick w)"
  using assms
  by (simp_all add: CountReadySandboxes_def CountPendingSandboxes_def
      GetPendingSandboxes_def sim_redis_def redis_call_def tick_def)

lemma sim_not_ready:
  assumes "w_kube_up w" and "ctx_err c (w_clk w) = None" and "w_pods w = []" and "s \<noteq> SandboxID ''''"
  shows "IsSandboxReady sim_sched c s w = (Inr False, tick w)"
  using assms
  by (simp add: IsSandboxReady_def sim_sched_def deployed_def scheduler_New_def k8s_iface_def
      k8s_IsSandboxReady_def sim_kube_def kube_call_def sim_pods_def)

section \<open>Properties of the pool service\<close>

text \<open>
  C13 (the limits of the pool). One maintenance, whatever Redis, the API server and other
  users of the claims do: if its second counts answer, the pool (ready and pending
  together) is afterwards no larger than its target size and the pending queue no longer
  than its limit, unless they were already. If they do not answer, their errors are read as
  zero, and the pool may grow beyond its size, by the smaller limit at most. As long as
  nobody else creates pods while it waits for its claims, no more pods of the namespace are
  new, queued or not, than the smaller limit in any case, and than the counts leave when
  they answer.
\<close>

theorem pool_limits:
  assumes "pool_deployment R db clk k pods svcs r pl"
    and "pl_store ps = redis_PoolStore pl" and "pl_scheduler ps = deployed ttl r k st"
    and "pool_inv pl (db w)" and "plain_queue (pending_queue pl (db w))"
    and "\<And>i. run_wakes r db clk (wks i)" and "maintainPool ps wks False sctx w = (x, w')"
  shows "(\<forall>n m. recount ps (maintenance_ctx ps sctx w) w = (Inr n, Inr m) \<longrightarrow>
      int (length (ready_queue pl (db w'))) + int (length (pending_queue pl (db w'))) \<le>
        max (int (length (ready_queue pl (db w))) + int (length (pending_queue pl (db w)))) (PoolSize ps) \<and>
      int (length (pending_queue pl (db w'))) \<le>
        max (int (length (pending_queue pl (db w)))) (PoolMaxPending ps)) \<and>
    int (length (ready_queue pl (db w'))) + int (length (pending_queue pl (db w'))) \<le>
      int (length (ready_queue pl (db w))) + int (length (pending_queue pl (db w))) +
      max 0 (min (PoolSize ps) (PoolMaxPending ps)) \<and>
    ((\<forall>i. \<forall>wk \<in> set (wks i). \<forall>v. pods_added k pods 0 v (wake_env wk v)) \<longrightarrow>
      pods_added k pods (nat (min (PoolSize ps) (PoolMaxPending ps))) w w' \<and>
      (\<forall>n m. recount ps (maintenance_ctx ps sctx w) w = (Inr n, Inr m) \<longrightarrow>
        pods_added k pods (nat (min (PoolSize ps - n - m) (PoolMaxPending ps - m))) w w'))"
proof -
  obtain r1 p1 where r: "recount ps (maintenance_ctx ps sctx w) w = (r1, p1)" by fastforce
  note created = pool_deployment.maintain_creates [OF assms(1-5) _ assms(7) r]
  show ?thesis
    using pool_maintenance.maintain_bounds [OF pool_deployment.contract [OF assms(1)] assms(2-7)] created r
    by fastforce
qed

theorem pool_limits_witness:
  "int (length (ready_queue sim_pool (w_db (snd (maintainPool (sim_pool_service 2 1) (\<lambda>i. []) False background init_world))))) +
   int (length (pending_queue sim_pool (w_db (snd (maintainPool (sim_pool_service 2 1) (\<lambda>i. []) False background init_world))))) \<le> 2 \<and>
   length (pending_queue sim_pool (w_db (snd (maintainPool (sim_pool_service 2 1) (\<lambda>i. []) False background init_world)))) \<le> 1 \<and>
   pods_added sim_client sim_pods 1 init_world (snd (maintainPool (sim_pool_service 2 1) (\<lambda>i. []) False background init_world))"
proof -
  let ?ps = "sim_pool_service 2 1"
  let ?r = "maintainPool ?ps (\<lambda>i. []) False background init_world"
  have e: "ready_queue sim_pool (w_db init_world) = []" "pending_queue sim_pool (w_db init_world) = []"
    by (simp_all add: ready_queue_def pending_queue_def sim_eval)
  have c: "recount ?ps (maintenance_ctx ?ps background init_world) init_world = (Inr 0, Inr 0)"
    by (simp add: recount_def maintenance_ctx_def sim_pool_service_def redis_PoolStore_def
        CountReadySandboxes_def CountPendingSandboxes_def count_or_zero_def sim_eval Let_def)
  show ?thesis
    using pool_limits [OF sim_pool_deployment, of ?ps "minutes 15" "redis_Store (\<lambda>xs. xs) sim_store"
        init_world "\<lambda>i. []" background "fst ?r" "snd ?r"] c e
    by (simp add: sim_pool_service_def sim_sched_def sim_pool_inv_init plain_queue_def)
qed

text \<open>
  C14 (the pool is filled). A maintenance whose counts answer and whose creations all
  succeed, each with a sandbox that is not in the queue yet, returns without an error, leaves
  the ready queue alone, and adds exactly the created sandboxes to the pending queue: after
  it the pool has its size, or the pending queue its limit.
\<close>

theorem pool_refills:
  assumes "pool_deployment R db clk k pods svcs r pl"
    and "pl_store ps = redis_PoolStore pl" and "pl_scheduler ps = deployed ttl r k st"
    and "pool_inv pl (db w)" and "plain_queue (pending_queue pl (db w))"
    and "\<And>i. run_wakes r db clk (wks i)" and "maintainPool ps wks False sctx w = (Some None, w')"
    and "recount ps (maintenance_ctx ps sctx w) w = (Inr n, Inr m)"
    and "v = decision_world ps (maintenance_ctx ps sctx w) w"
    and "ids = created ps wks (maintenance_ctx ps sctx w) 0 (nat (to_create ps n m)) v"
    and "length ids = nat (to_create ps n m)" and "distinct ids"
    and "\<forall>s \<in> set ids. sid s \<notin> members (pending_queue pl (db v))"
  shows "int (length (ready_queue pl (db w'))) = n \<and>
    int (length (pending_queue pl (db w'))) = m + int (length ids) \<and>
    members (pending_queue pl (db w')) = members (pending_queue pl (db v)) \<union> sid ` set ids \<and>
    (PoolSize ps \<le> int (length (ready_queue pl (db w'))) + int (length (pending_queue pl (db w'))) \<or>
     PoolMaxPending ps \<le> int (length (pending_queue pl (db w'))))"
  by (rule pool_maintenance.maintain_fills [OF pool_deployment.contract [OF assms(1)] assms(2-13)])

lemmas fill_eval = sched_eval pool_eval sim_pool_service_def sim_sched_def deployed_def scheduler_New_def
  ScheduleSandbox_def IsTimeout_def HasError_def HasExistingSandbox_def deferred_drop_def Complete_def Drop_def
  redis_PoolStore_def maintenance_ctx_def decision_world_def recount_def count_or_zero_def

lemma pool_key_ne [simp]: "pool_key t \<noteq> ''''"
  by (simp add: pool_key_def)

theorem pool_refills_witness:
  "\<exists>w'. maintainPool (sim_pool_service 1 1) (\<lambda>i. []) False background init_world = (Some None, w') \<and>
     members (pending_queue sim_pool (w_db w')) = {sid (GenerateSandboxID 1000006000000 7)}"
proof -
  let ?ps = "sim_pool_service 1 1" and ?w = init_world
  let ?c = "maintenance_ctx ?ps background ?w"
  let ?v = "decision_world ?ps ?c ?w" and ?s = "GenerateSandboxID 1000006000000 7"
  have ids: "created ?ps (\<lambda>i. []) ?c 0 1 ?v = [?s]" by (simp add: fill_eval)
  have n: "nat (to_create ?ps 0 0) = 1" by (simp add: to_create_def go_min_def sim_pool_service_def)
  have count: "recount ?ps ?c ?w = (Inr 0, Inr 0)" and q: "pending_queue sim_pool (w_db ?v) = []"
    and e: "pending_queue sim_pool (w_db init_world) = []"
    by (simp_all add: fill_eval)
  have parts: "pl_store ?ps = redis_PoolStore sim_pool"
      "pl_scheduler ?ps = deployed (minutes 15) sim_idem sim_client (redis_Store (\<lambda>xs. xs) sim_store)"
    by (simp_all add: sim_pool_service_def sim_sched_def)
  have new: "\<forall>s \<in> set [?s]. sid s \<notin> members (pending_queue sim_pool (w_db ?v))" by (simp add: q members_def)
  have "fst (maintainPool ?ps (\<lambda>i. []) False background ?w) = Some None"
    by (simp add: fill_eval maintainPool_def createPoolSandbox_def to_create_def go_min_def)
  then obtain w' where m: "maintainPool ?ps (\<lambda>i. []) False background ?w = (Some None, w')"
    by (metis prod.collapse)
  have "members (pending_queue sim_pool (w_db w')) = members (pending_queue sim_pool (w_db ?v)) \<union> sid ` set [?s]"
    using pool_refills [OF sim_pool_deployment parts sim_pool_inv_init _ _ m count refl refl, unfolded n ids] new
    by (simp add: plain_queue_def e)
  then show ?thesis using m q by (simp add: members_def)
qed

text \<open>
  C34 (a pool that starves). A pending sandbox leaves the pending queue only by becoming
  ready: nothing else removes it, however old it is. So when the pending queue is at its
  limit and none of its sandboxes is or becomes ready, the maintenance job, through any
  number of rounds at which its second count of pending sandboxes answers (an error would be
  read as zero), gets through all of them, creates nothing, and leaves both queues as they
  are: no pod is new, provided that nobody else creates pods or changes the queues between
  the rounds.
\<close>

theorem pool_starves:
  assumes "pool_deployment R db clk k pods svcs r pl"
    and "pl_store ps = redis_PoolStore pl" and "pl_scheduler ps = deployed ttl r k st"
    and "pool_inv pl (db w)" and "plain_queue (pending_queue pl (db w))"
    and "PoolMaxPending ps \<le> int (length (pending_queue pl (db w)))"
    and "\<forall>s \<in> set (parse_members (pending_queue pl (db w))). \<not> pod_readied k pods w s"
    and "\<forall>wk \<in> set rounds. no_news pl db k pods (parse_members (pending_queue pl (db w))) wk"
    and "job_counts_answer ps wks sctx rounds w"
  shows "\<exists>w'. runMaintenanceJob ps wks sctx rounds w = Some w' \<and>
    ready_queue pl (db w') = ready_queue pl (db w) \<and>
    pending_queue pl (db w') = pending_queue pl (db w) \<and>
    dom (pods w' (namespace k)) \<subseteq> dom (pods w (namespace k))"
  by (rule pool_deployment.job_stuck [OF assms(1-3,5,6,4) refl assms(7-9)])

text \<open>A simulated cluster without pods whose pending queue holds one sandbox.\<close>

definition sim_starved :: "world \<Rightarrow> bool" where
  "sim_starved v \<longleftrightarrow> w_up v \<and> w_kube_up v \<and> w_pods v = [] \<and>
     (\<forall>t. zmembers t (w_db v) (getKey sim_pool pendingSandboxesKey) = [(1000, ''s'')])"

definition sim_minute :: "world wake" where
  "sim_minute = \<lparr>wake_env = (\<lambda>w. w\<lparr>w_clk := w_clk w + minutes 1\<rparr>), wake_tick = True\<rparr>"

lemma sim_s_id: "NewSandboxID ''s'' = Inr (SandboxID ''s'')"
  by (simp add: NewSandboxID_def trim_prefix_def SandboxPrefix_def)

lemma sim_starved_round:
  assumes "sim_starved v"
  shows "snd (recount (sim_pool_service 5 1) (maintenance_ctx (sim_pool_service 5 1) background v) v) = Inr 1 \<and>
    sim_starved (snd (maintainPool (sim_pool_service 5 1) (\<lambda>i. []) False background v))"
  using assms
  by (simp add: sim_starved_def recount_def maintainPool_def maintenance_ctx_def sim_pool_service_def
      redis_PoolStore_def count_or_zero_def sim_counts checkPendingSandboxes_def parse_members_def
      List.map_filter_simps sim_s_id sim_not_ready to_create_def Let_def
      with_timeout_def background_def ctx_err_def sim_runtime_def durations tick_def)

lemma sim_starved_minute: "sim_starved v \<Longrightarrow> sim_starved (wake_env sim_minute v)"
  by (simp add: sim_starved_def sim_minute_def)

lemma sim_starved_counts:
  "sim_starved v \<Longrightarrow> job_counts_answer (sim_pool_service 5 1) (\<lambda>i. []) background (replicate n sim_minute) v"
proof (induction n arbitrary: v)
  case (Suc n)
  then show ?case
    using sim_starved_round [OF sim_starved_minute [OF Suc.prems]] by (simp add: Let_def)
qed simp

theorem pool_starves_witness:
  "\<exists>w w'. pending_queue sim_pool (w_db w) = [(1000, ''s'')] \<and>
     runMaintenanceJob (sim_pool_service 5 1) (\<lambda>i. []) background (replicate 100 sim_minute) w = Some w' \<and>
     pending_queue sim_pool (w_db w') = [(1000, ''s'')] \<and> dom (sim_pods w' DefaultNamespace) = {}"
proof -
  let ?ps = "sim_pool_service 5 1"
  let ?w = "snd (AddPendingSandbox sim_pool background (SandboxID ''s'') init_world)"
  have q: "pending_queue sim_pool (w_db ?w) = [(1000, ''s'')]"
    by (simp add: pending_queue_def AddPendingSandbox_def pool_eval sim_eval Let_def)
  have i: "pool_inv sim_pool (w_db ?w)"
    by (simp add: pool_inv_def no_expiry_def zset_wf_def pool_eval sim_eval Let_def)
  have w: "sim_starved ?w" by (simp add: sim_starved_def pool_eval sim_eval Let_def)
  have e: "\<forall>wk \<in> set (replicate 100 sim_minute). no_news sim_pool w_db sim_client sim_pods ss wk" for ss
    by (auto simp: no_news_def same_queues_def sim_minute_def sim_pods_def pod_readied_def pod_of_def)
  have p: "sim_pods ?w = (\<lambda>_ _. None)" using w by (simp add: sim_starved_def sim_pods_def fun_eq_iff)
  have u: "\<forall>s \<in> set (parse_members (pending_queue sim_pool (w_db ?w))). \<not> pod_readied sim_client sim_pods ?w s"
    by (simp add: pod_readied_def pod_of_def p)
  have k: "plain_queue (pending_queue sim_pool (w_db ?w))"
    by (simp add: q plain_queue_def plain_sandbox_def trim_prefix_def SandboxPrefix_def sandbox_IsValid_def)
  have m: "PoolMaxPending ?ps \<le> int (length (pending_queue sim_pool (w_db ?w)))"
    by (simp add: q sim_pool_service_def)
  have "\<exists>w'. runMaintenanceJob ?ps (\<lambda>i. []) background (replicate 100 sim_minute) ?w = Some w' \<and>
      ready_queue sim_pool (w_db w') = ready_queue sim_pool (w_db ?w) \<and>
      pending_queue sim_pool (w_db w') = pending_queue sim_pool (w_db ?w) \<and>
      dom (sim_pods w' (namespace sim_client)) \<subseteq> dom (sim_pods ?w (namespace sim_client))"
    by (rule pool_starves [OF sim_pool_deployment _ _ i k m u e sim_starved_counts [OF w], where ttl = "minutes 15"
          and st = "redis_Store (\<lambda>xs. xs) sim_store"])
       (simp_all add: sim_pool_service_def sim_sched_def)
  then show ?thesis using q by (auto simp: p)
qed

end
