(* ===== verification/Project_Service.thy ===== *)
theory Project_Service
  imports Sandbox_Pool
begin

text \<open>
  The project service, \<open>scheduler/internal/project/service.go\<close>, and the RPC handler in
  front of it, \<open>scheduler/internal/transport/http/project_server.go\<close>.
\<close>

datatype sandbox_status =
    STATUS_UNSPECIFIED
  | STATUS_ACTIVE
  | STATUS_CREATING
  | STATUS_NOT_FOUND
  | STATUS_ERROR

record response =
  rs_SandboxId :: string
  rs_Status :: sandbox_status
  rs_Hostname :: string

record 'w project_service =
  pr_scheduler :: "'w scheduler"
  pr_pool :: "'w pool_service"
  pr_store :: "'w store"
  pr_k8s :: "'w k8s"

definition error_response :: response where
  "error_response = \<lparr>rs_SandboxId = '''', rs_Status = STATUS_ERROR, rs_Hostname = ''''\<rparr>"

definition sandbox_response ::
  "'w project_service \<Rightarrow> project_id \<Rightarrow> sandbox_id \<Rightarrow> sandbox_status \<Rightarrow> response" where
  "sandbox_response s p sb st =
     \<lparr>rs_SandboxId = sid sb, rs_Status = st,
      rs_Hostname = k8_GetProjectServiceHostname (pr_k8s s) p\<rparr>"

text \<open>
  The two results of a Go function: the response (a pointer, possibly nil) and the error.
  \<open>None\<close> outside is a call still waiting after the given wake-ups.
\<close>

type_synonym reply = "response option \<times> err option"

text \<open>The sandbox the project already has, if it is known not to be gone.\<close>

definition live_sandbox ::
  "'w project_service \<Rightarrow> ctx \<Rightarrow> project_id \<Rightarrow> ('w, sandbox_id option) op" where
  "live_sandbox s c p w =
     (case st_GetProjectSandbox (pr_store s) c p w of
        (Inl _, w1) \<Rightarrow> (None, w1)
      | (Inr sb, w1) \<Rightarrow>
          (if sb = SandboxID '''' then (None, w1)
           else case IsSandboxGone (pr_scheduler s) c sb w1 of
             (Inl _, w2) \<Rightarrow> (None, w2)
           | (Inr True, w2) \<Rightarrow> (None, w2)
           | (Inr False, w2) \<Rightarrow> (Some sb, w2)))"

text \<open>
  A new sandbox: from the pool, or scheduled when the pool has none. \<open>Inl (e, True)\<close> is
  the error of the pool, returned as it is; \<open>Inl (e, False)\<close> that of scheduling.
\<close>

definition obtain_sandbox ::
  "'w project_service \<Rightarrow> 'w wake list \<Rightarrow> ctx \<Rightarrow> project_id \<Rightarrow>
     ('w, ((err \<times> bool) + sandbox_id) option) op" where
  "obtain_sandbox s wks c p w =
     (case GetSandbox (pr_pool s) c (pid p) w of
        ((Inl e, _), w1) \<Rightarrow>
          (if \<not> errors_is e ErrPoolEmpty then (Some (Inl (e, True)), w1)
           else case ScheduleSandbox (pr_scheduler s) wks c (pid p) w1 of
             (None, w2) \<Rightarrow> (None, w2)
           | (Some (Inl e'), w2) \<Rightarrow> (Some (Inl (e', False)), w2)
           | (Some (Inr sb), w2) \<Rightarrow> (Some (Inr sb), w2))
      | ((Inr sb, _), w1) \<Rightarrow>
          (if sb = SandboxID ''''
           then case ScheduleSandbox (pr_scheduler s) wks c (pid p) w1 of
             (None, w2) \<Rightarrow> (None, w2)
           | (Some (Inl e'), w2) \<Rightarrow> (Some (Inl (e', False)), w2)
           | (Some (Inr sb'), w2) \<Rightarrow> (Some (Inr sb'), w2)
           else (Some (Inr sb), w1)))"

text \<open>Recording the mapping and pointing the service at the sandbox; errors are logged only.\<close>

definition assign_sandbox ::
  "'w project_service \<Rightarrow> ctx \<Rightarrow> project_id \<Rightarrow> sandbox_id \<Rightarrow> 'w \<Rightarrow> 'w" where
  "assign_sandbox s c p sb w =
     (let (e1, w1) = st_SetProjectSandbox (pr_store s) c p sb w;
          (e2, w2) = k8_CreateOrUpdateProjectService (pr_k8s s) c p sb w1
      in w2)"

definition GetProjectSandbox ::
  "'w project_service \<Rightarrow> 'w wake list \<Rightarrow> 'w wake list \<Rightarrow> ctx \<Rightarrow> project_id \<Rightarrow> bool \<Rightarrow>
     ('w, reply option) op" where
  "GetProjectSandbox s wks wks' c p waitForCreation w =
     (case live_sandbox s c p w of
        (Some sb, w1) \<Rightarrow> (Some (Some (sandbox_response s p sb STATUS_ACTIVE), None), w1)
      | (None, w1) \<Rightarrow>
          (case obtain_sandbox s wks c p w1 of
             (None, w2) \<Rightarrow> (None, w2)
           | (Some (Inl (e, True)), w2) \<Rightarrow> (Some (None, Some e), w2)
           | (Some (Inl (e, False)), w2) \<Rightarrow>
               (Some (Some error_response, Some (errorf_v ''failed to create sandbox: '' e)), w2)
           | (Some (Inr sb), w2) \<Rightarrow>
               (let w3 = assign_sandbox s c p sb w2
                in if waitForCreation
                   then case WaitForSandboxReady (pr_scheduler s) wks' c sb w3 of
                     (None, w4) \<Rightarrow> (None, w4)
                   | (Some (Inl e), w4) \<Rightarrow>
                       (Some (None, Some (errorf_v ''failed to wait for sandbox to be ready: '' e)), w4)
                   | (Some (Inr ready), w4) \<Rightarrow>
                       (if \<not> ready then (Some (Some error_response, None), w4)
                        else (Some (Some (sandbox_response s p sb STATUS_ACTIVE), None), w4))
                   else (Some (Some (sandbox_response s p sb STATUS_CREATING), None), w3))))"

section \<open>The RPC handler\<close>

definition server_GetProjectSandbox ::
  "'w project_service \<Rightarrow> 'w wake list \<Rightarrow> 'w wake list \<Rightarrow> ctx \<Rightarrow> string \<Rightarrow> bool \<Rightarrow>
     ('w, reply option) op" where
  "server_GetProjectSandbox s wks wks' c projectId waitForCreation w =
     (case NewProjectIDWithoutPrefix projectId of
        Inl e \<Rightarrow> (Some (None, Some e), w)
      | Inr p \<Rightarrow>
          (case GetProjectSandbox s wks wks' c p waitForCreation w of
             (None, w1) \<Rightarrow> (None, w1)
           | (Some (resp, Some e), w1) \<Rightarrow> (Some (None, Some e), w1)
           | (Some (resp, None), w1) \<Rightarrow> (Some (resp, None), w1)))"

section \<open>The service over Redis and Kubernetes\<close>

text \<open>The project service as it is wired; \<open>ps\<close> is the pool service it is given.\<close>

definition wired ::
  "int \<Rightarrow> 'w redisIdem \<Rightarrow> 'w k8sClient \<Rightarrow> 'w redisStore \<Rightarrow>
     ((string \<times> (err + string)) list \<Rightarrow> (string \<times> (err + string)) list) \<Rightarrow> 'w pool_service \<Rightarrow>
     'w project_service" where
  "wired ttl r k rs ord ps =
     \<lparr>pr_scheduler = deployed ttl r k (redis_Store ord rs), pr_pool = ps,
      pr_store = redis_Store ord rs, pr_k8s = k8s_iface k\<rparr>"

lemma wired_simps [simp]:
  "pr_scheduler (wired ttl r k rs ord ps) = deployed ttl r k (redis_Store ord rs)"
  "pr_pool (wired ttl r k rs ord ps) = ps"
  "pr_store (wired ttl r k rs ord ps) = redis_Store ord rs"
  "pr_k8s (wired ttl r k rs ord ps) = k8s_iface k"
  by (simp_all add: wired_def)

lemma deployed_simps [simp]:
  "sc_store (deployed ttl r k st) = st" "sc_k8s (deployed ttl r k st) = k8s_iface k"
  "sc_idem (deployed ttl r k st) = redis_IdempotenceStore r"
  "sc_runtime (deployed ttl r k st) = runtime k"
  by (simp_all add: deployed_def scheduler_New_def)

lemma k8s_client_iface_simps [simp]:
  "k8_ScheduleSandbox (k8s_iface k) = k8s_ScheduleSandbox k"
  "k8_IsSandboxGone (k8s_iface k) = k8s_IsSandboxGone k"
  "k8_IsSandboxReady (k8s_iface k) = k8s_IsSandboxReady k"
  "k8_WaitForSandboxReady (k8s_iface k) = k8s_WaitForSandboxReady k"
  "k8_CreateOrUpdateProjectService (k8s_iface k) = CreateOrUpdateProjectService k"
  "k8_GetProjectServiceHostname (k8s_iface k) = GetProjectServiceHostname k"
  by (simp_all add: k8s_iface_def)

locale project_deployment = pool_deployment R db clk k pods svcs r ttl "redis_Store ord rs" pl +
    redis_backed_store rs db clk ord
  for R :: "'w redis" and db :: "'w \<Rightarrow> redis_db" and clk :: "'w \<Rightarrow> int"
    and k :: "'w k8sClient" and pods :: "'w \<Rightarrow> string \<Rightarrow> string \<rightharpoonup> pod"
    and svcs :: "'w \<Rightarrow> string \<Rightarrow> string \<rightharpoonup> kservice"
    and r :: "'w redisIdem" and ttl :: int
    and ord :: "(string \<times> (err + string)) list \<Rightarrow> (string \<times> (err + string)) list"
    and rs :: "'w redisStore" and pl :: "'w redisPool" +
  assumes store_client: "client rs = R" and store_prefix: "keyPrefix rs = ri_keyPrefix r"
begin

abbreviation service :: "'w pool_service \<Rightarrow> 'w project_service" where
  "service ps \<equiv> wired ttl r k rs ord ps"

text \<open>A sandbox that is handed out again is mapped to the project, not released, and has a pod.\<close>

lemma live_sandbox_Some:
  assumes "live_sandbox (service ps) c p w = (Some s, w')"
  shows "s \<noteq> SandboxID '''' \<and> db w' = db w \<and> pods w' = pods w \<and> clk w \<le> clk w' \<and>
    pod_of k pods w s \<noteq> None \<and>
    (\<exists>t. clk w \<le> t \<and> t \<le> clk w' \<and> mapped_sandbox rs t (db w) p = Some s)"
proof -
  obtain w1 where g: "store_GetProjectSandbox rs c p w = (Inr s, w1)" and s: "s \<noteq> SandboxID ''''"
    and go: "IsSandboxGone (deployed ttl r k (redis_Store ord rs)) c s w1 = (Inr False, w')"
    using assms by (auto simp: live_sandbox_def split: prod.splits sum.splits if_splits bool.splits)
  obtain y w2 where re: "IsSandboxReleased rs c s w1 = (y, w2)" by fastforce
  have gk: "k8s_IsSandboxGone k c s w2 = (Inr False, w')"
    using go re by (auto simp: IsSandboxGone_def split: if_splits prod.splits sum.splits)
  have f1: "db w1 = db w" "clk w \<le> clk w1" using GetProjectSandbox_db [OF g] by simp_all
  have "pods w1 = pods w"
    using g by (auto simp: store_GetProjectSandbox_def store_client split: prod.splits sum.splits if_splits
        dest: redis_frames)
  moreover have "pods w2 = pods w1"
    using re by (auto simp: IsSandboxReleased_def store_client split: prod.splits sum.splits dest: redis_frames)
  ultimately have p: "pods w2 = pods w" by simp
  have "clk w1 \<le> clk w2" "db w2 = db w1" using IsSandboxReleased_db [OF re] by simp_all
  moreover have "clk w2 \<le> clk w'" "db w' = db w2" "pods w' = pods w2"
    using IsSandboxGone_frame [OF gk] by simp_all
  moreover have "pod_of k pods w2 s \<noteq> None" using IsSandboxGone_Inr [OF gk] by simp
  ultimately show ?thesis
    using s f1 p GetProjectSandbox_Inr [OF g] by (auto simp: pod_of_def intro!: exI [of _ "clk w1"])
qed

end

section \<open>Time and answers of the service\<close>

context k8s_client
begin

lemma wait_ready_loop_clock:
  "wait_ready_loop k c s wks w = (x, w') \<Longrightarrow> clock_wakes clk wks \<Longrightarrow> clk w \<le> clk w'"
proof (induction wks arbitrary: w)
  case Nil
  then show ?case by simp
next
  case (Cons wk wks)
  let ?w1 = "wake_env wk w"
  have w1: "clk w \<le> clk ?w1" using Cons.prems(2) by simp
  obtain y w2 where y: "k8s_IsSandboxReady k c s ?w1 = (y, w2)" by fastforce
  obtain z w3 where z: "k8s_IsSandboxGone k c s w2 = (z, w3)" by fastforce
  have le: "clk w \<le> clk w2" "clk w \<le> clk w3"
    using w1 IsSandboxReady_frame [OF y] IsSandboxGone_frame [OF z] by linarith+
  have rest: "wait_ready_loop k c s wks v = (x, w') \<Longrightarrow> clk w \<le> clk v \<Longrightarrow> clk w \<le> clk w'" for v
    using Cons.IH [of v] Cons.prems(2) by fastforce
  show ?case
    using Cons.prems(1) w1 le rest [OF _ le(1)] rest [OF _ le(2)]
    by (auto simp: y z Let_def split: option.splits bool.splits sum.splits if_splits)
qed

lemma WaitForSandboxReady_clock:
  assumes "k8s_WaitForSandboxReady k wks c s w = (x, w')" and "clock_wakes clk wks"
  shows "clk w \<le> clk w'"
proof -
  obtain y w1 where y: "k8s_IsSandboxReady k c s w = (y, w1)" by fastforce
  then have "clk w \<le> clk w1" using IsSandboxReady_frame by blast
  then show ?thesis using assms y wait_ready_loop_clock [of c s wks w1 x w']
    by (auto simp: k8s_WaitForSandboxReady_def split: sum.splits bool.splits)
qed

end

context project_deployment
begin

lemma live_sandbox_frame:
  assumes "live_sandbox (service ps) c p w = (x, w')"
  shows "db w' = db w \<and> clk w \<le> clk w'"
proof -
  obtain y w1 where g: "store_GetProjectSandbox rs c p w = (y, w1)" by fastforce
  note f = GetProjectSandbox_db [OF g]
  have gone: "db w' = db v \<and> clk v \<le> clk w'"
    if "IsSandboxGone (deployed ttl r k (redis_Store ord rs)) c s v = (z, w')" for s v z
    using that IsSandboxReleased_db IsSandboxGone_frame
    by (fastforce simp: IsSandboxGone_def split: prod.splits sum.splits if_splits)
  show ?thesis using assms g f gone
    by (fastforce simp: live_sandbox_def split: prod.splits sum.splits if_splits bool.splits)
qed

lemma obtain_sandbox_Inr:
  assumes "obtain_sandbox (service ps) wks c p w = (Some (Inr s), w')"
    and "pl_store ps = redis_PoolStore pl" and "clock_wakes clk wks"
    and "0 \<le> clk w" and "clk w' + 255 < 2 ^ 63"
  shows "s \<noteq> SandboxID ''''"
proof -
  obtain y w1 where g: "GetReadySandbox pl c w = (y, w1)" by fastforce
  have "clk w \<le> clk w1"
    using g by (auto simp: GetReadySandbox_def split: prod.splits sum.splits list.splits
        dest: rp.redis_moves)
  then have sch: "s \<noteq> SandboxID ''''"
    if "ScheduleSandbox (deployed ttl r k (redis_Store ord rs)) wks c (pid p) w1 = (Some (Inr s), w')"
    using schedule_valid [OF that assms(3)] assms(4,5) by simp
  show ?thesis
    using assms(1,2) g sch
    by (auto simp: obtain_sandbox_def GetSandbox_def split: prod.splits sum.splits option.splits if_splits)
qed

lemma assign_clock: "clk w \<le> clk (assign_sandbox (service ps) c p s w)"
proof -
  obtain e w1 where s: "SetProjectSandbox rs c p s w = (e, w1)" by fastforce
  obtain e' w2 where u: "CreateOrUpdateProjectService k c p s w1 = (e', w2)" by fastforce
  have "clk w \<le> clk w1"
    using s by (auto simp: SetProjectSandbox_def split: prod.splits option.splits dest: redis_moves)
  moreover have "clk w1 \<le> clk w2" using CreateOrUpdate_frame [OF u] by simp
  ultimately show ?thesis using s u by (simp add: assign_sandbox_def)
qed

text \<open>Every answer is an error without a response, or the error response, or a sandbox.\<close>

lemma GetProjectSandbox_answer:
  assumes "GetProjectSandbox (service ps) wks wks' c p wait w = (Some (resp, e), w')"
    and "pl_store ps = redis_PoolStore pl" and "clock_wakes clk wks" and "clock_wakes clk wks'"
    and "0 \<le> clk w" and "clk w' + 255 < 2 ^ 63"
  shows "e \<noteq> None \<and> resp \<in> {None, Some error_response} \<or>
    e = None \<and> (\<exists>s st. s \<noteq> SandboxID '''' \<and> resp = Some (sandbox_response (service ps) p s st) \<and>
      (st = STATUS_ACTIVE \<or> st = STATUS_CREATING \<and> \<not> wait))"
proof -
  obtain lo w1 where l: "live_sandbox (service ps) c p w = (lo, w1)" by fastforce
  note c1 = live_sandbox_frame [OF l]
  show ?thesis
  proof (cases lo)
    case (Some s)
    then show ?thesis using assms(1) l live_sandbox_Some [of ps c p w s w1]
      by (auto simp: GetProjectSandbox_def)
  next
    case None
    obtain ob w2 where o': "obtain_sandbox (service ps) wks c p w1 = (ob, w2)" by fastforce
    show ?thesis
    proof (cases "\<exists>s. ob = Some (Inr s)")
      case False
      then show ?thesis using assms(1) l None o'
        by (auto simp: GetProjectSandbox_def split: option.splits sum.splits prod.splits bool.splits)
    next
      case True
      then obtain s where ob: "ob = Some (Inr s)" by blast
      let ?w3 = "assign_sandbox (service ps) c p s w2"
      obtain x w4 where x: "k8s_WaitForSandboxReady k wks' c s ?w3 = (x, w4)" by fastforce
      have w': "w' = (if wait then w4 else ?w3)"
        using assms(1) l None o' ob x
        by (auto simp: GetProjectSandbox_def WaitForSandboxReady_def Let_def split: option.splits sum.splits if_splits)
      have "clk w2 \<le> clk w'"
        using assign_clock [of w2 ps c p s] WaitForSandboxReady_clock [OF x assms(4)] w' by auto
      then have s: "s \<noteq> SandboxID ''''"
        using obtain_sandbox_Inr [OF o' [unfolded ob] assms(2,3)] c1 assms(5,6) by linarith
      then have "b" if "x = Some (Inr b)" for b
        using be.wait_answer [of wks' c s ?w3 b w4] x that
        by (cases s) (auto simp: k8s_iface_def sandbox_IsValid_def)
      then show ?thesis
        using assms(1) l None o' ob x s
        by (auto simp: GetProjectSandbox_def WaitForSandboxReady_def Let_def split: option.splits sum.splits if_splits)
    qed
  qed
qed

end

text \<open>Looking for a sandbox does not touch the mappings of projects.\<close>

lemma mapped_sandbox_keys:
  "(\<And>p. keys D' (formProjectSandboxKey rs p) = keys D (formProjectSandboxKey rs p)) \<Longrightarrow>
     mapped_sandbox rs t D' = mapped_sandbox rs t D"
  by (simp add: mapped_sandbox_def lookup_def fun_eq_iff)

context project_deployment
begin

lemma store_key_foreign: "foreign_key r (formProjectSandboxKey rs p)"
  by (simp add: foreign_key_def idem_keys formProjectSandboxKey_def store_prefix)

lemma store_key_not_pool: "formProjectSandboxKey rs p \<noteq> getKey pl x"
  by (simp add: formProjectSandboxKey_def getKey_def pool_prefix store_prefix)

lemma schedule_keeps_mappings:
  assumes "run_wakes r db clk wks"
    and "ScheduleSandbox (deployed ttl r k (redis_Store ord rs)) wks c key w = (x, w')"
  shows "keys (db w') (formProjectSandboxKey rs p) = keys (db w) (formProjectSandboxKey rs p)"
proof (rule ScheduleSandbox_steps [where Q = "\<lambda>v v'. keys (db v') (formProjectSandboxKey rs p) =
    keys (db v) (formProjectSandboxKey rs p)", OF assms(2)], goal_cases)
  case (3 c' qo v v')
  then show ?case using ri.claim_keeps_key [OF _ assms(1) store_key_foreign] by simp
next
  case (4 y v v')
  then show ?case using ScheduleSandbox_frame by simp
next
  case (5 q s c' key' sb e u u' v v')
  then have "s = redis_sink r" using claim_store by fastforce
  then show ?case using 5(3) ri.Complete_keeps_key [OF _ store_key_foreign] by (simp add: redis_sink_def)
next
  case (6 q s c' key' e u u' v v')
  then have "s = redis_sink r" using claim_store by fastforce
  then show ?case using 6(3) ri.Drop_keeps_key [OF _ store_key_foreign] by (simp add: redis_sink_def)
qed simp_all

lemma take_keeps_mappings:
  assumes "GetReadySandbox pl c w = (y, w')"
  shows "keys (db w') (formProjectSandboxKey rs p) = keys (db w) (formProjectSandboxKey rs p)"
proof -
  obtain z where z: "rd_ZPopMin (rp_client pl) c (getKey pl readySandboxesKey) 1 w = (z, w')"
    using assms by (auto simp: GetReadySandbox_def split: prod.splits sum.splits list.splits)
  have "db w' = db w \<or> (\<exists>t zs. db w' = zput t (getKey pl readySandboxesKey) zs (db w))"
    using rp.ZPopMin_ok rp.ZPopMin_err z by (cases z) blast+
  then show ?thesis using store_key_not_pool by (auto simp: zput_def)
qed

lemma obtain_keeps_mappings:
  assumes "obtain_sandbox (service ps) wks c p w = (x, w')" and "pl_store ps = redis_PoolStore pl"
    and "run_wakes r db clk wks"
  shows "mapped_sandbox rs t (db w') = mapped_sandbox rs t (db w)"
proof (rule mapped_sandbox_keys)
  fix q
  obtain y w1 where g: "GetReadySandbox pl c w = (y, w1)" by fastforce
  obtain z w2 where s: "ScheduleSandbox (deployed ttl r k (redis_Store ord rs)) wks c (pid p) w1 = (z, w2)"
    by fastforce
  have "w' = w1 \<or> w' = w2"
    using assms(1,2) g s
    by (auto simp: obtain_sandbox_def GetSandbox_def split: sum.splits prod.splits option.splits if_splits)
  then show "keys (db w') (formProjectSandboxKey rs q) = keys (db w) (formProjectSandboxKey rs q)"
    using take_keeps_mappings [OF g] schedule_keeps_mappings [OF assms(3) s] by auto
qed

text \<open>A sandbox counts as gone for one of two reasons.\<close>

lemma gone_reason:
  assumes "store_GetProjectSandbox rs c p w = (x, w1)"
    and "IsSandboxGone (deployed ttl r k (redis_Store ord rs)) c s w1 = (Inr True, w2)"
  shows "pod_of k pods w s = None \<or> (\<exists>t \<le> clk w2. released_at rs t (db w) s)"
proof -
  obtain y v where re: "IsSandboxReleased rs c s w1 = (y, v)" by fastforce
  have 1: "db w1 = db w" "pods w1 = pods w"
    using GetProjectSandbox_db [OF assms(1)] assms(1)
    by (auto simp: store_GetProjectSandbox_def store_client split: prod.splits sum.splits if_splits
        dest: rp.redis_moves redis_frames)
  have 2: "pods v = pods w1"
    using re by (auto simp: IsSandboxReleased_def store_client split: prod.splits sum.splits dest: redis_frames)
  show ?thesis
  proof (cases "y = Inr True")
    case True
    then have "v = w2" using assms(2) re by (simp add: IsSandboxGone_def)
    then show ?thesis using IsSandboxReleased_Inr [OF re [unfolded True]] 1 by auto
  next
    case False
    then have "k8s_IsSandboxGone k c s v = (Inr True, w2)"
      using assms(2) re by (auto simp: IsSandboxGone_def split: prod.splits sum.splits)
    then show ?thesis using IsSandboxGone_Inr 1 2 by (fastforce simp: pod_of_def)
  qed
qed

end

context project_deployment
begin

lemma server_answers:
  assumes "pl_store ps = redis_PoolStore pl"
    and "clock_wakes clk wks" and "clock_wakes clk wks'" and "0 \<le> clk w" and "clk w' + 255 < 2 ^ 63"
    and "server_GetProjectSandbox (service ps) wks wks' c projectId wait w = (Some (resp, e), w')"
  shows "(if e = None
      then \<exists>x. resp = Some x \<and> rs_SandboxId x \<noteq> '''' \<and> projectId \<noteq> '''' \<and>
        rs_Hostname x = ''project-'' @ projectId @ ''.'' @ namespace k @ ''.svc'' \<and>
        (rs_Status x = STATUS_ACTIVE \<or> rs_Status x = STATUS_CREATING \<and> \<not> wait)
      else resp = None) \<and>
    (projectId = '''' \<longrightarrow> e = Some ErrEmptyID \<and> w' = w)"
proof (cases "projectId = ''''")
  case True
  then show ?thesis using assms(6)
    by (auto simp: server_GetProjectSandbox_def NewProjectIDWithoutPrefix_def NewProjectID_def trim_prefix_def)
next
  case False
  then have p: "NewProjectIDWithoutPrefix projectId = Inr (ProjectID projectId)"
    by (simp add: NewProjectIDWithoutPrefix_def NewProjectID_def trim_prefix_def)
  obtain resp' where g: "GetProjectSandbox (service ps) wks wks' c (ProjectID projectId) wait w =
      (Some (resp', e), w')" and resp: "resp = (if e = None then resp' else None)"
    using assms(6) p by (auto simp: server_GetProjectSandbox_def split: prod.splits option.splits)
  have h: "GetProjectServiceHostname k (ProjectID projectId) = ''project-'' @ projectId @ ''.'' @ namespace k @ ''.svc''"
    using False by (simp add: GetProjectServiceHostname_def project_WithPrefix_def project_IsValid_def ProjectPrefix_def)
  show ?thesis
    using GetProjectSandbox_answer [OF g assms(1-5)] resp False h
    by (auto simp: sandbox_response_def sandbox_id.expand)
qed

end

section \<open>The service on the simulated cluster\<close>

interpretation sim_pr: project_deployment sim_redis w_db w_clk sim_client sim_pods sim_svcs sim_idem
  "minutes 15" "\<lambda>xs. xs" sim_store sim_pool
  by (intro project_deployment.intro project_deployment_axioms.intro sim_pool_deployment
      sim_ps.redis_backed_store_axioms)
     (simp_all add: sim_store_def sim_idem_def)

lemma sim_project_deployment:
  "project_deployment sim_redis w_db w_clk sim_client sim_pods sim_svcs sim_idem (\<lambda>xs. xs) sim_store sim_pool"
  by (rule sim_pr.project_deployment_axioms)

definition sim_service :: "world project_service" where
  "sim_service = wired (minutes 15) sim_idem sim_client sim_store (\<lambda>xs. xs) (sim_pool_service 5 10)"

lemma sim_pool_service_simps [simp]: "pl_store (sim_pool_service n m) = redis_PoolStore sim_pool"
  by (simp add: sim_pool_service_def)

text \<open>The simulated calls of a request, on a world of which only the facts they need are known.\<close>

lemma background_ctx [simp]: "ctx_err background t = None"
  by (simp add: ctx_err_def background_def)

lemma tick_db: "(tick w)\<lparr>w_db := w_db w\<rparr> = tick w"
  by (simp add: tick_def)

lemma sim_get_found:
  assumes "w_up w" and "lookup (w_clk w + millis 1) (w_db w) (formProjectSandboxKey sim_store p) = Some (RStr v)"
    and "NewSandboxID v = Inr s"
  shows "store_GetProjectSandbox sim_store background p w = (Inr s, tick w)"
  using assms by (simp add: store_GetProjectSandbox_def sim_redis_def redis_call_def get_reply_def tick_def)

lemma sim_get_missing:
  assumes "w_up w" and "lookup (w_clk w + millis 1) (w_db w) (formProjectSandboxKey sim_store p) = None"
  shows "store_GetProjectSandbox sim_store background p w = (Inl ErrNotFound, tick w)"
  using assms by (simp add: store_GetProjectSandbox_def sim_redis_def redis_call_def get_reply_def tick_def)

lemma sim_not_gone:
  assumes "w_up w" and "w_kube_up w" and "lookup (w_clk w + millis 1) (w_db w) (formReleasedKey sim_store s) = None"
    and "sim_pods w DefaultNamespace (sandbox_WithPrefix s) \<noteq> None"
  shows "IsSandboxGone sim_sched background s w = (Inr False, tick (tick w))"
  using assms
  by (auto simp: IsSandboxGone_def sim_sched_def IsSandboxReleased_def sim_redis_def redis_call_def
      k8s_IsSandboxGone_def sim_kube_def kube_call_def tick_db)

lemma sim_take:
  assumes "w_up w" and "zmembers (w_clk w + millis 1) (w_db w) (getKey sim_pool readySandboxesKey) = z # zs"
  shows "GetReadySandbox sim_pool background w = (NewSandboxID (snd z), (tick w)\<lparr>w_db :=
    zput (w_clk w + millis 1) (getKey sim_pool readySandboxesKey) zs (w_db w)\<rparr>)"
  using assms by (simp add: GetReadySandbox_def sim_redis_def redis_call_def)

lemma sim_set:
  assumes "w_up w"
  shows "SetProjectSandbox sim_store background p s w = (None, (tick w)\<lparr>w_db := run_pcmds (w_clk w + millis 1)
        [PSet (formProjectSandboxKey sim_store p) (sid s) projectSandboxTTL,
         PSet (formSandboxProjectKey sim_store s) (pid p) projectSandboxTTL,
         PSAdd (formAllProjectsSetKey sim_store) (pid p),
         PExpire (formAllProjectsSetKey sim_store) projectSandboxTTL,
         PPublish projectUpdateChannel (update_message p s)] (w_db w)\<rparr>)"
  using assms by (simp add: SetProjectSandbox_def sim_redis_def sim_Exec_def redis_call_def)

lemmas set_eval = sim_set init_world_def empty_db_def projectSandboxTTL_def put_def lookup_def alive_def
  sput_def smembers_def expiry_def publish_def durations

lemma sim_new_service:
  assumes "w_kube_up w" and "sim_svcs w DefaultNamespace (project_WithPrefix p) = None"
  shows "CreateOrUpdateProjectService sim_client background p s w = (None, (tick (tick w))\<lparr>w_svcs :=
      ((DefaultNamespace, project_WithPrefix p), project_service_object sim_client p s) # w_svcs w\<rparr>)"
  using assms
  by (simp add: CreateOrUpdateProjectService_def sim_kube_def kube_call_def err_of_def Let_def
      project_service_object_def)

text \<open>A world in which the project has a live sandbox: the server answers with it.\<close>

lemma sim_active_server:
  "\<exists>w w' x. 0 \<le> w_clk w \<and> w_clk w' + 255 < 2 ^ 63 \<and>
     server_GetProjectSandbox sim_service [] [] background ''a'' wait w = (Some (Some x, None), w')"
proof -
  let ?w0 = "snd (SetProjectSandbox sim_store background (ProjectID ''a'') (SandboxID ''s'') init_world)"
  let ?w = "?w0\<lparr>w_pods := [((DefaultNamespace, ''sandbox-s''), sandbox_pod sim_client (SandboxID ''s''))]\<rparr>"
  have n: "NewSandboxID ''s'' = Inr (SandboxID ''s'')" "sandbox_WithPrefix (SandboxID ''s'') = ''sandbox-s''"
    "NewProjectIDWithoutPrefix ''a'' = Inr (ProjectID ''a'')"
    by (simp_all add: NewSandboxID_def sandbox_WithPrefix_def sandbox_IsValid_def trim_prefix_def SandboxPrefix_def
        NewProjectIDWithoutPrefix_def NewProjectID_def)
  have w: "w_up ?w" "w_kube_up ?w" "w_clk ?w = seconds 1000 + millis 1"
    "sim_pods ?w DefaultNamespace ''sandbox-s'' \<noteq> None"
    by (simp_all add: sim_set init_world_def sim_pods_def)
  have g: "store_GetProjectSandbox sim_store background (ProjectID ''a'') ?w = (Inr (SandboxID ''s''), tick ?w)"
    using w by (intro sim_get_found [where v = "''s''"] n) (simp_all add: set_eval)
  have i: "IsSandboxGone sim_sched background (SandboxID ''s'') (tick ?w) = (Inr False, tick (tick (tick ?w)))"
    using w n by (intro sim_not_gone) (simp_all add: set_eval)
  have "server_GetProjectSandbox sim_service [] [] background ''a'' wait ?w =
      (Some (Some (sandbox_response sim_service (ProjectID ''a'') (SandboxID ''s'') STATUS_ACTIVE), None),
       tick (tick (tick ?w)))"
    using g i n by (simp add: server_GetProjectSandbox_def GetProjectSandbox_def live_sandbox_def sim_service_def
        sim_sched_def)
  then show ?thesis using w by (intro exI [of _ ?w] exI [of _ "tick (tick (tick ?w))"]) (auto simp: durations)
qed

section \<open>Properties of the project service\<close>

text \<open>
  C8 (what the RPC answers). Whatever the store, the API server and the other callers do:
  an answer of \<open>GetProjectSandbox\<close> is either an error without a response, or a response with
  a sandbox, the host name of the project's service, and a status that is ACTIVE, or CREATING
  when the caller did not ask to wait. The error statuses never reach a caller. An empty
  project identifier is refused without any effect.
\<close>

theorem server_answer:
  assumes "project_deployment R db clk k pods svcs r ord rs pl" and "pl_store ps = redis_PoolStore pl"
    and "clock_wakes clk wks" and "clock_wakes clk wks'" and "0 \<le> clk w" and "clk w' + 255 < 2 ^ 63"
    and "server_GetProjectSandbox (wired ttl r k rs ord ps) wks wks' c projectId wait w =
      (Some (resp, e), w')"
  shows "(if e = None
      then \<exists>x. resp = Some x \<and> rs_SandboxId x \<noteq> '''' \<and> projectId \<noteq> '''' \<and>
        rs_Hostname x = ''project-'' @ projectId @ ''.'' @ namespace k @ ''.svc'' \<and>
        (rs_Status x = STATUS_ACTIVE \<or> rs_Status x = STATUS_CREATING \<and> \<not> wait)
      else resp = None) \<and>
    (projectId = '''' \<longrightarrow> e = Some ErrEmptyID \<and> w' = w)"
  by (rule project_deployment.server_answers [OF assms])

theorem server_answer_witness:
  "\<exists>w x w'. server_GetProjectSandbox sim_service [] [] background ''a'' False w = (Some (Some x, None), w') \<and>
     rs_Hostname x = ''project-a.sandbox.svc''"
proof -
  obtain w w' x where w: "0 \<le> w_clk w" "w_clk w' + 255 < 2 ^ 63"
    and r: "server_GetProjectSandbox sim_service [] [] background ''a'' False w = (Some (Some x, None), w')"
    using sim_active_server by blast
  show ?thesis
    using server_answer [OF sim_project_deployment _ _ _ w r [unfolded sim_service_def]] r
    by (auto simp: DefaultNamespace_def sim_client_def)
qed

text \<open>
  C27 (a request that obtains no sandbox). When the pool fails with an error other than
  being empty, the caller gets that error and no response, whatever the scheduler would have
  done; when it is empty and scheduling fails, the caller gets an error response with a
  wrapped error. In both cases the mappings of all projects are as before.
\<close>

theorem project_errors:
  assumes "project_deployment R db clk k pods svcs r ord rs pl" and "pl_store ps = redis_PoolStore pl"
    and "svc = wired ttl r k rs ord ps" and "run_wakes r db clk wks"
    and "live_sandbox svc c p w = (None, w1)" and "GetReadySandbox pl c w1 = (Inl e, w2)"
  shows "(\<not> errors_is e ErrPoolEmpty \<longrightarrow>
      GetProjectSandbox svc wks wks' c p wait w = (Some (None, Some e), w2) \<and>
      (\<forall>t. mapped_sandbox rs t (db w2) = mapped_sandbox rs t (db w))) \<and>
    (\<forall>e' w3. errors_is e ErrPoolEmpty \<and>
      ScheduleSandbox (pr_scheduler svc) wks c (pid p) w2 = (Some (Inl e'), w3) \<longrightarrow>
      GetProjectSandbox svc wks wks' c p wait w =
          (Some (Some error_response, Some (errorf_v ''failed to create sandbox: '' e')), w3) \<and>
      (\<forall>t. mapped_sandbox rs t (db w3) = mapped_sandbox rs t (db w)))"
proof -
  note P = assms(1)
  have db: "db w1 = db w" using project_deployment.live_sandbox_frame [OF P] assms(3,5) by fastforce
  let ?o = "obtain_sandbox svc wks c p w1"
  have m: "mapped_sandbox rs t (db (snd ?o)) = mapped_sandbox rs t (db w1)" for t
    using project_deployment.obtain_keeps_mappings [OF P _ assms(2,4)] assms(3) by (metis prod.collapse)
  have pool: "?o = (Some (Inl (e, True)), w2)" if "\<not> errors_is e ErrPoolEmpty"
    using assms(2,3,6) that by (simp add: obtain_sandbox_def GetSandbox_def redis_PoolStore_simps)
  have sched: "?o = (Some (Inl (e', False)), w3)"
    if "errors_is e ErrPoolEmpty" "ScheduleSandbox (pr_scheduler svc) wks c (pid p) w2 = (Some (Inl e'), w3)" for e' w3
    using assms(2,3,6) that by (simp add: obtain_sandbox_def GetSandbox_def redis_PoolStore_simps)
  show ?thesis using pool sched m db assms(5) by (auto simp: GetProjectSandbox_def)
qed

text \<open>Both cases: no Redis but a scheduler that could create a pod; an empty pool and no API server.\<close>

theorem project_errors_witness:
  "fst (GetProjectSandbox sim_service [] [] background (ProjectID ''a'') False (init_world\<lparr>w_up := False\<rparr>)) =
     Some (None, Some down) \<and>
   (\<exists>e. fst (GetProjectSandbox sim_service [] [] background (ProjectID ''a'') False (init_world\<lparr>w_kube_up := False\<rparr>)) =
     Some (Some error_response, Some (errorf_v ''failed to create sandbox: '' e)))"
proof -
  let ?w = "init_world\<lparr>w_up := False\<rparr>" and ?u = "init_world\<lparr>w_kube_up := False\<rparr>"
  have l: "live_sandbox sim_service background (ProjectID ''a'') ?w = (None, tick ?w)"
    by (simp add: live_sandbox_def sim_service_def store_GetProjectSandbox_def sim_redis_def redis_call_def
        init_world_def down_def)
  have g: "GetReadySandbox sim_pool background (tick ?w) = (Inl down, tick (tick ?w))"
    by (simp add: GetReadySandbox_def sim_redis_def redis_call_def init_world_def)
  have 1: "fst (GetProjectSandbox sim_service [] [] background (ProjectID ''a'') False ?w) = Some (None, Some down)"
    using project_errors [OF sim_project_deployment _ sim_service_def _ l g, of "[]" "[]" False]
    by (simp add: down_def)
  have l': "live_sandbox sim_service background (ProjectID ''a'') ?u = (None, tick ?u)"
    using sim_get_missing [of ?u "ProjectID ''a''"]
    by (simp add: live_sandbox_def sim_service_def init_world_def empty_db_def lookup_def)
  define v where "v = snd (GetReadySandbox sim_pool background (tick ?u))"
  have g': "GetReadySandbox sim_pool background (tick ?u) = (Inl ErrPoolEmpty, v)"
    by (simp add: v_def GetReadySandbox_def sim_redis_def redis_call_def init_world_def empty_db_def zmembers_def
        lookup_def)
  have v: "w_up v" "\<not> w_kube_up v" "keys (w_db v) = (\<lambda>_. None)"
    by (simp_all add: v_def GetReadySandbox_def sim_redis_def redis_call_def init_world_def empty_db_def zmembers_def
        lookup_def zput_def del_def fun_eq_iff)
  let ?s = "ScheduleSandbox (pr_scheduler sim_service) [] background ''a'' v"
  have "\<exists>e. fst ?s = Some (Inl e)"
    using v
    by (simp add: sim_service_def ScheduleSandbox_def Let_def ClaimOrWait_def GetSandboxID_def MarkPendingCreation_def
        sim_idem_simps sim_redis_def redis_call_def get_reply_def lookup_def with_timeout_def background_def ctx_err_def
        down_def found_sandbox_def check_failed_def HasExistingSandbox_def claim_of_def IsTimeout_def
        k8s_ScheduleSandbox_def sim_kube_def kube_call_def err_of_def deferred_drop_def sim_runtime_def
        durations split_beta)
  then obtain e where e: "?s = (Some (Inl e), snd ?s)" by (metis prod.collapse)
  have 2: "\<exists>e. fst (GetProjectSandbox sim_service [] [] background (ProjectID ''a'') False ?u) =
      Some (Some error_response, Some (errorf_v ''failed to create sandbox: '' e))"
    using project_errors [OF sim_project_deployment _ sim_service_def _ l' g', of "[]" "[]" False] e by auto
  show ?thesis using 1 2 by blast
qed

end
