(* ===== verification/Activator.thy ===== *)
theory Activator
  imports Project_Service
begin

text \<open>
  The activator, \<open>activator/internal/service/activator.go\<close>, and its scheduler client,
  \<open>activator/internal/client/client.go\<close>: a request is forwarded to the sandbox of its
  project, with retries. The transport may leave part of a request's body unread, and the copy
  of a response may break off: both are results of the parameters, so that a retry has only
  the rest of the body and a client may get part of the response. The path of a request is
  the decoded one, and is parsed again as part of the URL it is forwarded to.
\<close>

section \<open>The scheduler client\<close>

definition status_string :: "sandbox_status \<Rightarrow> string" where
  "status_string st =
     (case st of
        STATUS_UNSPECIFIED \<Rightarrow> ''PROJECT_SANDBOX_STATUS_UNSPECIFIED''
      | STATUS_ACTIVE \<Rightarrow> ''PROJECT_SANDBOX_STATUS_ACTIVE''
      | STATUS_CREATING \<Rightarrow> ''PROJECT_SANDBOX_STATUS_CREATING''
      | STATUS_NOT_FOUND \<Rightarrow> ''PROJECT_SANDBOX_STATUS_NOT_FOUND''
      | STATUS_ERROR \<Rightarrow> ''PROJECT_SANDBOX_STATUS_ERROR'')"

text \<open>\<open>rpc\<close> is the generated client's \<open>GetProjectSandbox\<close>: project, wait flag.\<close>

definition client_GetSandbox ::
  "(ctx \<Rightarrow> string \<Rightarrow> bool \<Rightarrow> ('w, err + response) op) \<Rightarrow> ctx \<Rightarrow> string \<Rightarrow> ('w, err + string) op" where
  "client_GetSandbox rpc c projectID w =
     (case rpc c projectID True w of
        (Inl e, w1) \<Rightarrow> (Inl (errorf_v ''failed to get sandbox: '' e), w1)
      | (Inr resp, w1) \<Rightarrow>
          (if rs_Status resp \<noteq> STATUS_ACTIVE
           then (Inl (ErrText (''sandbox not active: '' @ status_string (rs_Status resp))), w1)
           else (Inr (rs_Hostname resp), w1)))"

section \<open>Retries\<close>

record http_request =
  rq_method :: string
  rq_url :: string
  rq_header :: "(string \<times> string list) list"
  rq_body :: string

record http_response =
  hr_status :: int
  hr_header :: "(string \<times> string list) list"
  hr_body :: string

text \<open>
  The service: \<open>as_rpc\<close> the generated client, \<open>as_Do\<close> the HTTP client's \<open>Do\<close> (its result,
  and what it left unread of the request's body, which is a stream), \<open>as_new_request\<close> the
  parsing of \<open>http.NewRequestWithContext\<close> (from the method and the URL's text, the URL that
  is requested, or an error), \<open>as_copy\<close> how far \<open>io.Copy\<close> gets with the body of a
  response (\<open>None\<close>: to its end; \<open>Some n\<close>: it fails after \<open>n\<close> bytes) and \<open>as_scale\<close> the
  product \<open>time.Duration(float64(backoff) * backoffFactor)\<close>.
\<close>

record 'w activator =
  as_rpc :: "ctx \<Rightarrow> string \<Rightarrow> bool \<Rightarrow> ('w, err + response) op"
  as_Do :: "ctx \<Rightarrow> http_request \<Rightarrow> ('w, (err + http_response) \<times> string) op"
  as_new_request :: "string \<Rightarrow> string \<Rightarrow> err + string"
  as_copy :: "http_response \<Rightarrow> ('w, nat option) op"
  as_runtime :: "'w runtime"
  maxRetries :: int
  initialBackoff :: int
  maxBackoff :: int
  as_scale :: "int \<Rightarrow> int"

fun net_temporary :: "err \<Rightarrow> bool" where
  "net_temporary (NetErr s tmp) = tmp"
| "net_temporary e = False"

definition isRetryableError :: "err option \<Rightarrow> bool" where
  "isRetryableError eo =
     (case eo of
        None \<Rightarrow> False
      | Some e \<Rightarrow>
          (let txt = error_text e
           in if str_contains ''no such host'' txt \<or> str_contains ''lookup'' txt \<or> str_contains ''dns'' txt
              then True
              else if str_contains ''connection refused'' txt \<or> str_contains ''connection reset'' txt
                \<or> str_contains ''i/o timeout'' txt
              then True
              else net_temporary e))"

definition next_backoff :: "'w activator \<Rightarrow> int \<Rightarrow> int" where
  "next_backoff a backoff =
     (let b = as_scale a backoff in if b > maxBackoff a then maxBackoff a else b)"

text \<open>
  The two results of \<open>doWithRetry\<close>: a response or nil, an error or nil. The last
  component lists the waits made, in order.
\<close>

type_synonym attempt_result = "http_response option \<times> err option"

text \<open>
  From attempt \<open>attempt\<close> on, with the current backoff, the error of the last attempt and
  the waits so far. \<open>wks\<close> are the wake-ups of the waits (the \<open>select\<close> on the context and
  the timer); when they run out the call is still waiting, and the result is \<open>None\<close>.
\<close>

function retry_loop ::
  "'w activator \<Rightarrow> ctx \<Rightarrow> http_request \<Rightarrow> 'w wake list \<Rightarrow> int \<Rightarrow> int \<Rightarrow> err option \<Rightarrow> int list \<Rightarrow>
     ('w, (attempt_result \<times> int list) option) op" where
  "retry_loop a c req wks attempt backoff err waits w =
     (if attempt > maxRetries a then (Some ((None, err), waits), w)
      else let go = (\<lambda>wks' backoff' waits' w'.
          case as_Do a c req w' of
            ((Inr resp, body), w1) \<Rightarrow> (Some ((Some resp, None), waits'), w1)
          | ((Inl e, body), w1) \<Rightarrow>
              (if \<not> isRetryableError (Some e) then (Some ((None, Some e), waits'), w1)
               else if attempt = maxRetries a
               then (Some ((None, Some (ErrWrap ''max retries reached: '' e)), waits'), w1)
               else retry_loop a c (req\<lparr>rq_body := body\<rparr>) wks' (attempt + 1) backoff' (Some e) waits' w1))
      in if attempt > 0
         then case wks of
           [] \<Rightarrow> (None, w)
         | wk # wks' \<Rightarrow>
             (let w1 = wake_env wk w
              in case (ctx_err c (rt_now (as_runtime a) w1), wake_tick wk) of
                   (Some e, False) \<Rightarrow> (Some ((None, Some e), waits @ [backoff]), w1)
                 | _ \<Rightarrow> go wks' (next_backoff a backoff) (waits @ [backoff]) w1)
         else go wks backoff waits w)"
  by pat_completeness auto
termination
  by (relation "measure (\<lambda>(a, c, req, wks, attempt, backoff, err, waits, w). nat (maxRetries a + 1 - attempt))") auto

declare retry_loop.simps [simp del]

definition doWithRetry ::
  "'w activator \<Rightarrow> ctx \<Rightarrow> http_request \<Rightarrow> 'w wake list \<Rightarrow> ('w, (attempt_result \<times> int list) option) op" where
  "doWithRetry a c req wks w = retry_loop a c req wks 0 (initialBackoff a) None [] w"

section \<open>The handler\<close>

text \<open>
  What the client of the activator gets: status, headers and the bytes written of the body.
  \<open>HandlerPanic\<close> is the dereference of the nil response in the deferred \<open>resp.Body.Close()\<close>.
\<close>

datatype handled = Responds http_response | HandlerPanic

definition http_error :: "string \<Rightarrow> int \<Rightarrow> handled" where
  "http_error msg code =
     Responds \<lparr>hr_status = code,
       hr_header = [(''Content-Type'', [''text/plain; charset=utf-8'']),
                    (''X-Content-Type-Options'', [''nosniff''])],
       hr_body = msg @ [CHR 0x0A]\<rparr>"

text \<open>
  Status and headers of the sandbox's response are sent before its body is copied: when the
  copying fails, the client has got them and the beginning of the body.
\<close>

definition copied :: "nat option \<Rightarrow> http_response \<Rightarrow> http_response" where
  "copied short resp = (case short of None \<Rightarrow> resp | Some n \<Rightarrow> resp\<lparr>hr_body := take n (hr_body resp)\<rparr>)"

lemma copied_simps [simp]: "copied None resp = resp" "hr_status (copied short resp) = hr_status resp"
  by (simp_all add: copied_def split: option.split)

text \<open>
  The request as the handler sees it: \<open>in_path\<close> is \<open>r.URL.Path\<close>, which the HTTP server has
  already decoded (\<open>%3F\<close> in the request's line is a question mark here), \<open>in_query\<close> is
  \<open>r.URL.RawQuery\<close>, which it has not.
\<close>

record inbound =
  in_method :: string
  in_path :: string
  in_query :: string
  in_header :: "(string \<times> string list) list"
  in_body :: string

text \<open>\<open>Header.Get\<close>: the first value of the key, or the empty string.\<close>

definition header_get :: "(string \<times> string list) list \<Rightarrow> string \<Rightarrow> string" where
  "header_get h k = (case map_of h k of Some (v # _) \<Rightarrow> v | _ \<Rightarrow> '''')"

definition target_url :: "string \<Rightarrow> inbound \<Rightarrow> string" where
  "target_url host r =
     (let u = ''http://'' @ host @ '':8000'' @ in_path r
      in if in_query r \<noteq> '''' then u @ ''?'' @ in_query r else u)"

definition forwarded :: "string \<Rightarrow> inbound \<Rightarrow> http_request" where
  "forwarded u r =
     \<lparr>rq_method = in_method r, rq_url = u, rq_header = in_header r, rq_body = in_body r\<rparr>"

definition HandleRequest ::
  "'w activator \<Rightarrow> ctx \<Rightarrow> 'w wake list \<Rightarrow> inbound \<Rightarrow> ('w, handled option) op" where
  "HandleRequest a c wks r w =
     (let projectID = header_get (in_header r) ''Project-Id''
      in if projectID = '''' then (Some (http_error ''No project ID found'' 400), w)
         else case client_GetSandbox (as_rpc a) c projectID w of
           (Inl e, w1) \<Rightarrow> (Some (http_error ''Failed to get sandbox'' 500), w1)
         | (Inr host, w1) \<Rightarrow>
             (case as_new_request a (in_method r) (target_url host r) of
                Inl e \<Rightarrow> (Some (http_error ''Failed to create request'' 500), w1)
              | Inr u \<Rightarrow>
                  (case doWithRetry a c (forwarded u r) wks w1 of
                     (None, w2) \<Rightarrow> (None, w2)
                   | (Some ((resp, Some e), waits), w2) \<Rightarrow>
                       (Some (http_error ''Failed to forward request'' 500), w2)
                   | (Some ((None, None), waits), w2) \<Rightarrow> (Some HandlerPanic, w2)
                   | (Some ((Some resp, None), waits), w2) \<Rightarrow>
                       (let (short, w3) = as_copy a resp w2 in (Some (Responds (copied short resp)), w3)))))"

section \<open>The retry loop\<close>

text \<open>One round of the loop: the wait, unless it is the first round, and the attempt.\<close>

lemma retry_loop_end: "attempt > maxRetries a \<Longrightarrow> retry_loop a c req wks attempt backoff err waits w = (Some ((None, err), waits), w)"
  by (simp add: retry_loop.simps)

lemma retry_loop_first:
  "0 \<le> maxRetries a \<Longrightarrow> retry_loop a c req wks 0 backoff err waits w =
     (case as_Do a c req w of
        ((Inr resp, body), w1) \<Rightarrow> (Some ((Some resp, None), waits), w1)
      | ((Inl e, body), w1) \<Rightarrow>
          (if \<not> isRetryableError (Some e) then (Some ((None, Some e), waits), w1)
           else if maxRetries a = 0
           then (Some ((None, Some (ErrWrap ''max retries reached: '' e)), waits), w1)
           else retry_loop a c (req\<lparr>rq_body := body\<rparr>) wks 1 backoff (Some e) waits w1))"
  by (subst retry_loop.simps) (auto simp: Let_def split: prod.splits sum.splits)

lemma retry_loop_again:
  "0 < attempt \<Longrightarrow> attempt \<le> maxRetries a \<Longrightarrow>
   retry_loop a c req (wk # wks) attempt backoff err waits w =
     (let w1 = wake_env wk w
      in if ctx_err c (rt_now (as_runtime a) w1) \<noteq> None \<and> \<not> wake_tick wk
         then (Some ((None, ctx_err c (rt_now (as_runtime a) w1)), waits @ [backoff]), w1)
         else case as_Do a c req w1 of
           ((Inr resp, body), w2) \<Rightarrow> (Some ((Some resp, None), waits @ [backoff]), w2)
         | ((Inl e, body), w2) \<Rightarrow>
             (if \<not> isRetryableError (Some e) then (Some ((None, Some e), waits @ [backoff]), w2)
              else if attempt = maxRetries a
              then (Some ((None, Some (ErrWrap ''max retries reached: '' e)), waits @ [backoff]), w2)
              else retry_loop a c (req\<lparr>rq_body := body\<rparr>) wks (attempt + 1) (next_backoff a backoff)
                (Some e) (waits @ [backoff]) w2))"
  by (subst retry_loop.simps) (auto simp: Let_def split: prod.splits sum.splits option.splits bool.splits)

lemma retry_loop_asleep:
  "0 < attempt \<Longrightarrow> attempt \<le> maxRetries a \<Longrightarrow> retry_loop a c req [] attempt backoff err waits w = (None, w)"
  by (simp add: retry_loop.simps Let_def)

definition backoffs :: "'w activator \<Rightarrow> int list \<Rightarrow> int \<Rightarrow> bool" where
  "backoffs a ws backoff \<longleftrightarrow> (\<forall>i < length ws. ws ! i = (next_backoff a ^^ i) backoff)"

lemma backoffs_simps [simp]:
  "backoffs a [] b"
  "backoffs a (x # ws) b \<longleftrightarrow> x = b \<and> backoffs a ws (next_backoff a b)"
  by (auto simp: backoffs_def nth_Cons funpow_swap1 split: nat.splits)

lemma retry_loop_rounds:
  "retry_loop a c req wks attempt backoff err waits w = (Some ((resp, e), waits'), w') \<Longrightarrow>
   0 < attempt \<Longrightarrow> attempt \<le> maxRetries a \<Longrightarrow>
     (\<exists>ws. waits' = waits @ ws \<and> length ws \<le> nat (maxRetries a + 1 - attempt) \<and> backoffs a ws backoff) \<and>
     (resp = None) = (e \<noteq> None)"
proof (induction "nat (maxRetries a + 1 - attempt)" arbitrary: req wks attempt backoff err waits w)
  case 0
  then show ?case by simp
next
  case (Suc n)
  obtain wk wks' where wks: "wks = wk # wks'"
    using Suc.prems by (cases wks) (simp_all add: retry_loop_asleep)
  obtain x body w2 where d: "as_Do a c req (wake_env wk w) = ((x, body), w2)" by (metis prod.exhaust)
  have one: "\<exists>ws. waits @ [backoff] = waits @ ws \<and> length ws \<le> nat (maxRetries a + 1 - attempt) \<and> backoffs a ws backoff"
    using Suc.prems by (intro exI [of _ "[backoff]"]) auto
  have rec: "?case" if lt: "attempt < maxRetries a"
    and r: "retry_loop a c (req\<lparr>rq_body := body\<rparr>) wks' (attempt + 1) (next_backoff a backoff) (Some er)
        (waits @ [backoff]) w2 = (Some ((resp, e), waits'), w')" for er
  proof -
    have "n = nat (maxRetries a + 1 - (attempt + 1))" using Suc(2) by simp
    then obtain ws where ws: "waits' = (waits @ [backoff]) @ ws" "length ws \<le> nat (maxRetries a - attempt)"
      "backoffs a ws (next_backoff a backoff)" and "(resp = None) = (e \<noteq> None)"
      using Suc(1) [OF _ r] lt Suc.prems by auto
    then show ?thesis using Suc.prems by (intro conjI exI [of _ "backoff # ws"]) auto
  qed
  show ?case
    using Suc.prems one rec d unfolding wks retry_loop_again [OF Suc.prems(2,3)]
    by (auto simp: Let_def split: if_splits sum.splits) metis+
qed

lemma retry_loop_returns:
  "0 < attempt \<Longrightarrow> nat (maxRetries a + 1 - attempt) \<le> length wks \<Longrightarrow>
     \<exists>y w'. retry_loop a c req wks attempt backoff err waits w = (Some y, w')"
proof (induction wks arbitrary: req attempt backoff err waits w)
  case Nil
  then show ?case by (simp add: retry_loop_end)
next
  case (Cons wk wks)
  show ?case
  proof (cases "attempt \<le> maxRetries a")
    case False
    then show ?thesis by (simp add: retry_loop_end)
  next
    case True
    then show ?thesis using Cons
      by (auto simp: retry_loop_again Let_def split: prod.splits sum.splits)
  qed
qed

lemma later_backoffs:
  assumes "backoffs a ws b" and "x \<in> set (tl ws)"
  shows "x \<le> maxBackoff a"
proof -
  obtain i where "Suc i < length ws" and "x = ws ! Suc i"
    using assms(2) by (cases ws) (auto simp: in_set_conv_nth)
  then have "x = next_backoff a ((next_backoff a ^^ i) b)" using assms(1) by (simp add: backoffs_def)
  then show ?thesis by (simp add: next_backoff_def Let_def split: if_splits)
qed

lemma doWithRetry_result:
  assumes "0 \<le> maxRetries a" and "doWithRetry a c req wks w = (Some ((resp, e), waits), w')"
  shows "(resp = None) = (e \<noteq> None) \<and> length waits \<le> nat (maxRetries a) \<and> backoffs a waits (initialBackoff a)"
proof -
  obtain x body w1 where d: "as_Do a c req w = ((x, body), w1)" by (metis prod.exhaust)
  show ?thesis
  proof (cases "\<exists>er. retry_loop a c (req\<lparr>rq_body := body\<rparr>) wks 1 (initialBackoff a) (Some er) [] w1 =
      (Some ((resp, e), waits), w') \<and> 0 < maxRetries a")
    case True
    then show ?thesis using retry_loop_rounds [of a c _ wks 1 "initialBackoff a" _ "[]" w1 resp e waits w'] by auto
  next
    case False
    then show ?thesis using assms d
      by (auto simp: doWithRetry_def retry_loop_first split: sum.splits if_splits)
  qed
qed

lemma doWithRetry_returns:
  assumes "nat (maxRetries a) \<le> length wks"
  shows "\<exists>y w'. doWithRetry a c req wks w = (Some y, w')"
proof (cases "0 \<le> maxRetries a")
  case False
  then show ?thesis by (simp add: doWithRetry_def retry_loop_end)
next
  case True
  then show ?thesis using assms retry_loop_returns [of 1 a wks]
    by (auto simp: doWithRetry_def retry_loop_first split: prod.splits sum.splits)
qed

section \<open>Properties of the activator\<close>

text \<open>
  C25 (the discipline of the retries). With a maximum of \<open>n\<close> retries, \<open>doWithRetry\<close> gives
  either a response or an error, never both nor neither, after at most \<open>n\<close> waits; the
  \<open>i\<close>-th wait is the initial backoff scaled and capped \<open>i\<close> times, so every wait but the
  first, which is never capped, stays within the maximum.
\<close>

theorem retry_discipline:
  assumes "0 \<le> maxRetries a" and "doWithRetry a c req wks w = (Some ((resp, e), waits), w')"
  shows "(resp = None) = (e \<noteq> None) \<and> length waits \<le> nat (maxRetries a) \<and>
    (\<forall>i < length waits. waits ! i = (next_backoff a ^^ i) (initialBackoff a)) \<and>
    (\<forall>x \<in> set (tl waits). x \<le> maxBackoff a)"
  using doWithRetry_result [OF assms] later_backoffs unfolding backoffs_def by blast

text \<open>A service whose peer refuses the first connection and answers the second.\<close>

definition sim_activator :: "(ctx \<Rightarrow> string \<Rightarrow> bool \<Rightarrow> (world, err + response) op) \<Rightarrow> int \<Rightarrow> world activator" where
  "sim_activator rpc n =
     \<lparr>as_rpc = rpc,
      as_Do = (\<lambda>c req w. if w_uuid w = 7 then ((Inl down, ''''), w\<lparr>w_uuid := 0\<rparr>)
        else ((Inr \<lparr>hr_status = 200, hr_header = [], hr_body = rq_body req\<rparr>, ''''), w)),
      as_new_request = (\<lambda>_ u. Inr u), as_copy = (\<lambda>resp w. (None, w)), as_runtime = sim_runtime, maxRetries = n,
      initialBackoff = millis 500, maxBackoff = seconds 5, as_scale = (\<lambda>b. 2 * b)\<rparr>"

definition sim_request :: http_request where
  "sim_request = \<lparr>rq_method = ''POST'', rq_url = ''http://h:8000/'', rq_header = [], rq_body = ''data''\<rparr>"

definition sim_timer :: "world wake" where
  "sim_timer = \<lparr>wake_env = (\<lambda>w. w\<lparr>w_clk := w_clk w + millis 500\<rparr>), wake_tick = True\<rparr>"

lemma down_retryable: "isRetryableError (Some down)"
  by (simp add: isRetryableError_def down_def str_contains.simps Let_def)

theorem retry_discipline_witness:
  "\<exists>resp waits w'. doWithRetry (sim_activator (\<lambda>_ _ _ w. (Inl down, w)) 3) background sim_request [sim_timer]
      init_world = (Some ((Some resp, None), waits), w') \<and> waits \<noteq> [] \<and> length waits \<le> 3"
proof -
  let ?a = "sim_activator (\<lambda>_ _ _ w. (Inl down, w)) 3"
  have m: "0 \<le> maxRetries ?a" by (simp add: sim_activator_def)
  obtain resp w' where d: "doWithRetry ?a background sim_request [sim_timer] init_world =
      (Some ((Some resp, None), [millis 500]), w')"
    using down_retryable
    by (simp add: doWithRetry_def retry_loop_first retry_loop_again Let_def sim_activator_def init_world_def
        sim_timer_def)
  show ?thesis using retry_discipline [OF m d] d by (simp add: sim_activator_def)
qed

text \<open>
  The request is built once, and its body is a
  stream: when the first attempt has read it and fails, the second one is made without it,
  and its answer is the answer of the whole call.
\<close>

lemma retry_drains_body:
  assumes "0 < maxRetries a" and "as_Do a c req w = ((Inl e, rest), w1)" and "isRetryableError (Some e)"
    and "wake_tick wk" and "as_Do a c (req\<lparr>rq_body := rest\<rparr>) (wake_env wk w1) = ((Inr resp, rest'), w2)"
  shows "doWithRetry a c req (wk # wks) w = (Some ((Some resp, None), [initialBackoff a]), w2)"
  using assms by (simp add: doWithRetry_def retry_loop_first retry_loop_again Let_def)

lemma HandleRequest_outcome:
  assumes "nat (maxRetries a) \<le> length wks"
  shows "\<exists>h w'. HandleRequest a c wks r w = (Some h, w') \<and>
    (0 \<le> maxRetries a \<longrightarrow> h \<noteq> HandlerPanic) \<and>
    (header_get (in_header r) ''Project-Id'' = '''' \<longrightarrow> h = http_error ''No project ID found'' 400 \<and> w' = w) \<and>
    (\<forall>host w1 u. maxRetries a < 0 \<and> header_get (in_header r) ''Project-Id'' \<noteq> '''' \<and>
      client_GetSandbox (as_rpc a) c (header_get (in_header r) ''Project-Id'') w = (Inr host, w1) \<and>
      as_new_request a (in_method r) (target_url host r) = Inr u \<longrightarrow> h = HandlerPanic)"
proof -
  let ?p = "header_get (in_header r) ''Project-Id''"
  obtain y w1 where y: "client_GetSandbox (as_rpc a) c ?p w = (y, w1)" by fastforce
  show ?thesis
  proof (cases "?p = '''' \<or> (\<exists>e. y = Inl e) \<or> (\<exists>host e. y = Inr host \<and> as_new_request a (in_method r) (target_url host r) = Inl e)")
    case True
    then show ?thesis using y by (auto simp: HandleRequest_def http_error_def Let_def)
  next
    case False
    then obtain host u where h: "y = Inr host" "as_new_request a (in_method r) (target_url host r) = Inr u"
      by (cases y; cases "as_new_request a (in_method r) (target_url (projr y) r)") auto
    obtain res e waits w2 where d: "doWithRetry a c (forwarded u r) wks w1 = (Some ((res, e), waits), w2)"
      using doWithRetry_returns [OF assms] by (metis prod.exhaust)
    have ok: "(res = None) = (e \<noteq> None)" if "0 \<le> maxRetries a"
      using doWithRetry_result [OF that d] by blast
    have bad: "res = None \<and> e = None" if "maxRetries a < 0"
      using d that by (simp add: doWithRetry_def retry_loop_end)
    show ?thesis using False y h d ok bad
      by (cases "0 \<le> maxRetries a"; cases res; cases e)
         (auto simp: HandleRequest_def http_error_def Let_def split_beta)
  qed
qed

text \<open>
  C29 (the handler answers). Once its call of the scheduler has returned, the handler answers
  after at most as many waits as retries are allowed. With a maximum of at least zero it
  does not panic; with a negative maximum every request that is to be forwarded makes it
  panic on a nil response. A request without a project is refused without any call.
\<close>

theorem handler_answers:
  assumes "nat (maxRetries a) \<le> length wks"
  shows "\<exists>h w'. HandleRequest a c wks r w = (Some h, w') \<and>
    (0 \<le> maxRetries a \<longrightarrow> h \<noteq> HandlerPanic) \<and>
    (header_get (in_header r) ''Project-Id'' = '''' \<longrightarrow> h = http_error ''No project ID found'' 400 \<and> w' = w) \<and>
    (\<forall>host w1 u. maxRetries a < 0 \<and> header_get (in_header r) ''Project-Id'' \<noteq> '''' \<and>
      client_GetSandbox (as_rpc a) c (header_get (in_header r) ''Project-Id'') w = (Inr host, w1) \<and>
      as_new_request a (in_method r) (target_url host r) = Inr u \<longrightarrow> h = HandlerPanic)"
  by (rule HandleRequest_outcome [OF assms])

theorem handler_answers_witness:
  "\<exists>w'. HandleRequest (sim_activator (\<lambda>_ _ _ w. (Inr \<lparr>rs_SandboxId = ''s'', rs_Status = STATUS_ACTIVE,
      rs_Hostname = ''h''\<rparr>, w)) (- 1)) background [] \<lparr>in_method = ''GET'', in_path = ''/'', in_query = '''',
      in_header = [(''Project-Id'', [''a''])], in_body = ''''\<rparr> init_world = (Some HandlerPanic, w')"
proof -
  let ?a = "sim_activator (\<lambda>_ _ _ w. (Inr \<lparr>rs_SandboxId = ''s'', rs_Status = STATUS_ACTIVE,
      rs_Hostname = ''h''\<rparr>, w)) (- 1)"
  let ?r = "\<lparr>in_method = ''GET'', in_path = ''/'', in_query = '''', in_header = [(''Project-Id'', [''a''])],
      in_body = ''''\<rparr> :: inbound"
  have n: "nat (maxRetries ?a) \<le> length []" by (simp add: sim_activator_def)
  show ?thesis using handler_answers [OF n, of background ?r init_world]
    by (simp add: sim_activator_def client_GetSandbox_def header_get_def)
qed

text \<open>
  C7 (a request reaches its project's sandbox). When the scheduler's server has answered the
  activator's call for a project, the status it gave is ACTIVE, and the activator makes its
  first attempt with the method, the headers and the body of the request at the URL that is
  parsed from "http://", the host name of the project's service, port 8000, the decoded path
  and the query. When that attempt is answered, its response is handed through, its body as
  far as it can be read. When it fails with an error that is not retried, the answer is a
  500. When it fails with one that is, the second attempt is the same request, but with what
  the first one left of the body, and its response is handed through likewise.
\<close>

theorem request_reaches_project:
  assumes "project_deployment R db clk k pods svcs r ord rs pl" and "pl_store ps = redis_PoolStore pl"
    and "clock_wakes clk wks" and "clock_wakes clk wks'" and "0 \<le> clk w" and "clk w1 + 255 < 2 ^ 63"
    and "header_get (in_header q) ''Project-Id'' = project" and "project \<noteq> ''''"
    and "server_GetProjectSandbox (wired ttl r k rs ord ps) wks wks' c project True w = (Some (Some x, None), w1)"
    and "as_rpc a c project True w = (Inr x, w1)"
    and "url = ''http://project-'' @ project @ ''.'' @ namespace k @ ''.svc:8000'' @ in_path q @
      (if in_query q = '''' then '''' else ''?'' @ in_query q)"
    and "as_new_request a (in_method q) url = Inr u" and "0 \<le> maxRetries a"
    and "first = \<lparr>rq_method = in_method q, rq_url = u, rq_header = in_header q, rq_body = in_body q\<rparr>"
    and "as_Do a c first w1 = ((answer, rest), w2)"
  shows "rs_Status x = STATUS_ACTIVE \<and>
    (\<forall>resp short w3. answer = Inr resp \<and> as_copy a resp w2 = (short, w3) \<longrightarrow>
      HandleRequest a c retries q w = (Some (Responds (copied short resp)), w3)) \<and>
    (\<forall>e. answer = Inl e \<and> \<not> isRetryableError (Some e) \<longrightarrow>
      HandleRequest a c retries q w = (Some (http_error ''Failed to forward request'' 500), w2)) \<and>
    (\<forall>e wk more resp rest' w3 short w4. answer = Inl e \<and> isRetryableError (Some e) \<and> 0 < maxRetries a \<and>
      retries = wk # more \<and> wake_tick wk \<and>
      as_Do a c (first\<lparr>rq_body := rest\<rparr>) (wake_env wk w2) = ((Inr resp, rest'), w3) \<and>
      as_copy a resp w3 = (short, w4) \<longrightarrow>
      HandleRequest a c retries q w = (Some (Responds (copied short resp)), w4))"
proof -
  have x: "rs_Status x = STATUS_ACTIVE" "rs_Hostname x = ''project-'' @ project @ ''.'' @ namespace k @ ''.svc''"
    using project_deployment.server_answers [OF assms(1-6,9)] by auto
  have "client_GetSandbox (as_rpc a) c project w = (Inr (rs_Hostname x), w1)"
    using assms(10) x(1) by (simp add: client_GetSandbox_def)
  moreover have "target_url (rs_Hostname x) q = url" using x(2) assms(11) by (simp add: target_url_def)
  moreover have "forwarded u q = first" using assms(14) by (simp add: forwarded_def)
  ultimately have h: "HandleRequest a c retries q w =
      (case doWithRetry a c first retries w1 of
         (None, v) \<Rightarrow> (None, v)
       | (Some ((resp, Some e), waits), v) \<Rightarrow> (Some (http_error ''Failed to forward request'' 500), v)
       | (Some ((None, None), waits), v) \<Rightarrow> (Some HandlerPanic, v)
       | (Some ((Some resp, None), waits), v) \<Rightarrow>
           (let (short, w3) = as_copy a resp v in (Some (Responds (copied short resp)), w3)))"
    using assms(7,8,12) by (simp add: HandleRequest_def)
  have d: "doWithRetry a c first retries w1 = (Some ((Some resp, None), []), w2)" if "answer = Inr resp" for resp
    using assms(13,15) that by (simp add: doWithRetry_def retry_loop_first)
  have n: "doWithRetry a c first retries w1 = (Some ((None, Some e), []), w2)"
    if "answer = Inl e" "\<not> isRetryableError (Some e)" for e
    using assms(13,15) that by (simp add: doWithRetry_def retry_loop_first)
  show ?thesis using x(1) h d n retry_drains_body [of a c first w1 _ rest w2] assms(15)
    by (auto simp: Let_def)
qed

text \<open>The RPC of a server that is called directly; a call still waiting counts as timed out.\<close>
text \<open>The RPC of a server that is called directly; a call still waiting counts as timed out.\<close>

definition direct_rpc ::
  "'w project_service \<Rightarrow> ctx \<Rightarrow> string \<Rightarrow> bool \<Rightarrow> ('w, err + response) op" where
  "direct_rpc svc c p wt w =
     (case server_GetProjectSandbox svc [] [] c p wt w of
        (Some (Some x, None), w1) \<Rightarrow> (Inr x, w1)
      | (Some (_, Some e), w1) \<Rightarrow> (Inl e, w1)
      | (_, w1) \<Rightarrow> (Inl DeadlineExceeded, w1))"

text \<open>A service whose sandbox answers with the body it is sent.\<close>

definition sim_echo :: "(ctx \<Rightarrow> string \<Rightarrow> bool \<Rightarrow> (world, err + response) op) \<Rightarrow> world activator" where
  "sim_echo rpc =
     \<lparr>as_rpc = rpc, as_Do = (\<lambda>c req w. ((Inr \<lparr>hr_status = 200, hr_header = [], hr_body = rq_body req\<rparr>, ''''), w)),
      as_new_request = (\<lambda>_ u. Inr u), as_copy = (\<lambda>resp w. (None, w)), as_runtime = sim_runtime, maxRetries = 3,
      initialBackoff = millis 500, maxBackoff = seconds 5, as_scale = (\<lambda>b. 2 * b)\<rparr>"

definition sim_post :: inbound where
  "sim_post = \<lparr>in_method = ''POST'', in_path = ''/run'', in_query = '''',
     in_header = [(''Project-Id'', [''a''])], in_body = ''data''\<rparr>"

text \<open>
  The witness: a request that the sandbox, which answers with what it is sent, gets and
  answers at the first attempt.
\<close>

theorem request_reaches_project_witness:
  "\<exists>w w' resp. HandleRequest (sim_echo (direct_rpc sim_service)) background [] sim_post w =
     (Some (Responds resp), w') \<and> hr_status resp = 200 \<and> hr_body resp = ''data''"
proof -
  let ?a = "sim_echo (direct_rpc sim_service)"
  let ?u = "''http://project-a.sandbox.svc:8000/run''"
  let ?q = "\<lparr>rq_method = ''POST'', rq_url = ?u, rq_header = [(''Project-Id'', [''a''])], rq_body = ''data''\<rparr>"
  let ?resp = "\<lparr>hr_status = 200, hr_header = [], hr_body = ''data''\<rparr>"
  obtain w w1 x where w: "0 \<le> w_clk w" "w_clk w1 + 255 < 2 ^ 63"
    and s: "server_GetProjectSandbox sim_service [] [] background ''a'' True w = (Some (Some x, None), w1)"
    using sim_active_server by blast
  have rpc: "as_rpc ?a background ''a'' True w = (Inr x, w1)"
    using s by (simp add: sim_echo_def direct_rpc_def)
  have d: "as_Do ?a background ?q w1 = ((Inr ?resp, ''''), w1)" by (simp add: sim_echo_def)
  have q: "in_method sim_post = ''POST''" "in_header sim_post = [(''Project-Id'', [''a''])]"
    "in_body sim_post = ''data''" "in_path sim_post = ''/run''" "in_query sim_post = ''''"
    "header_get (in_header sim_post) ''Project-Id'' = ''a''"
    by (simp_all add: sim_post_def header_get_def)
  have u: "?u = ''http://project-'' @ ''a'' @ ''.'' @ namespace sim_client @ ''.svc:8000'' @ in_path sim_post @
      (if in_query sim_post = '''' then '''' else ''?'' @ in_query sim_post)"
    by (simp add: q sim_client_def DefaultNamespace_def)
  have n: "as_new_request ?a (in_method sim_post) ?u = Inr ?u" "0 \<le> maxRetries ?a" by (simp_all add: sim_echo_def)
  have f: "?q = \<lparr>rq_method = in_method sim_post, rq_url = ?u, rq_header = in_header sim_post, rq_body = in_body sim_post\<rparr>"
    by (simp add: q)
  have "HandleRequest ?a background [] sim_post w = (Some (Responds (copied None ?resp)), w1)"
    using request_reaches_project [OF sim_project_deployment _ _ _ w q(6) _ s [unfolded sim_service_def] rpc u n f d,
        of "[]"] by (auto simp: sim_echo_def)
  then show ?thesis by (intro exI [of _ w] exI [of _ w1] exI [of _ ?resp]) simp
qed

text \<open>
  What \<open>net/http\<close> makes of the target in a request's line: the part before the first question
  mark is decoded and becomes \<open>URL.Path\<close>, the rest is \<open>URL.RawQuery\<close>.
\<close>

definition hex_value :: "char \<Rightarrow> nat option" where
  "hex_value ch =
     (let n = of_char ch :: nat
      in if 48 \<le> n \<and> n \<le> 57 then Some (n - 48)
         else if 65 \<le> n \<and> n \<le> 70 then Some (n - 55)
         else if 97 \<le> n \<and> n \<le> 102 then Some (n - 87)
         else None)"

fun path_unescape :: "string \<Rightarrow> string option" where
  "path_unescape [] = Some []"
| "path_unescape (ch # cs) =
     (if ch \<noteq> CHR ''%'' then map_option ((#) ch) (path_unescape cs)
      else case cs of
        x # y # ds \<Rightarrow>
          (case (hex_value x, hex_value y) of
             (Some m, Some n) \<Rightarrow> map_option ((#) (char_of (16 * m + n))) (path_unescape ds)
           | _ \<Rightarrow> None)
      | _ \<Rightarrow> None)"

definition parse_target :: "string \<Rightarrow> (string \<times> string) option" where
  "parse_target t =
     map_option (\<lambda>p. (p, drop 1 (dropWhile (\<lambda>ch. ch \<noteq> CHR ''?'') t)))
       (path_unescape (takeWhile (\<lambda>ch. ch \<noteq> CHR ''?'') t))"

text \<open>
  C31 (paths are decoded and split again). The target URL is put together from the decoded
  path. A request whose encoded path contains a question mark (\<open>/files/a%3Fb\<close>) is therefore
  handled exactly like the other request with the part before it as its path and the rest as
  its query (\<open>/files/a?b\<close>): whatever the servers and the network do, the sandbox cannot tell
  the two apart.
\<close>

theorem encoded_path_resplit:
  assumes "parse_target t = Some (p, x)" and "x \<noteq> ''''" and "parse_target t' = Some (p @ ''?'' @ x, '''')"
    and "q = \<lparr>in_method = m, in_path = fst (the (parse_target t)), in_query = snd (the (parse_target t)),
      in_header = h, in_body = b\<rparr>"
    and "q' = \<lparr>in_method = m, in_path = fst (the (parse_target t')), in_query = snd (the (parse_target t')),
      in_header = h, in_body = b\<rparr>"
  shows "HandleRequest a c wks q' w = HandleRequest a c wks q w"
proof -
  have "target_url host q' = target_url host q" for host using assms by (simp add: target_url_def)
  moreover have "forwarded u q' = forwarded u q" for u using assms(4,5) by (simp add: forwarded_def)
  moreover have "in_method q' = in_method q" "in_header q' = in_header q" using assms(4,5) by simp_all
  ultimately show ?thesis
    by (simp add: HandleRequest_def cong del: option.case_cong_weak prod.case_cong_weak sum.case_cong_weak if_weak_cong)
qed

text \<open>Two different targets, one answer.\<close>

theorem encoded_path_resplit_witness:
  "parse_target ''/files/a%3Fb'' = Some (''/files/a?b'', '''') \<and> parse_target ''/files/a?b'' = Some (''/files/a'', ''b'') \<and>
   HandleRequest (sim_echo (direct_rpc sim_service)) background []
     (sim_post\<lparr>in_path := ''/files/a?b'', in_query := ''''\<rparr>) init_world =
   HandleRequest (sim_echo (direct_rpc sim_service)) background []
     (sim_post\<lparr>in_path := ''/files/a'', in_query := ''b''\<rparr>) init_world"
proof -
  have 1: "parse_target ''/files/a?b'' = Some (''/files/a'', ''b'')" by (simp add: parse_target_def)
  have 2: "parse_target ''/files/a%3Fb'' = Some (''/files/a'' @ ''?'' @ ''b'', '''')"
    by (simp add: parse_target_def hex_value_def char_of_eq_iff take_bit_eq_mod)
  have "HandleRequest (sim_echo (direct_rpc sim_service)) background []
      (sim_post\<lparr>in_path := ''/files/a?b'', in_query := ''''\<rparr>) init_world =
    HandleRequest (sim_echo (direct_rpc sim_service)) background []
      (sim_post\<lparr>in_path := ''/files/a'', in_query := ''b''\<rparr>) init_world"
    by (rule encoded_path_resplit [OF 1 _ 2]) (simp_all add: 1 2 sim_post_def)
  then show ?thesis using 1 2 by simp
qed

end
