(* ===== verification/Config.thy ===== *)
theory Config
  imports Prelude
begin

text \<open>
  The configuration of the two programs: \<open>scheduler/internal/config/config.go\<close> and
  \<open>activator/internal/config/config.go\<close>. The tags of the structures are the second and
  third argument of the readers below.
\<close>

section \<open>Reading the environment\<close>

text \<open>
  \<open>envconfig.Process\<close> reads the fields in order and stops at the first that it cannot
  parse. A reader is given the prefix, the name and the default of a field.
\<close>

record 'f envconfig =
  ec_int :: "string \<Rightarrow> string \<Rightarrow> string \<Rightarrow> err + int"
  ec_bool :: "string \<Rightarrow> string \<Rightarrow> string \<Rightarrow> err + bool"
  ec_string :: "string \<Rightarrow> string \<Rightarrow> string \<Rightarrow> err + string"
  ec_duration :: "string \<Rightarrow> string \<Rightarrow> string \<Rightarrow> err + int"
  ec_float :: "string \<Rightarrow> string \<Rightarrow> string \<Rightarrow> err + 'f"

definition sum_bind :: "'e + 'a \<Rightarrow> ('a \<Rightarrow> 'e + 'b) \<Rightarrow> 'e + 'b" where
  "sum_bind x f = (case x of Inl e \<Rightarrow> Inl e | Inr a \<Rightarrow> f a)"

lemma sum_bind_simps [simp]:
  "sum_bind (Inl e) f = Inl e" "sum_bind (Inr a) f = f a"
  by (simp_all add: sum_bind_def)

lemma sum_bind_Inr [simp]: "sum_bind x f = Inr b \<longleftrightarrow> (\<exists>a. x = Inr a \<and> f a = Inr b)"
  by (cases x) auto

lemma sum_bind_Inl [simp]: "sum_bind x f = Inl e \<longleftrightarrow> x = Inl e \<or> (\<exists>a. x = Inr a \<and> f a = Inl e)"
  by (cases x) auto

definition wrap_error :: "string \<Rightarrow> err + 'a \<Rightarrow> err + 'a" where
  "wrap_error msg x = (case x of Inl e \<Rightarrow> Inl (ErrWrap msg e) | Inr a \<Rightarrow> Inr a)"

lemma wrap_error_simps [simp]:
  "wrap_error msg (Inl e) = Inl (ErrWrap msg e)" "wrap_error msg (Inr a) = Inr a"
  by (simp_all add: wrap_error_def)

lemma wrap_error_Inr [simp]: "wrap_error msg x = Inr a \<longleftrightarrow> x = Inr a"
  by (cases x) auto

section \<open>The scheduler\<close>

record scheduler_config =
  Port :: int
  XDSPort :: int
  MockMode :: bool
  cf_Namespace :: string
  UseGvisor :: bool
  SandboxImage :: string
  CleanupIntervalSecs :: int
  CleanupBatchSize :: int
  SandboxTTL :: int
  cf_PoolEnabled :: bool
  cf_PoolSize :: int
  PoolRefreshIntervalSecs :: int
  cf_PoolMaxPending :: int
  PoolSandboxTimeout :: int
  RedisURI :: string
  DevelopmentLogging :: bool

definition process_scheduler :: "'f envconfig \<Rightarrow> err + scheduler_config" where
  "process_scheduler E =
     sum_bind (ec_int E '''' ''PORT'' ''50051'') (\<lambda>port.
     sum_bind (ec_int E '''' ''XDS_PORT'' ''50052'') (\<lambda>xdsPort.
     sum_bind (ec_bool E '''' ''MOCK'' ''false'') (\<lambda>mock.
     sum_bind (ec_string E '''' ''NAMESPACE'' ''sandbox'') (\<lambda>ns.
     sum_bind (ec_bool E '''' ''USE_GVISOR'' ''false'') (\<lambda>gvisor.
     sum_bind (ec_string E '''' ''SANDBOX_IMAGE'' ''mock-sandbox:latest'') (\<lambda>image.
     sum_bind (ec_int E '''' ''CLEANUP_INTERVAL_SECS'' ''60'') (\<lambda>interval.
     sum_bind (ec_int E '''' ''CLEANUP_BATCH_SIZE'' ''50'') (\<lambda>batch.
     sum_bind (ec_duration E '''' ''SANDBOX_TTL'' ''15m'') (\<lambda>ttl.
     sum_bind (ec_bool E '''' ''POOL_ENABLED'' ''true'') (\<lambda>pool.
     sum_bind (ec_int E '''' ''POOL_SIZE'' ''5'') (\<lambda>poolSize.
     sum_bind (ec_int E '''' ''POOL_REFRESH_INTERVAL_SECS'' ''15'') (\<lambda>refresh.
     sum_bind (ec_int E '''' ''POOL_MAX_PENDING'' ''10'') (\<lambda>maxPending.
     sum_bind (ec_duration E '''' ''POOL_SANDBOX_TIMEOUT'' ''5m'') (\<lambda>poolTimeout.
     sum_bind (ec_string E '''' ''REDIS_URI'' ''redis://localhost:6379/0'') (\<lambda>uri.
     sum_bind (ec_bool E '''' ''DEVELOPMENT_LOGGING'' ''false'') (\<lambda>dev.
       Inr \<lparr>Port = port, XDSPort = xdsPort, MockMode = mock, cf_Namespace = ns, UseGvisor = gvisor,
            SandboxImage = image, CleanupIntervalSecs = interval, CleanupBatchSize = batch,
            SandboxTTL = ttl, cf_PoolEnabled = pool, cf_PoolSize = poolSize,
            PoolRefreshIntervalSecs = refresh, cf_PoolMaxPending = maxPending,
            PoolSandboxTimeout = poolTimeout, RedisURI = uri, DevelopmentLogging = dev\<rparr>))))))))))))))))"

definition scheduler_LoadConfig :: "'f envconfig \<Rightarrow> err + scheduler_config" where
  "scheduler_LoadConfig E = wrap_error ''failed to process environment config: '' (process_scheduler E)"

section \<open>The activator\<close>

record server_config =
  sv_Port :: int

record scheduler_client_config =
  sl_Address :: string
  sl_Timeout :: int

record logging_config =
  lg_Development :: bool

record 'f http_client_config =
  hc_Timeout :: int
  hc_MaxRetries :: int
  hc_InitialBackoff :: int
  hc_MaxBackoff :: int
  hc_BackoffFactor :: 'f

record 'f activator_config =
  ac_Server :: server_config
  ac_Scheduler :: scheduler_client_config
  ac_Logging :: logging_config
  ac_HTTPClient :: "'f http_client_config"

text \<open>The prefix of a field of a nested structure has the name of the structure in it.\<close>

definition process_activator :: "'f envconfig \<Rightarrow> string \<Rightarrow> err + 'f activator_config" where
  "process_activator E pfx =
     sum_bind (ec_int E (pfx @ ''_SERVER'') ''PORT'' ''8080'') (\<lambda>port.
     sum_bind (ec_string E (pfx @ ''_SCHEDULER'') ''ADDRESS'' ''localhost:50051'') (\<lambda>address.
     sum_bind (ec_duration E (pfx @ ''_SCHEDULER'') ''TIMEOUT'' ''10s'') (\<lambda>timeout.
     sum_bind (ec_bool E (pfx @ ''_LOGGING'') ''DEV'' ''false'') (\<lambda>dev.
     sum_bind (ec_duration E (pfx @ ''_HTTP_CLIENT'') ''TIMEOUT'' ''30s'') (\<lambda>httpTimeout.
     sum_bind (ec_int E (pfx @ ''_HTTP_CLIENT'') ''MAX_RETRIES'' ''3'') (\<lambda>retries.
     sum_bind (ec_duration E (pfx @ ''_HTTP_CLIENT'') ''INITIAL_BACKOFF'' ''500ms'') (\<lambda>initial.
     sum_bind (ec_duration E (pfx @ ''_HTTP_CLIENT'') ''MAX_BACKOFF'' ''5s'') (\<lambda>maxB.
     sum_bind (ec_float E (pfx @ ''_HTTP_CLIENT'') ''BACKOFF_FACTOR'' ''2.0'') (\<lambda>factor.
       Inr \<lparr>ac_Server = \<lparr>sv_Port = port\<rparr>,
            ac_Scheduler = \<lparr>sl_Address = address, sl_Timeout = timeout\<rparr>,
            ac_Logging = \<lparr>lg_Development = dev\<rparr>,
            ac_HTTPClient = \<lparr>hc_Timeout = httpTimeout, hc_MaxRetries = retries, hc_InitialBackoff = initial,
              hc_MaxBackoff = maxB, hc_BackoffFactor = factor\<rparr>\<rparr>)))))))))"

definition activator_LoadConfig :: "'f envconfig \<Rightarrow> err + 'f activator_config" where
  "activator_LoadConfig E = wrap_error ''failed to load configuration: '' (process_activator E ''ACTIVATOR'')"

section \<open>The library\<close>

text \<open>
  A field whose variable is not set gets the value of its default; \<open>two\<close> is the floating
  point number 2.
\<close>

locale envconfig_reader =
  fixes E :: "'f envconfig" and unset :: "string \<Rightarrow> string \<Rightarrow> bool" and two :: 'f
  assumes int_default: "unset p t \<Longrightarrow> n < 2 ^ 63 \<Longrightarrow> ec_int E p t (show_nat n) = Inr (int n)"
    and bool_default: "unset p t \<Longrightarrow> ec_bool E p t ''true'' = Inr True \<and> ec_bool E p t ''false'' = Inr False"
    and string_default: "unset p t \<Longrightarrow> ec_string E p t d = Inr d"
    and minutes_default: "unset p t \<Longrightarrow> n < 2 ^ 20 \<Longrightarrow> ec_duration E p t (show_nat n @ ''m'') = Inr (minutes (int n))"
    and seconds_default: "unset p t \<Longrightarrow> n < 2 ^ 20 \<Longrightarrow> ec_duration E p t (show_nat n @ ''s'') = Inr (seconds (int n))"
    and millis_default: "unset p t \<Longrightarrow> n < 2 ^ 20 \<Longrightarrow> ec_duration E p t (show_nat n @ ''ms'') = Inr (millis (int n))"
    and float_default: "unset p t \<Longrightarrow> ec_float E p t ''2.0'' = Inr two"

lemma shown:
  "show_nat 50051 = ''50051''" "show_nat 50052 = ''50052''" "show_nat 60 = ''60''" "show_nat 50 = ''50''"
  "show_nat 15 = ''15''" "show_nat 5 = ''5''" "show_nat 10 = ''10''" "show_nat 8080 = ''8080''"
  "show_nat 3 = ''3''" "show_nat 30 = ''30''" "show_nat 500 = ''500''"
  by (simp_all add: show_nat.simps char_of_def bit_0)

section \<open>A simulated library\<close>

text \<open>Decimal digits and a unit; nothing is set.\<close>

definition digit :: "char \<Rightarrow> bool" where
  "digit c \<longleftrightarrow> 48 \<le> (of_char c :: nat) \<and> (of_char c :: nat) < 58"

definition read_digits :: "string \<Rightarrow> int" where
  "read_digits s = foldl (\<lambda>n c. 10 * n + int (of_char c - 48)) 0 (takeWhile digit s)"

definition sim_duration :: "string \<Rightarrow> err + int" where
  "sim_duration s =
     (let n = read_digits s; u = dropWhile digit s
      in if u = ''m'' then Inr (minutes n) else if u = ''s'' then Inr (seconds n)
         else if u = ''ms'' then Inr (millis n) else Inl (ErrText ''invalid duration''))"

definition sim_envconfig :: "int envconfig" where
  "sim_envconfig =
     \<lparr>ec_int = (\<lambda>p t d. Inr (read_digits d)),
      ec_bool = (\<lambda>p t d. if d = ''true'' then Inr True else if d = ''false'' then Inr False
        else Inl (ErrText ''invalid bool'')),
      ec_string = (\<lambda>p t d. Inr d),
      ec_duration = (\<lambda>p t d. sim_duration d),
      ec_float = (\<lambda>p t d. if d = ''2.0'' then Inr 2 else Inl (ErrText ''invalid float''))\<rparr>"

lemma digit_simps [simp]: "\<not> digit (CHR ''m'')" "\<not> digit (CHR ''s'')"
  by (simp_all add: digit_def)

lemma of_char_digit: "n < 10 \<Longrightarrow> of_char (char_of (48 + n :: nat)) = 48 + n"
  by simp

lemma shown_digits: "\<forall>c \<in> set (show_nat n). digit c"
proof (induction n rule: show_nat.induct)
  case (1 n)
  then show ?case by (subst show_nat.simps) (auto simp: digit_def of_char_digit)
qed

lemma read_shown:
  "foldl (\<lambda>n c. 10 * n + int (of_char c - 48)) 0 (show_nat n) = int n"
proof (induction n rule: show_nat.induct)
  case (1 n)
  show ?case
  proof (cases "n < 10")
    case True
    then show ?thesis by (subst show_nat.simps) (simp add: of_char_digit)
  next
    case False
    have "10 * int (n div 10) + int (n mod 10) = int n" by presburger
    then show ?thesis using False 1 by (subst show_nat.simps) (simp add: of_char_digit)
  qed
qed

lemma read_digits_shown [simp]:
  "\<not> digit c \<Longrightarrow> read_digits (show_nat n @ c # u) = int n" "read_digits (show_nat n) = int n"
  using shown_digits [of n] read_shown [of n] by (simp_all add: read_digits_def takeWhile_append2 takeWhile_eq_all_conv [THEN iffD2])

lemma drop_digits_shown [simp]: "\<not> digit c \<Longrightarrow> dropWhile digit (show_nat n @ c # u) = c # u"
  using shown_digits [of n] by (simp add: dropWhile_append2)

interpretation sim_ec: envconfig_reader sim_envconfig "\<lambda>p t. True" 2
  by unfold_locales (simp_all add: sim_envconfig_def sim_duration_def Let_def)

section \<open>Defaults\<close>

text \<open>
  With none of its variables set, the scheduler is configured with a pool of five sandboxes
  and at most ten pending ones, a time to live of fifteen minutes and a cleanup every
  minute; the activator retries three times, from half a second on, doubling up to five
  seconds. Neither program fails to read its configuration.
\<close>

lemma config_defaults:
  assumes "envconfig_reader E unset two" and "\<And>p t. unset p t"
  shows "scheduler_LoadConfig E =
      Inr \<lparr>Port = 50051, XDSPort = 50052, MockMode = False, cf_Namespace = ''sandbox'', UseGvisor = False,
           SandboxImage = ''mock-sandbox:latest'', CleanupIntervalSecs = 60, CleanupBatchSize = 50,
           SandboxTTL = minutes 15, cf_PoolEnabled = True, cf_PoolSize = 5, PoolRefreshIntervalSecs = 15,
           cf_PoolMaxPending = 10, PoolSandboxTimeout = minutes 5,
           RedisURI = ''redis://localhost:6379/0'', DevelopmentLogging = False\<rparr> \<and>
    activator_LoadConfig E =
      Inr \<lparr>ac_Server = \<lparr>sv_Port = 8080\<rparr>,
           ac_Scheduler = \<lparr>sl_Address = ''localhost:50051'', sl_Timeout = seconds 10\<rparr>,
           ac_Logging = \<lparr>lg_Development = False\<rparr>,
           ac_HTTPClient = \<lparr>hc_Timeout = seconds 30, hc_MaxRetries = 3, hc_InitialBackoff = millis 500,
             hc_MaxBackoff = seconds 5, hc_BackoffFactor = two\<rparr>\<rparr>"
proof -
  note i = envconfig_reader.int_default [OF assms(1) assms(2)]
  note m = envconfig_reader.minutes_default [OF assms(1) assms(2)]
  note s = envconfig_reader.seconds_default [OF assms(1) assms(2)]
  note x = envconfig_reader.bool_default [OF assms(1) assms(2)]
    envconfig_reader.string_default [OF assms(1) assms(2)] envconfig_reader.float_default [OF assms(1) assms(2)]
    envconfig_reader.millis_default [OF assms(1) assms(2), of 500]
  show ?thesis
    using i [of 50051] i [of 50052] i [of 60] i [of 50] i [of 5] i [of 15] i [of 10] i [of 8080] i [of 3]
      m [of 15] m [of 5] s [of 10] s [of 30] s [of 5] x
    by (simp add: shown scheduler_LoadConfig_def process_scheduler_def activator_LoadConfig_def
        process_activator_def)
qed

lemma sim_defaults:
  "\<exists>s a. scheduler_LoadConfig sim_envconfig = Inr s \<and> activator_LoadConfig sim_envconfig = Inr a \<and>
     cf_PoolSize s = 5 \<and> hc_MaxRetries (ac_HTTPClient a) = 3"
  using config_defaults [OF sim_ec.envconfig_reader_axioms] by simp

end
