(* ===== verification/Startup.thy ===== *)
theory Startup
  imports Activator Xds Config
begin

text \<open>
  How the programs are put together: the Redis client (\<open>persistence/redis.go\<close>,
  \<open>persistence/module.go\<close>), the Kubernetes client (\<open>k8sclient/client.go\<close>,
  \<open>k8sclient/module.go\<close>), and the constructors of the services, from a configuration and
  what the host offers.
\<close>

section \<open>The host\<close>

text \<open>The parts of a \<open>net/url\<close> URL that the source looks at: a user may come without a password.\<close>

record parsed_url =
  url_host :: string
  url_user :: "string option option"
  url_path :: string

record redis_options =
  ro_addr :: string
  ro_password :: string
  ro_db :: int

text \<open>
  Files (\<open>os.Stat\<close>, \<open>os.ReadFile\<close>), the home directory, \<open>url.Parse\<close>, the Redis and
  Kubernetes libraries. \<open>'c\<close> is the type of \<open>rest.Config\<close>; the path of the kubeconfig
  file is given as the elements that \<open>filepath.Join\<close> joins.
\<close>

record ('w, 'c) host =
  ho_stat :: "string \<Rightarrow> err option"
  ho_read_file :: "string \<Rightarrow> err + string"
  ho_home :: string
  ho_url_parse :: "string \<Rightarrow> err + parsed_url"
  ho_redis_client :: "redis_options \<Rightarrow> 'w redis"
  ho_in_cluster_config :: "err + 'c"
  ho_kubeconfig :: "string list \<Rightarrow> err + 'c"
  ho_new_for_config :: "'c \<Rightarrow> err + 'w kube"
  ho_runtime :: "'w runtime"

section \<open>Redis\<close>

definition newRedisClient :: "('w, 'c) host \<Rightarrow> string \<Rightarrow> err + 'w redis" where
  "newRedisClient h redisURI =
     (if redisURI = '''' then Inl (ErrText ''redis URI is required'')
      else case ho_url_parse h redisURI of
        Inl e \<Rightarrow> Inl (ErrWrap ''invalid Redis URI: '' e)
      | Inr uri \<Rightarrow>
          Inr (ho_redis_client h
            \<lparr>ro_addr = url_host uri,
             ro_password = (case url_user uri of Some (Some pw) \<Rightarrow> pw | _ \<Rightarrow> ''''),
             ro_db = 0\<rparr>))"

definition ProvideRedisClient :: "('w, 'c) host \<Rightarrow> scheduler_config \<Rightarrow> err + 'w redis" where
  "ProvideRedisClient h cfg = newRedisClient h (RedisURI cfg)"

definition ProvideStore :: "'w redis \<Rightarrow> err + 'w redisStore" where
  "ProvideStore cl = newRedisStore (Some cl) defaultKeyPrefix"

definition ProvideIdempotenceStore :: "'w runtime \<Rightarrow> 'w redis \<Rightarrow> err + 'w redisIdem" where
  "ProvideIdempotenceStore rt cl = NewIdempotenceStore rt (Some cl) defaultKeyPrefix"

definition ProvideSandboxPoolStore :: "'w runtime \<Rightarrow> 'w redis \<Rightarrow> err + 'w redisPool" where
  "ProvideSandboxPoolStore rt cl = NewRedisSandboxPoolStore rt (Some cl) defaultKeyPrefix"

text \<open>The database number in the path of the address is not looked at.\<close>

lemma redis_db_ignored:
  assumes "u \<noteq> ''''" and "v \<noteq> ''''" and "ho_url_parse h u = Inr x" and "ho_url_parse h v = Inr (x\<lparr>url_path := p\<rparr>)"
  shows "newRedisClient h u = newRedisClient h v"
  using assms by (simp add: newRedisClient_def)

section \<open>Kubernetes\<close>

definition token_file :: string where
  "token_file = ''/var/run/secrets/kubernetes.io/serviceaccount/token''"

definition ca_file :: string where
  "ca_file = ''/var/run/secrets/kubernetes.io/serviceaccount/ca.crt''"

definition namespace_file :: string where
  "namespace_file = ''/var/run/secrets/kubernetes.io/serviceaccount/namespace''"

definition IsRunningInCluster :: "('w, 'c) host \<Rightarrow> bool" where
  "IsRunningInCluster h =
     (if ho_stat h token_file \<noteq> None then False
      else if ho_stat h ca_file \<noteq> None then False
      else ho_stat h namespace_file = None)"

text \<open>\<open>strings.TrimSpace\<close> on the ASCII white space (the only one a namespace file has).\<close>

definition is_space :: "char \<Rightarrow> bool" where
  "is_space c \<longleftrightarrow> c \<in> {CHR 0x09, CHR 0x0A, CHR 0x0B, CHR 0x0C, CHR 0x0D, CHR '' ''}"

definition trim_space :: "string \<Rightarrow> string" where
  "trim_space s = rev (dropWhile is_space (rev (dropWhile is_space s)))"

definition GetInClusterNamespace :: "('w, 'c) host \<Rightarrow> err + string" where
  "GetInClusterNamespace h =
     (case ho_read_file h namespace_file of
        Inl e \<Rightarrow> Inl (errorf_v ''failed to read in-cluster namespace: '' e)
      | Inr text \<Rightarrow>
          (let ns = trim_space text
           in if ns = '''' then Inl (ErrText ''in-cluster namespace is empty'') else Inr ns))"

text \<open>The configuration of the clientset and the namespace, inside a cluster and outside.\<close>

definition rest_config :: "('w, 'c) host \<Rightarrow> scheduler_config \<Rightarrow> err + 'c \<times> string" where
  "rest_config h cfg =
     (if IsRunningInCluster h
      then case ho_in_cluster_config h of
        Inl e \<Rightarrow> Inl (errorf_v ''failed to load in-cluster config: '' e)
      | Inr c \<Rightarrow>
          (case GetInClusterNamespace h of
             Inl e \<Rightarrow> Inr (c, cf_Namespace cfg)
           | Inr ns \<Rightarrow> Inr (c, ns))
      else case ho_kubeconfig h [ho_home h, ''.kube'', ''config''] of
        Inl e \<Rightarrow> Inl (errorf_v ''failed to load kubeconfig: '' e)
      | Inr c \<Rightarrow> Inr (c, cf_Namespace cfg))"

definition NewK8sClient :: "('w, 'c) host \<Rightarrow> scheduler_config \<Rightarrow> err + 'w k8sClient \<times> watcher" where
  "NewK8sClient h cfg =
     (case rest_config h cfg of
        Inl e \<Rightarrow> Inl e
      | Inr (c, ns) \<Rightarrow>
          (case ho_new_for_config h c of
             Inl e \<Rightarrow> Inl (errorf_v ''failed to create clientset: '' e)
           | Inr cs \<Rightarrow>
               Inr (\<lparr>clientset = cs, namespace = ns, useGvisor = UseGvisor cfg,
                     sandboxImage = SandboxImage cfg, runtime = ho_runtime h\<rparr>, new_watcher)))"

definition NewTestK8sClient :: "('w, 'c) host \<Rightarrow> 'c \<Rightarrow> err + 'w k8sClient \<times> watcher" where
  "NewTestK8sClient h config =
     (case ho_new_for_config h config of
        Inl e \<Rightarrow> Inl (errorf_v ''failed to create clientset: '' e)
      | Inr cs \<Rightarrow>
          Inr (\<lparr>clientset = cs, namespace = ''sandbox'', useGvisor = False,
                sandboxImage = ''sandbox:latest'', runtime = ho_runtime h\<rparr>, new_watcher))"

definition GetCurrentNamespace :: "'w k8sClient \<Rightarrow> string" where
  "GetCurrentNamespace k = namespace k"

definition IsInCluster :: "('w, 'c) host \<Rightarrow> bool" where
  "IsInCluster h = IsRunningInCluster h"

definition ProvideK8sClient :: "('w, 'c) host \<Rightarrow> scheduler_config \<Rightarrow> err + 'w k8s" where
  "ProvideK8sClient h cfg =
     (if MockMode cfg then Inr (mock_iface (ho_runtime h))
      else case NewK8sClient h cfg of Inl e \<Rightarrow> Inl e | Inr (k, watch) \<Rightarrow> Inr (k8s_iface k))"

lemma trim_space_no_edge:
  "trim_space s \<noteq> '''' \<Longrightarrow> \<not> is_space (hd (trim_space s)) \<and> \<not> is_space (last (trim_space s))"
proof -
  let ?u = "dropWhile is_space s" let ?v = "dropWhile is_space (rev ?u)"
  assume "trim_space s \<noteq> ''''"
  then have v: "?v \<noteq> []" by (simp add: trim_space_def)
  then have u: "?u \<noteq> []" by (metis dropWhile.simps(1) rev.simps(1))
  have l: "\<not> is_space (hd ?v)" using v hd_dropWhile by blast
  obtain zs where "rev ?u = zs @ ?v" by (metis takeWhile_dropWhile_id)
  then have "?u = rev ?v @ rev zs" by (metis rev_append rev_rev_ident)
  then have "hd ?u = hd (rev ?v)" using v by (metis hd_append2 rev_is_Nil_conv)
  then show ?thesis using l hd_dropWhile [OF u] v by (simp add: trim_space_def last_rev)
qed

section \<open>The scheduler program\<close>

definition pool_New :: "scheduler_config \<Rightarrow> 'w runtime \<Rightarrow> 'w pool_store \<Rightarrow> 'w scheduler \<Rightarrow> 'w pool_service" where
  "pool_New cfg rt st sc =
     \<lparr>pl_store = st, pl_scheduler = sc, pl_runtime = rt, PoolEnabled = cf_PoolEnabled cfg,
      PoolSize = cf_PoolSize cfg, PoolMaxPending = cf_PoolMaxPending cfg\<rparr>"

definition project_New ::
  "'w scheduler \<Rightarrow> 'w pool_service \<Rightarrow> 'w store \<Rightarrow> 'w k8s \<Rightarrow> 'w project_service" where
  "project_New sc ps st kc = \<lparr>pr_scheduler = sc, pr_pool = ps, pr_store = st, pr_k8s = kc\<rparr>"

text \<open>The service is also its mutable state, \<open>init_xds\<close>.\<close>

definition xds_New ::
  "'w xds_libs \<Rightarrow> 'w runtime \<Rightarrow> (project_id list \<Rightarrow> project_id list) \<Rightarrow> (project_id list \<Rightarrow> project_id list) \<Rightarrow>
     'w store \<Rightarrow> 'w k8s \<Rightarrow> 'w xds \<times> xds_state" where
  "xds_New libs rt o1 o2 st kc =
     (\<lparr>xd_store = st, xd_k8s = kc, xd_libs = libs, xd_runtime = rt, xd_range1 = o1, xd_range2 = o2\<rparr>, init_xds)"

record 'w system =
  sy_redis :: "'w redis"
  sy_k8s :: "'w k8s"
  sy_store :: "'w store"
  sy_scheduler :: "'w scheduler"
  sy_pool :: "'w pool_service"
  sy_project :: "'w project_service"

text \<open>
  The constructors of the scheduler's modules, each called with what the others return, in
  an order in which its parameters come first. \<open>ord\<close> is the order of Go's \<open>range\<close> over a
  map.
\<close>

definition build_system ::
  "((string \<times> (err + string)) list \<Rightarrow> (string \<times> (err + string)) list) \<Rightarrow> ('w, 'c) host \<Rightarrow>
     scheduler_config \<Rightarrow> err + 'w system" where
  "build_system ord h cfg =
     sum_bind (ProvideK8sClient h cfg) (\<lambda>kc.
     sum_bind (ProvideRedisClient h cfg) (\<lambda>cl.
     sum_bind (ProvideIdempotenceStore (ho_runtime h) cl) (\<lambda>idem.
     sum_bind (ProvideStore cl) (\<lambda>rs.
     sum_bind (ProvideSandboxPoolStore (ho_runtime h) cl) (\<lambda>pl.
       let st = redis_Store ord rs;
           sc = scheduler_New (SandboxTTL cfg) kc (redis_IdempotenceStore idem) st (ho_runtime h);
           ps = pool_New cfg (ho_runtime h) (redis_PoolStore pl) sc
       in Inr \<lparr>sy_redis = cl, sy_k8s = kc, sy_store = st, sy_scheduler = sc, sy_pool = ps,
               sy_project = project_New sc ps st kc\<rparr>)))))"

text \<open>Building fails only where one of the two clients cannot be made.\<close>

lemma build_system_Inl:
  "build_system ord h cfg = Inl e \<longleftrightarrow>
     ProvideK8sClient h cfg = Inl e \<or>
     (\<exists>kc. ProvideK8sClient h cfg = Inr kc) \<and> ProvideRedisClient h cfg = Inl e"
  by (cases "ProvideK8sClient h cfg"; cases "ProvideRedisClient h cfg")
     (simp_all add: build_system_def ProvideIdempotenceStore_def NewIdempotenceStore_def ProvideStore_def
       newRedisStore_def ProvideSandboxPoolStore_def NewRedisSandboxPoolStore_def Let_def)

text \<open>The stores share the client and the key prefix.\<close>

lemma build_system_parts:
  assumes "build_system ord h cfg = Inr sy" and "\<not> MockMode cfg"
  obtains k watch r rs pl where "NewK8sClient h cfg = Inr (k, watch)" and "newRedisClient h (RedisURI cfg) = Inr (sy_redis sy)"
    and "sy_project sy = wired (SandboxTTL cfg) r k rs ord (sy_pool sy)"
    and "sy_pool sy = pool_New cfg (ho_runtime h) (redis_PoolStore pl) (deployed (SandboxTTL cfg) r k (redis_Store ord rs))"
    and "r = \<lparr>ri_client = sy_redis sy, ri_keyPrefix = defaultKeyPrefix, ri_runtime = ho_runtime h\<rparr>"
    and "rs = \<lparr>client = sy_redis sy, keyPrefix = defaultKeyPrefix\<rparr>"
    and "pl = \<lparr>rp_client = sy_redis sy, rp_keyPrefix = defaultKeyPrefix, rp_runtime = ho_runtime h\<rparr>"
    and "runtime k = ho_runtime h"
proof -
  have ne: "defaultKeyPrefix \<noteq> ''''" by (simp add: defaultKeyPrefix_def)
  obtain k watch cl where k: "NewK8sClient h cfg = Inr (k, watch)" and cl: "newRedisClient h (RedisURI cfg) = Inr cl"
    using assms
    by (auto simp: build_system_def ProvideK8sClient_def ProvideRedisClient_def split: sum.splits)
  have rt: "runtime k = ho_runtime h" using k by (auto simp: NewK8sClient_def split: sum.splits)
  have "cl = sy_redis sy"
    and "sy_project sy = wired (SandboxTTL cfg) \<lparr>ri_client = cl, ri_keyPrefix = defaultKeyPrefix, ri_runtime = ho_runtime h\<rparr> k
      \<lparr>client = cl, keyPrefix = defaultKeyPrefix\<rparr> ord (sy_pool sy)"
    and "sy_pool sy = pool_New cfg (ho_runtime h)
      (redis_PoolStore \<lparr>rp_client = cl, rp_keyPrefix = defaultKeyPrefix, rp_runtime = ho_runtime h\<rparr>)
      (deployed (SandboxTTL cfg) \<lparr>ri_client = cl, ri_keyPrefix = defaultKeyPrefix, ri_runtime = ho_runtime h\<rparr> k
        (redis_Store ord \<lparr>client = cl, keyPrefix = defaultKeyPrefix\<rparr>))"
    using assms ne
    by (auto simp: build_system_def ProvideK8sClient_def ProvideRedisClient_def k cl Let_def rt
        ProvideIdempotenceStore_def NewIdempotenceStore_def ProvideStore_def newRedisStore_def
        ProvideSandboxPoolStore_def NewRedisSandboxPoolStore_def project_New_def wired_def deployed_def)
  then show thesis using that k cl rt by blast
qed

section \<open>The activator program\<close>

text \<open>
  \<open>net/http\<close>, \<open>io\<close> and the generated client: a client of a timeout, the parsing of
  \<open>http.NewRequestWithContext\<close>, the copying of a response's body, the RPC of a scheduler at
  an address, and the product of a duration and a float.
\<close>

record ('w, 'f) activator_libs =
  al_Do :: "int \<Rightarrow> ctx \<Rightarrow> http_request \<Rightarrow> ('w, (err + http_response) \<times> string) op"
  al_new_request :: "string \<Rightarrow> string \<Rightarrow> err + string"
  al_copy :: "http_response \<Rightarrow> ('w, nat option) op"
  al_rpc :: "string \<Rightarrow> ctx \<Rightarrow> string \<Rightarrow> bool \<Rightarrow> ('w, err + response) op"
  al_scale :: "'f \<Rightarrow> int \<Rightarrow> int"
  al_runtime :: "'w runtime"

definition NewSchedulerClient ::
  "('w, 'f) activator_libs \<Rightarrow> 'f activator_config \<Rightarrow> ctx \<Rightarrow> string \<Rightarrow> bool \<Rightarrow> ('w, err + response) op" where
  "NewSchedulerClient L cfg = al_rpc L (sl_Address (ac_Scheduler cfg))"

definition NewActivatorService ::
  "('w, 'f) activator_libs \<Rightarrow> (ctx \<Rightarrow> string \<Rightarrow> bool \<Rightarrow> ('w, err + response) op) \<Rightarrow> 'f activator_config \<Rightarrow>
     'w activator" where
  "NewActivatorService L schedulerClient cfg =
     \<lparr>as_rpc = schedulerClient, as_Do = al_Do L (hc_Timeout (ac_HTTPClient cfg)),
      as_new_request = al_new_request L, as_copy = al_copy L, as_runtime = al_runtime L,
      maxRetries = hc_MaxRetries (ac_HTTPClient cfg), initialBackoff = hc_InitialBackoff (ac_HTTPClient cfg),
      maxBackoff = hc_MaxBackoff (ac_HTTPClient cfg), as_scale = al_scale L (hc_BackoffFactor (ac_HTTPClient cfg))\<rparr>"

text \<open>The address and the mux of the activator; the paths are those that \<open>ServeMux\<close> has cleaned.\<close>

definition activator_addr :: "'f activator_config \<Rightarrow> string" where
  "activator_addr cfg = '':'' @ show_int (sv_Port (ac_Server cfg))"

definition activator_serve ::
  "'w activator \<Rightarrow> ctx \<Rightarrow> 'w wake list \<Rightarrow> inbound \<Rightarrow> ('w, handled option) op" where
  "activator_serve a c wks r w =
     (if in_path r = ''/healthz''
      then (Some (Responds \<lparr>hr_status = 200, hr_header = [], hr_body = ''''\<rparr>), w)
      else HandleRequest a c wks r w)"

text \<open>As configured by default, a request waits half a second, one and two seconds, at most.\<close>

lemma default_retries:
  assumes "envconfig_reader E unset two" and "\<And>p t. unset p t" and "activator_LoadConfig E = Inr cfg"
    and "\<And>b. al_scale L two b = 2 * b"
    and "doWithRetry (NewActivatorService L rpc cfg) c req wks w = (Some ((resp, e), waits), w')"
  shows "prefix waits [millis 500, seconds 1, seconds 2] \<and> sum_list waits \<le> millis 3500"
proof -
  let ?a = "NewActivatorService L rpc cfg"
  have a: "maxRetries ?a = 3" "initialBackoff ?a = millis 500" "maxBackoff ?a = seconds 5" "as_scale ?a = (\<lambda>b. 2 * b)"
    using config_defaults [OF assms(1,2)] assms(3,4) by (auto simp: NewActivatorService_def)
  have w: "length waits \<le> 3" "backoffs ?a waits (millis 500)"
    using doWithRetry_result [OF _ assms(5)] a(1,2) by auto
  have n: "next_backoff ?a (millis 500) = seconds 1" "next_backoff ?a (seconds 1) = seconds 2"
    by (simp_all add: next_backoff_def a durations)
  have "waits = [] \<or> (\<exists>x. waits = [x]) \<or> (\<exists>x y. waits = [x, y]) \<or> (\<exists>x y z. waits = [x, y, z])"
    using w(1) by (auto simp: numeral_3_eq_3 le_Suc_eq length_Suc_conv)
  then have "waits = [] \<or> waits = [millis 500] \<or> waits = [millis 500, seconds 1] \<or>
      waits = [millis 500, seconds 1, seconds 2]"
    using w(2) n by auto
  then show ?thesis by (auto simp: durations)
qed

text \<open>Where the namespace of the client comes from.\<close>

lemma NewK8sClient_namespace:
  assumes "NewK8sClient h cfg = Inr (k, watch)"
  shows "namespace k =
      (if ho_stat h token_file = None \<and> ho_stat h ca_file = None \<and> ho_stat h namespace_file = None
       then case ho_read_file h namespace_file of
              Inr text \<Rightarrow> if trim_space text = '''' then cf_Namespace cfg else trim_space text
            | Inl _ \<Rightarrow> cf_Namespace cfg
       else cf_Namespace cfg)"
  using assms
  by (auto simp: NewK8sClient_def rest_config_def IsRunningInCluster_def GetInClusterNamespace_def Let_def
      split: sum.splits if_splits)

section \<open>Properties of the start\<close>

text \<open>
  C9 (the program that starts is the deployment). Whenever the scheduler's parts can be
  built, its services share one Redis client and one key prefix, so that the project service
  is the one over Redis and Kubernetes that the other theorems are about; its pool has the
  configured limits; its namespace is the pod's own (the text of the service account's file,
  trimmed) when the scheduler runs inside a cluster and the file can be read and is not blank,
  and the configured one in every other case. In particular its RPC handler answers either with an
  error or with a sandbox whose host name lies in that namespace.
\<close>

theorem started_system:
  assumes "build_system ord h cfg = Inr sy" and "\<not> MockMode cfg" and "\<And>xs. set (ord xs) = set xs"
    and "\<forall>c K. ho_new_for_config h c = Inr K \<longrightarrow> cluster (sy_redis sy) db clk K pods svcs (ho_runtime h)"
  shows "\<exists>k r rs pl. sy_project sy = wired (SandboxTTL cfg) r k rs ord (sy_pool sy) \<and>
    project_deployment (sy_redis sy) db clk k pods svcs r ord rs pl \<and> pl_store (sy_pool sy) = redis_PoolStore pl \<and>
    PoolSize (sy_pool sy) = cf_PoolSize cfg \<and> PoolMaxPending (sy_pool sy) = cf_PoolMaxPending cfg \<and>
    namespace k =
      (if ho_stat h token_file = None \<and> ho_stat h ca_file = None \<and> ho_stat h namespace_file = None
       then case ho_read_file h namespace_file of
              Inr text \<Rightarrow> if trim_space text = '''' then cf_Namespace cfg else trim_space text
            | Inl _ \<Rightarrow> cf_Namespace cfg
       else cf_Namespace cfg) \<and>
    (\<forall>wks wks' c projectId wait w resp e w'.
      clock_wakes clk wks \<and> clock_wakes clk wks' \<and> 0 \<le> clk w \<and> clk w' + 255 < 2 ^ 63 \<and>
      server_GetProjectSandbox (sy_project sy) wks wks' c projectId wait w = (Some (resp, e), w') \<longrightarrow>
      (case e of
         Some _ \<Rightarrow> resp = None
       | None \<Rightarrow> \<exists>x. resp = Some x \<and> rs_SandboxId x \<noteq> '''' \<and>
           rs_Hostname x = ''project-'' @ projectId @ ''.'' @ namespace k @ ''.svc''))"
proof -
  obtain k watch r rs pl where k: "NewK8sClient h cfg = Inr (k, watch)"
    and sy: "sy_project sy = wired (SandboxTTL cfg) r k rs ord (sy_pool sy)"
      "sy_pool sy = pool_New cfg (ho_runtime h) (redis_PoolStore pl) (deployed (SandboxTTL cfg) r k (redis_Store ord rs))"
    and parts: "r = \<lparr>ri_client = sy_redis sy, ri_keyPrefix = defaultKeyPrefix, ri_runtime = ho_runtime h\<rparr>"
      "rs = \<lparr>client = sy_redis sy, keyPrefix = defaultKeyPrefix\<rparr>"
      "pl = \<lparr>rp_client = sy_redis sy, rp_keyPrefix = defaultKeyPrefix, rp_runtime = ho_runtime h\<rparr>"
    and rt: "runtime k = ho_runtime h"
    using build_system_parts [OF assms(1,2)] by metis
  have cl: "cluster (sy_redis sy) db clk (clientset k) pods svcs (runtime k)"
    using assms(4) k by (auto simp: NewK8sClient_def split: sum.splits)
  then have rd: "redis_server (sy_redis sy) db clk" by (simp add: cluster_def)
  have dep: "project_deployment (sy_redis sy) db clk k pods svcs r ord rs pl"
    using cl rd assms(3) rt
    by (simp add: project_deployment_def project_deployment_axioms_def pool_deployment_def
        pool_deployment_axioms_def scheduler_deployment_def scheduler_deployment_axioms_def
        k8s_client_def redis_backed_store_def redis_backed_store_axioms_def parts)
  have ns: "namespace k =
      (if ho_stat h token_file = None \<and> ho_stat h ca_file = None \<and> ho_stat h namespace_file = None
       then case ho_read_file h namespace_file of
              Inr text \<Rightarrow> if trim_space text = '''' then cf_Namespace cfg else trim_space text
            | Inl _ \<Rightarrow> cf_Namespace cfg
       else cf_Namespace cfg)"
    using NewK8sClient_namespace [OF k] .
  have pls: "pl_store (sy_pool sy) = redis_PoolStore pl" by (simp add: sy(2) pool_New_def)
  have ans: "case e of
         Some _ \<Rightarrow> resp = None
       | None \<Rightarrow> \<exists>x. resp = Some x \<and> rs_SandboxId x \<noteq> '''' \<and>
           rs_Hostname x = ''project-'' @ projectId @ ''.'' @ namespace k @ ''.svc''"
    if "clock_wakes clk wks" "clock_wakes clk wks'" "0 \<le> clk w" "clk w' + 255 < 2 ^ 63"
      and "server_GetProjectSandbox (sy_project sy) wks wks' c projectId wait w = (Some (resp, e), w')"
    for wks wks' c projectId wait w resp e w'
    using project_deployment.server_answers [OF dep pls that(1-4) that(5) [unfolded sy(1)]]
    by (auto split: option.splits)
  have lim: "PoolSize (sy_pool sy) = cf_PoolSize cfg" "PoolMaxPending (sy_pool sy) = cf_PoolMaxPending cfg"
    by (simp_all add: sy(2) pool_New_def)
  show ?thesis
    by (rule exI [of _ k], rule exI [of _ r], rule exI [of _ rs], rule exI [of _ pl])
      (intro conjI allI impI sy(1) dep pls ns lim, elim conjE, rule ans)
qed

text \<open>A host outside a cluster whose servers are the simulated ones.\<close>

definition sim_host :: "(world, unit) host" where
  "sim_host =
     \<lparr>ho_stat = (\<lambda>_. Some (ErrText ''no such file'')), ho_read_file = (\<lambda>_. Inl (ErrText ''no such file'')),
      ho_home = ''/root'',
      ho_url_parse = (\<lambda>s. Inr \<lparr>url_host = ''localhost:6379'', url_user = None, url_path = ''/0''\<rparr>),
      ho_redis_client = (\<lambda>_. sim_redis), ho_in_cluster_config = Inr (), ho_kubeconfig = (\<lambda>_. Inr ()),
      ho_new_for_config = (\<lambda>_. Inr sim_kube), ho_runtime = sim_runtime\<rparr>"

definition sim_config :: scheduler_config where
  "sim_config =
     \<lparr>Port = 50051, XDSPort = 50052, MockMode = False, cf_Namespace = ''sandbox'', UseGvisor = True,
      SandboxImage = ''sandbox:1'', CleanupIntervalSecs = 60, CleanupBatchSize = 50,
      SandboxTTL = minutes 15, cf_PoolEnabled = True, cf_PoolSize = 5, PoolRefreshIntervalSecs = 15,
      cf_PoolMaxPending = 10, PoolSandboxTimeout = minutes 5,
      RedisURI = ''redis://localhost:6379/0'', DevelopmentLogging = False\<rparr>"

lemma sim_build:
  "\<exists>sy. build_system (\<lambda>xs. xs) sim_host sim_config = Inr sy \<and> sy_project sy = sim_service \<and> sy_redis sy = sim_redis"
  by (simp add: build_system_def ProvideK8sClient_def NewK8sClient_def rest_config_def IsRunningInCluster_def
      sim_host_def sim_config_def ProvideRedisClient_def newRedisClient_def ProvideIdempotenceStore_def
      NewIdempotenceStore_def ProvideStore_def newRedisStore_def ProvideSandboxPoolStore_def
      NewRedisSandboxPoolStore_def Let_def project_New_def pool_New_def sim_service_def wired_def deployed_def
      sim_pool_service_def sim_sched_def sim_client_def sim_store_def sim_idem_def sim_pool_def
      defaultKeyPrefix_def DefaultNamespace_def)

text \<open>A host inside a cluster, in the namespace \<open>prod\<close>.\<close>

definition sim_pod_host :: "(world, unit) host" where
  "sim_pod_host = sim_host\<lparr>ho_stat := (\<lambda>_. None), ho_read_file := (\<lambda>_. Inr (''prod'' @ [CHR 0x0A]))\<rparr>"

lemma sim_pod_build: "\<exists>sy. build_system (\<lambda>xs. xs) sim_pod_host sim_config = Inr sy \<and> sy_redis sy = sim_redis"
  by (simp add: build_system_def ProvideK8sClient_def NewK8sClient_def rest_config_def IsRunningInCluster_def
      GetInClusterNamespace_def trim_space_def is_space_def sim_pod_host_def sim_host_def sim_config_def
      ProvideRedisClient_def newRedisClient_def ProvideIdempotenceStore_def NewIdempotenceStore_def ProvideStore_def
      newRedisStore_def ProvideSandboxPoolStore_def NewRedisSandboxPoolStore_def Let_def)

theorem started_system_witness:
  "(\<exists>sy w x w'. build_system (\<lambda>xs. xs) sim_host sim_config = Inr sy \<and>
     server_GetProjectSandbox (sy_project sy) [] [] background ''a'' False w = (Some (Some x, None), w') \<and>
     rs_Hostname x = ''project-a.sandbox.svc'') \<and>
   (\<exists>sy k r rs. build_system (\<lambda>xs. xs) sim_pod_host sim_config = Inr sy \<and>
     sy_project sy = wired (SandboxTTL sim_config) r k rs (\<lambda>xs. xs) (sy_pool sy) \<and> namespace k = ''prod'')"
proof (rule conjI)
  obtain w w' x where w: "0 \<le> w_clk w" "w_clk w' + 255 < 2 ^ 63"
    and r: "server_GetProjectSandbox sim_service [] [] background ''a'' False w = (Some (Some x, None), w')"
    using sim_active_server by blast
  obtain sy where b: "build_system (\<lambda>xs. xs) sim_host sim_config = Inr sy"
    and sy: "sy_project sy = sim_service" "sy_redis sy = sim_redis"
    using sim_build by blast
  have m: "\<not> MockMode sim_config" by (simp add: sim_config_def)
  have c: "\<forall>u K. ho_new_for_config sim_host u = Inr K \<longrightarrow>
      cluster (sy_redis sy) w_db w_clk K sim_pods sim_svcs (ho_runtime sim_host)"
    using sim_c.cluster_axioms by (simp add: sim_host_def sy(2))
  obtain k where n: "namespace k = ''sandbox''" and a: "\<forall>wks wks' c projectId wait w resp e w'.
      clock_wakes w_clk wks \<and> clock_wakes w_clk wks' \<and> 0 \<le> w_clk w \<and> w_clk w' + 255 < 2 ^ 63 \<and>
      server_GetProjectSandbox (sy_project sy) wks wks' c projectId wait w = (Some (resp, e), w') \<longrightarrow>
      (case e of
         Some _ \<Rightarrow> resp = None
       | None \<Rightarrow> \<exists>x. resp = Some x \<and> rs_SandboxId x \<noteq> '''' \<and>
           rs_Hostname x = ''project-'' @ projectId @ ''.'' @ namespace (k :: world k8sClient) @ ''.svc'')"
    using started_system [OF b m refl c] by (elim exE conjE) (auto simp: sim_config_def sim_host_def)
  have "rs_Hostname x = ''project-a.sandbox.svc''" using a [THEN spec, of "[]", THEN spec, of "[]", THEN spec, of background, THEN spec, of "''a''", THEN spec, of False,
      THEN spec, of w, THEN spec, of "Some x", THEN spec, of None, THEN spec, of w'] r w n sy(1) by simp
  then show "\<exists>sy w x w'. build_system (\<lambda>xs. xs) sim_host sim_config = Inr sy \<and>
     server_GetProjectSandbox (sy_project sy) [] [] background ''a'' False w = (Some (Some x, None), w') \<and>
     rs_Hostname x = ''project-a.sandbox.svc''" using b r sy(1) by auto
next
  obtain sy where b: "build_system (\<lambda>xs. xs) sim_pod_host sim_config = Inr sy" and sy: "sy_redis sy = sim_redis"
    using sim_pod_build by blast
  have m: "\<not> MockMode sim_config" by (simp add: sim_config_def)
  have c: "\<forall>u K. ho_new_for_config sim_pod_host u = Inr K \<longrightarrow>
      cluster (sy_redis sy) w_db w_clk K sim_pods sim_svcs (ho_runtime sim_pod_host)"
    using sim_c.cluster_axioms by (simp add: sim_pod_host_def sim_host_def sy)
  have "trim_space (''prod'' @ [CHR 0x0A]) = ''prod''" by (simp add: trim_space_def is_space_def)
  then obtain k r rs where "sy_project sy = wired (SandboxTTL sim_config) r k rs (\<lambda>xs. xs) (sy_pool sy)"
    and "namespace k = ''prod''"
    using started_system [OF b m refl c] by (elim exE conjE) (simp add: sim_pod_host_def sim_host_def)
  then show "\<exists>sy k r rs. build_system (\<lambda>xs. xs) sim_pod_host sim_config = Inr sy \<and>
     sy_project sy = wired (SandboxTTL sim_config) r k rs (\<lambda>xs. xs) (sy_pool sy) \<and> namespace k = ''prod''"
    using b by blast
qed

end
