(* ===== verification/Wiring.thy ===== *)
theory Wiring
  imports Prelude
begin

text \<open>
  How the three programs are put together: the constructors and functions that the
  \<open>module.go\<close> files and the \<open>main.go\<close> files hand to \<open>fx\<close>, each with the parameters of its
  signature (its \<open>fx.In\<close> struct written out; \<open>fx.Lifecycle\<close>, which \<open>fx\<close> provides itself, is
  left out), and the documented behaviour of the container that runs them.
\<close>

section \<open>The container\<close>

text \<open>A parameter may be tagged \<open>optional:"true"\<close>.\<close>

datatype 'c dep = Req 'c | Opt 'c

datatype 'c fx_option =
    Provide 'c "'c dep list"
  | Invoke 'c "'c dep list"
  | WithLogger "'c dep list"


fun provided :: "'c fx_option list \<Rightarrow> 'c list" where
  "provided [] = []"
| "provided (Provide n ds # os) = n # provided os"
| "provided (_ # os) = provided os"

fun invoked :: "'c fx_option list \<Rightarrow> 'c list" where
  "invoked [] = []"
| "invoked (Invoke n ds # os) = n # invoked os"
| "invoked (_ # os) = invoked os"

text \<open>What must be provided for the container to be usable.\<close>

fun required :: "'c fx_option list \<Rightarrow> 'c list" where
  "required [] = []"
| "required (Provide n ds # os) = List.map_filter (\<lambda>d. case d of Req m \<Rightarrow> Some m | Opt m \<Rightarrow> None) ds @ required os"
| "required (Invoke n ds # os) = List.map_filter (\<lambda>d. case d of Req m \<Rightarrow> Some m | Opt m \<Rightarrow> None) ds @ required os"
| "required (WithLogger ds # os) = List.map_filter (\<lambda>d. case d of Req m \<Rightarrow> Some m | Opt m \<Rightarrow> None) ds @ required os"

text \<open>The parameters of a constructor or function; an optional one counts when it is provided.\<close>

fun deps_of :: "'c fx_option list \<Rightarrow> 'c \<Rightarrow> 'c dep list" where
  "deps_of [] n = []"
| "deps_of (Provide m ds # os) n = (if m = n then ds else deps_of os n)"
| "deps_of (Invoke m ds # os) n = (if m = n then ds else deps_of os n)"
| "deps_of (WithLogger ds # os) n = deps_of os n"

definition fx_params :: "'c fx_option list \<Rightarrow> 'c \<Rightarrow> 'c list" where
  "fx_params os n =
     List.map_filter (\<lambda>d. case d of Req m \<Rightarrow> Some m | Opt m \<Rightarrow> if m \<in> set (provided os) then Some m else None)
       (deps_of os n)"

text \<open>What a component needs, directly or through its parameters.\<close>

fun fx_closure :: "'c fx_option list \<Rightarrow> nat \<Rightarrow> 'c list \<Rightarrow> 'c list" where
  "fx_closure os 0 ns = ns"
| "fx_closure os (Suc k) ns = fx_closure os k (ns @ concat (map (fx_params os) ns))"

definition fx_needs :: "'c fx_option list \<Rightarrow> nat \<Rightarrow> 'c \<Rightarrow> 'c set" where
  "fx_needs os k i = set (fx_closure os k (fx_params os i))"

text \<open>
  The order in which \<open>fx\<close> runs them: the invoked functions as listed, each after its
  parameters; a constructor runs once, after its own parameters, and only when the next
  invoked function needs it. \<open>k\<close> bounds the length of the chains of parameters.
\<close>

fun fx_order :: "'c fx_option list \<Rightarrow> nat \<Rightarrow> 'c list \<Rightarrow> 'c list \<Rightarrow> 'c list \<Rightarrow> bool" where
  "fx_order os k past todo [] \<longleftrightarrow> todo = []"
| "fx_order os k past [] (n # ns) \<longleftrightarrow> False"
| "fx_order os k past (i # todo) (n # ns) \<longleftrightarrow> n \<notin> set past \<and> set (fx_params os n) \<subseteq> set past \<and>
     (if n = i then fx_order os k (past @ [n]) todo ns
      else n \<in> fx_needs os k i \<and> fx_order os k (past @ [n]) (i # todo) ns)"

text \<open>
  A container can be built when nothing is provided twice, everything required is provided,
  and the constructors can be run one after the other, each after its parameters.
\<close>

fun in_order :: "('c \<Rightarrow> 'c list) \<Rightarrow> 'c list \<Rightarrow> 'c list \<Rightarrow> bool" where
  "in_order f past [] \<longleftrightarrow> True"
| "in_order f past (n # ns) \<longleftrightarrow> n \<notin> set past \<and> set (f n) \<subseteq> set past \<and> in_order f (past @ [n]) ns"

definition buildable :: "'c fx_option list \<Rightarrow> 'c list \<Rightarrow> bool" where
  "buildable os ns \<longleftrightarrow> distinct (provided os) \<and> set (required os) \<subseteq> set (provided os) \<and>
     set ns = set (provided os) \<and> in_order (fx_params os) [] ns"

text \<open>What every run of a container is.\<close>

lemma fx_order_distinct: "fx_order os k past todo ns \<Longrightarrow> distinct past \<Longrightarrow> distinct (past @ ns)"
  by (induction os k past todo ns rule: fx_order.induct) (auto split: if_splits)

lemma fx_order_todo: "fx_order os k past todo ns \<Longrightarrow> set todo \<subseteq> set ns"
  by (induction os k past todo ns rule: fx_order.induct) (auto split: if_splits)

lemma fx_order_closed:
  "fx_order os k past todo ns \<Longrightarrow> n \<in> set ns \<Longrightarrow> set (fx_params os n) \<subseteq> set past \<union> set ns"
  by (induction os k past todo ns rule: fx_order.induct) (auto split: if_splits)

lemma fx_order_needed:
  "fx_order os k past todo ns \<Longrightarrow> set ns \<subseteq> set todo \<union> (\<Union>i \<in> set todo. fx_needs os k i)"
  by (induction os k past todo ns rule: fx_order.induct) (auto split: if_splits)

text \<open>The run up to the next invoked function.\<close>

lemma fx_segment:
  "fx_order os k past (i # todo) ns \<Longrightarrow>
     \<exists>ys zs. ns = ys @ i # zs \<and> i \<notin> set ys \<and> set ys \<subseteq> fx_needs os k i \<and> set ys \<inter> set past = {} \<and> distinct ys \<and>
       (\<forall>n \<in> set ys. set (fx_params os n) \<subseteq> set past \<union> set ys) \<and> set (fx_params os i) \<subseteq> set past \<union> set ys \<and>
       fx_order os k (past @ ys @ [i]) todo zs"
proof (induction ns arbitrary: past)
  case (Cons n ns)
  show ?case
  proof (cases "n = i")
    case True
    then show ?thesis using Cons.prems by (intro exI [of _ "[]"] exI [of _ ns]) simp
  next
    case False
    then have n: "n \<notin> set past" "set (fx_params os n) \<subseteq> set past" "n \<in> fx_needs os k i"
      and r: "fx_order os k (past @ [n]) (i # todo) ns"
      using Cons.prems by simp_all
    obtain ys zs where "ns = ys @ i # zs" "i \<notin> set ys" "set ys \<subseteq> fx_needs os k i" "set ys \<inter> set (past @ [n]) = {}"
      "distinct ys" "\<forall>m \<in> set ys. set (fx_params os m) \<subseteq> set (past @ [n]) \<union> set ys"
      "set (fx_params os i) \<subseteq> set (past @ [n]) \<union> set ys" "fx_order os k ((past @ [n]) @ ys @ [i]) todo zs"
      using Cons.IH [OF r] by (elim exE conjE) (rule that, assumption+)
    then show ?thesis using n False
      by (intro exI [of _ "n # ys"] exI [of _ zs]) auto
  qed
qed simp

lemmas fx_eval = fx_params_def List.map_filter_simps fx_needs_def numeral_eq_Suc

section \<open>The scheduler\<close>

text \<open>What is given to \<open>fx.Provide\<close> (\<open>N\<close>) and to \<open>fx.Invoke\<close> (\<open>I\<close>).\<close>

datatype component =
    NConfig | NLogger | NSugared | NK8s | NRedis | NStore | NIdem | NPoolStore | NScheduler | NPool | NProject | NXds
  | IK8s | IScheduler | IPool | IServer | ICleanup | IXds

text \<open>The \<open>fx.In\<close> structs of the constructors and of the functions that are invoked.\<close>

definition scheduler_ServiceParams :: "component dep list" where
  "scheduler_ServiceParams = [Req NConfig, Req NK8s, Req NIdem, Req NStore, Req NLogger]"

definition pool_ServiceParams :: "component dep list" where
  "pool_ServiceParams = [Req NConfig, Req NPoolStore, Req NScheduler, Req NLogger]"

definition project_ServiceParams :: "component dep list" where
  "project_ServiceParams = [Req NConfig, Req NScheduler, Opt NPool, Req NStore, Req NK8s, Req NLogger]"

definition xds_ServiceParams :: "component dep list" where
  "xds_ServiceParams = [Req NConfig, Req NStore, Req NK8s, Req NLogger]"

definition scheduler_StartServiceParams :: "component dep list" where
  "scheduler_StartServiceParams = [Req NScheduler, Req NLogger]"

definition pool_StartParams :: "component dep list" where
  "pool_StartParams = [Req NPool, Req NLogger]"

definition http_ServerParams :: "component dep list" where
  "http_ServerParams = [Req NConfig, Req NScheduler, Req NProject, Req NLogger]"

definition cleanup_ManagerParams :: "component dep list" where
  "cleanup_ManagerParams = [Req NConfig, Req NScheduler, Req NLogger]"

text \<open>The modules.\<close>

definition logging_Module :: "component fx_option list" where
  "logging_Module = [Provide NLogger [Req NConfig], Provide NSugared [Req NLogger]]"

definition config_Module :: "component fx_option list" where
  "config_Module = [Provide NConfig []]"

definition k8sclient_Module :: "component fx_option list" where
  "k8sclient_Module =
     [Provide NK8s [Req NConfig, Req NLogger], Invoke IK8s [Req NK8s, Req NLogger]]"

definition persistence_Module :: "component fx_option list" where
  "persistence_Module =
     [Provide NRedis [Req NConfig], Provide NStore [Req NRedis, Req NConfig],
      Provide NIdem [Req NRedis, Req NConfig], Provide NPoolStore [Req NRedis, Req NConfig]]"

definition scheduler_Module :: "component fx_option list" where
  "scheduler_Module =
     [Provide NScheduler scheduler_ServiceParams, Invoke IScheduler scheduler_StartServiceParams]"

definition sandboxpool_Module :: "component fx_option list" where
  "sandboxpool_Module = [Provide NPool pool_ServiceParams, Invoke IPool pool_StartParams]"

definition project_Module :: "component fx_option list" where
  "project_Module = [Provide NProject project_ServiceParams]"

definition http_Module :: "component fx_option list" where
  "http_Module = [Invoke IServer http_ServerParams]"

definition transport_Module :: "component fx_option list" where
  "transport_Module = http_Module"

definition cleanup_Module :: "component fx_option list" where
  "cleanup_Module = [Invoke ICleanup cleanup_ManagerParams]"

definition jobs_Module :: "component fx_option list" where
  "jobs_Module = cleanup_Module"

definition xds_Module :: "component fx_option list" where
  "xds_Module = [Provide NXds xds_ServiceParams, Invoke IXds [Req NXds]]"

definition scheduler_main :: "component fx_option list" where
  "scheduler_main =
     logging_Module @ [WithLogger [Req NLogger]] @
     config_Module @ k8sclient_Module @ persistence_Module @ scheduler_Module @ sandboxpool_Module @
     project_Module @ transport_Module @ jobs_Module @ xds_Module"

lemmas scheduler_modules = scheduler_main_def logging_Module_def config_Module_def k8sclient_Module_def
  persistence_Module_def scheduler_Module_def sandboxpool_Module_def project_Module_def http_Module_def
  transport_Module_def cleanup_Module_def jobs_Module_def xds_Module_def
  scheduler_ServiceParams_def pool_ServiceParams_def project_ServiceParams_def xds_ServiceParams_def
  scheduler_StartServiceParams_def pool_StartParams_def http_ServerParams_def cleanup_ManagerParams_def

abbreviation params :: "component \<Rightarrow> component list" where
  "params \<equiv> fx_params scheduler_main"

abbreviation needs :: "component \<Rightarrow> component set" where
  "needs \<equiv> fx_needs scheduler_main 5"

text \<open>The invoked functions in the order of the modules in \<open>main\<close>.\<close>

abbreviation scheduler_invokes :: "component list" where
  "scheduler_invokes \<equiv> invoked scheduler_main"

lemma scheduler_invoked [simp]: "scheduler_invokes = [IK8s, IScheduler, IPool, IServer, ICleanup, IXds]"
  by (simp add: scheduler_modules)

lemma scheduler_provided [simp]: "provided scheduler_main =
    [NLogger, NSugared, NConfig, NK8s, NRedis, NStore, NIdem, NPoolStore, NScheduler, NPool, NProject, NXds]"
  by (simp add: scheduler_modules)

lemma scheduler_params [simp]:
  "params NConfig = []" "params NLogger = [NConfig]" "params NSugared = [NLogger]"
  "params NK8s = [NConfig, NLogger]" "params NRedis = [NConfig]"
  "params NStore = [NRedis, NConfig]" "params NIdem = [NRedis, NConfig]" "params NPoolStore = [NRedis, NConfig]"
  "params NScheduler = [NConfig, NK8s, NIdem, NStore, NLogger]"
  "params NPool = [NConfig, NPoolStore, NScheduler, NLogger]"
  "params NProject = [NConfig, NScheduler, NPool, NStore, NK8s, NLogger]"
  "params NXds = [NConfig, NStore, NK8s, NLogger]"
  "params IK8s = [NK8s, NLogger]" "params IScheduler = [NScheduler, NLogger]" "params IPool = [NPool, NLogger]"
  "params IServer = [NConfig, NScheduler, NProject, NLogger]"
  "params ICleanup = [NConfig, NScheduler, NLogger]" "params IXds = [NXds]"
  by (simp_all add: fx_params_def List.map_filter_simps) (simp_all add: scheduler_modules List.map_filter_simps)

lemma needs_sets:
  "needs IK8s = {NK8s, NLogger, NConfig}"
  "needs IScheduler = {NScheduler, NLogger, NConfig, NK8s, NIdem, NStore, NRedis}"
  "needs IPool = {NPool, NPoolStore, NScheduler, NLogger, NConfig, NK8s, NIdem, NStore, NRedis}"
  "needs IServer = {NProject, NPool, NPoolStore, NScheduler, NLogger, NConfig, NK8s, NIdem, NStore, NRedis}"
  "needs ICleanup = {NScheduler, NLogger, NConfig, NK8s, NIdem, NStore, NRedis}"
  "needs IXds = {NXds, NConfig, NStore, NK8s, NLogger, NRedis}"
  unfolding fx_needs_def by (simp_all add: numeral_eq_Suc) auto

text \<open>A start of the scheduler runs everything once, except the sugared logger that nothing uses.\<close>

lemma scheduler_runs_all:
  assumes "fx_order scheduler_main 5 [] scheduler_invokes ns"
  shows "distinct ns \<and> set ns = set (provided scheduler_main @ scheduler_invokes) - {NSugared}"
proof
  show "distinct ns" using fx_order_distinct [OF assms] by simp
  have cl: "set (params n) \<subseteq> set ns" if "n \<in> set ns" for n
    using fx_order_closed [OF assms that] by simp
  have inv: "{IK8s, IScheduler, IPool, IServer, ICleanup, IXds} \<subseteq> set ns"
    using fx_order_todo [OF assms] by simp
  have "{NScheduler, NPool, NProject, NXds, NLogger, NConfig, NK8s} \<subseteq> set ns"
    using inv cl [of IK8s] cl [of IScheduler] cl [of IPool] cl [of IServer] cl [of IXds] by auto
  moreover from this have "{NStore, NIdem, NPoolStore} \<subseteq> set ns" using cl [of NScheduler] cl [of NPool] by auto
  moreover from this have "NRedis \<in> set ns" using cl [of NStore] by simp
  moreover have "set ns \<subseteq> set scheduler_invokes \<union> (\<Union>i \<in> set scheduler_invokes. needs i)"
    by (rule fx_order_needed [OF assms])
  ultimately show "set ns = set (provided scheduler_main @ scheduler_invokes) - {NSugared}"
    using inv by (auto simp: needs_sets)
qed

section \<open>The activator and the mock sandbox\<close>

datatype activator_component = AConfig | ALogger | AClient | AService | ITransport

definition activator_config_Module :: "activator_component fx_option list" where
  "activator_config_Module = [Provide AConfig []]"

definition activator_logger_Module :: "activator_component fx_option list" where
  "activator_logger_Module = [Provide ALogger [Req AConfig]]"

definition activator_client_Module :: "activator_component fx_option list" where
  "activator_client_Module = [Provide AClient [Req AConfig, Req ALogger]]"

definition activator_transport_Module :: "activator_component fx_option list" where
  "activator_transport_Module = [Invoke ITransport [Req AConfig, Req ALogger, Req AService]]"

definition activator_service_Module :: "activator_component fx_option list" where
  "activator_service_Module = [Provide AService [Req AClient, Req ALogger, Req AConfig]]"

definition Everything :: "activator_component fx_option list" where
  "Everything = activator_config_Module @ activator_logger_Module @ activator_client_Module @
     activator_transport_Module @ activator_service_Module"

lemmas activator_modules = Everything_def activator_config_Module_def activator_logger_Module_def
  activator_client_Module_def activator_transport_Module_def activator_service_Module_def

text \<open>The mock sandbox: its server, started by an invoked function, and a function whose hooks only log.\<close>

datatype sandbox_component = SLogger | SServer | IStartServer | ILogHooks

definition server_Module :: "sandbox_component fx_option list" where
  "server_Module = [Provide SServer [Req SLogger], Invoke IStartServer [Req SServer]]"

definition sandbox_main :: "sandbox_component fx_option list" where
  "sandbox_main = [Provide SLogger []] @ server_Module @ [Invoke ILogHooks [Req SLogger]]"

lemmas sandbox_modules = sandbox_main_def server_Module_def

text \<open>The containers of the three programs can be built, and each runs what it invokes.\<close>

lemma programs_buildable:
  "buildable scheduler_main [NConfig, NLogger, NSugared, NK8s, NRedis, NStore, NIdem, NPoolStore, NScheduler,
     NPool, NProject, NXds]"
  "buildable Everything [AConfig, ALogger, AClient, AService]"
  "buildable sandbox_main [SLogger, SServer]"
proof -
  show "buildable scheduler_main [NConfig, NLogger, NSugared, NK8s, NRedis, NStore, NIdem, NPoolStore, NScheduler,
     NPool, NProject, NXds]"
    by (auto simp: buildable_def) (auto simp: scheduler_modules List.map_filter_simps)
  show "buildable Everything [AConfig, ALogger, AClient, AService]"
    by (auto simp: buildable_def activator_modules fx_params_def List.map_filter_simps)
  show "buildable sandbox_main [SLogger, SServer]"
    by (auto simp: buildable_def sandbox_modules fx_params_def List.map_filter_simps)
qed

lemma activator_order: "fx_order Everything 3 [] (invoked Everything) [AConfig, ALogger, AClient, AService, ITransport]"
  by (simp add: activator_modules fx_eval)

lemma sandbox_order: "fx_order sandbox_main 2 [] (invoked sandbox_main) [SLogger, SServer, IStartServer, ILogHooks]"
  by (simp add: sandbox_modules fx_eval)

end
