(* ===== verification/Lifecycle.thy ===== *)
theory Lifecycle
  imports Startup Wiring
begin

text \<open>
  Start and stop of the scheduler program (\<open>scheduler/cmd/server/main.go\<close> and the
  \<open>module.go\<close> files, whose contents are in \<open>Wiring\<close>): the order in which the hooks are
  registered, what the hooks do to the program's goroutines, and what is left of them after
  a stop. \<open>fx\<close> is described by its documented behaviour.
\<close>


section \<open>The program's goroutines\<close>

record cleanup_manager =
  cm_interval :: int
  cm_running :: bool
  cm_cancelled :: bool

definition NewManager :: "int \<Rightarrow> int \<Rightarrow> cleanup_manager" where
  "NewManager intervalSecs batchSize = \<lparr>cm_interval = intervalSecs, cm_running = False, cm_cancelled = False\<rparr>"

definition manager_Start :: "cleanup_manager \<Rightarrow> cleanup_manager" where
  "manager_Start m = m\<lparr>cm_running := True\<rparr>"

definition manager_Stop :: "cleanup_manager \<Rightarrow> cleanup_manager" where
  "manager_Stop m = m\<lparr>cm_cancelled := True\<rparr>"

text \<open>
  Which goroutines were started and which of their contexts are cancelled: the pod watcher,
  the event consumer, the pool's maintenance, the cleanup, the HTTP server, and the xDS
  service (its updater, which has no context, and its gRPC server with the streams that
  Envoys have open).
\<close>

record app =
  ap_watching :: bool
  ap_watcher :: watcher
  ap_events :: bool
  ap_events_cancelled :: bool
  ap_pool :: bool
  ap_pool_cancelled :: bool
  ap_cleanup :: "cleanup_manager list"
  ap_http :: bool
  ap_subscribed :: bool
  ap_updater :: bool
  ap_grpc :: bool
  ap_streams :: nat
  ap_redis_closed :: bool

definition new_app :: app where
  "new_app =
     \<lparr>ap_watching = False, ap_watcher = new_watcher, ap_events = False, ap_events_cancelled = False,
      ap_pool = False, ap_pool_cancelled = False, ap_cleanup = [], ap_http = False, ap_subscribed = False, ap_updater = False,
      ap_grpc = False, ap_streams = 0, ap_redis_closed = False\<rparr>"

datatype hook = HK8s | HRedis | HScheduler | HPool | HServer | HCleanup | HXds

text \<open>The component whose run appends the hook.\<close>

fun hook_of :: "component \<Rightarrow> hook option" where
  "hook_of IK8s = Some HK8s"
| "hook_of NRedis = Some HRedis"
| "hook_of IScheduler = Some HScheduler"
| "hook_of IPool = Some HPool"
| "hook_of IServer = Some HServer"
| "hook_of ICleanup = Some HCleanup"
| "hook_of NXds = Some HXds"
| "hook_of n = None"

definition hooks :: "component list \<Rightarrow> hook list" where
  "hooks ns = List.map_filter hook_of ns"

text \<open>What the services do to their goroutines and contexts.\<close>

definition StartWatchers :: "app \<Rightarrow> app" where
  "StartWatchers s = s\<lparr>ap_watching := True\<rparr>"

definition start_events :: "app \<Rightarrow> app" where
  "start_events s = (if ap_events s then s else s\<lparr>ap_events := True\<rparr>)"

definition scheduler_Close :: "app \<Rightarrow> app" where
  "scheduler_Close s = s\<lparr>ap_events_cancelled := True\<rparr>"

definition pool_Start :: "scheduler_config \<Rightarrow> app \<Rightarrow> app" where
  "pool_Start cfg s = (if \<not> cf_PoolEnabled cfg then s else s\<lparr>ap_pool := True\<rparr>)"

definition pool_Stop :: "app \<Rightarrow> app" where
  "pool_Stop s = s\<lparr>ap_pool_cancelled := True\<rparr>"

text \<open>
  The \<open>OnStart\<close> functions; all of them return nil. That of xDS first loads the routes
  (\<open>loadInitialRoutes\<close>), and goes on whether or not that succeeds; its subscription is the
  subject of \<open>Subscription\<close>.
\<close>

definition k8s_OnStart :: "app \<Rightarrow> app" where
  "k8s_OnStart s = StartWatchers s"

definition scheduler_OnStart :: "app \<Rightarrow> app" where
  "scheduler_OnStart s = start_events s"

definition pool_OnStart :: "scheduler_config \<Rightarrow> app \<Rightarrow> app" where
  "pool_OnStart cfg s = pool_Start cfg s"

definition server_OnStart :: "app \<Rightarrow> app" where
  "server_OnStart s = s\<lparr>ap_http := True\<rparr>"

definition cleanup_OnStart :: "scheduler_config \<Rightarrow> app \<Rightarrow> app" where
  "cleanup_OnStart cfg s =
     s\<lparr>ap_cleanup := manager_Start (NewManager (CleanupIntervalSecs cfg) (CleanupBatchSize cfg)) # ap_cleanup s\<rparr>"

definition xds_OnStart :: "app \<Rightarrow> app" where
  "xds_OnStart s = s\<lparr>ap_subscribed := True, ap_updater := True, ap_grpc := True\<rparr>"

fun on_start :: "scheduler_config \<Rightarrow> hook \<Rightarrow> app \<Rightarrow> app" where
  "on_start cfg HK8s s = k8s_OnStart s"
| "on_start cfg HRedis s = s"
| "on_start cfg HScheduler s = scheduler_OnStart s"
| "on_start cfg HPool s = pool_OnStart cfg s"
| "on_start cfg HServer s = server_OnStart s"
| "on_start cfg HCleanup s = cleanup_OnStart cfg s"
| "on_start cfg HXds s = xds_OnStart s"

text \<open>
  The \<open>OnStop\<close> functions; \<open>None\<close> for one that does not return: \<open>GracefulStop\<close> waits for
  the streams that are open.
\<close>

definition k8s_OnStop :: "app \<Rightarrow> app option" where
  "k8s_OnStop s = Some (s\<lparr>ap_watcher := StopWatchers (ap_watcher s)\<rparr>)"

definition redis_OnStop :: "app \<Rightarrow> app option" where
  "redis_OnStop s = Some (s\<lparr>ap_redis_closed := True\<rparr>)"

definition scheduler_OnStop :: "app \<Rightarrow> app option" where
  "scheduler_OnStop s = Some (scheduler_Close s)"

definition pool_OnStop :: "app \<Rightarrow> app option" where
  "pool_OnStop s = Some (pool_Stop s)"

definition server_OnStop :: "app \<Rightarrow> app option" where
  "server_OnStop s = Some s"

definition cleanup_OnStop :: "app \<Rightarrow> app option" where
  "cleanup_OnStop s = Some s"

definition xds_OnStop :: "app \<Rightarrow> app option" where
  "xds_OnStop s = (if ap_streams s > 0 then None else Some (s\<lparr>ap_grpc := False\<rparr>))"

fun on_stop :: "hook \<Rightarrow> app \<Rightarrow> app option" where
  "on_stop HK8s s = k8s_OnStop s"
| "on_stop HRedis s = redis_OnStop s"
| "on_stop HScheduler s = scheduler_OnStop s"
| "on_stop HPool s = pool_OnStop s"
| "on_stop HServer s = server_OnStop s"
| "on_stop HCleanup s = cleanup_OnStop s"
| "on_stop HXds s = xds_OnStop s"

lemmas start_defs = k8s_OnStart_def scheduler_OnStart_def pool_OnStart_def server_OnStart_def
  cleanup_OnStart_def xds_OnStart_def StartWatchers_def start_events_def pool_Start_def
lemmas stop_defs = k8s_OnStop_def redis_OnStop_def scheduler_OnStop_def pool_OnStop_def server_OnStop_def
  cleanup_OnStop_def xds_OnStop_def scheduler_Close_def pool_Stop_def

text \<open>
  \<open>fx\<close> runs the \<open>OnStart\<close> functions in the order in which the hooks were appended, and the
  \<open>OnStop\<close> functions in the reverse order, each when the one before has returned; the
  flag says whether the last one did.
\<close>

locale fx_lifecycle =
  fixes run_start :: "('h \<Rightarrow> 's \<Rightarrow> 's) \<Rightarrow> 'h list \<Rightarrow> 's \<Rightarrow> 's"
    and run_stop :: "('h \<Rightarrow> 's \<Rightarrow> 's option) \<Rightarrow> 'h list \<Rightarrow> 's \<Rightarrow> 's \<times> bool"
  assumes start_none: "run_start f [] s = s"
    and start_next: "run_start f (h # hs) s = run_start f hs (f h s)"
    and stop_none: "run_stop g [] s = (s, True)"
    and stop_last: "run_stop g (hs @ [h]) s =
      (case g h s of None \<Rightarrow> (s, False) | Some s' \<Rightarrow> run_stop g hs s')"

fun sim_stop :: "('h \<Rightarrow> 's \<Rightarrow> 's option) \<Rightarrow> 'h list \<Rightarrow> 's \<Rightarrow> 's \<times> bool" where
  "sim_stop g [] s = (s, True)"
| "sim_stop g (h # hs) s = (case g h s of None \<Rightarrow> (s, False) | Some s' \<Rightarrow> sim_stop g hs s')"

interpretation sim_fx: fx_lifecycle "\<lambda>f hs s. fold f hs s" "\<lambda>g hs s. sim_stop g (rev hs) s"
  by unfold_locales simp_all

section \<open>The order of the hooks\<close>


text \<open>A segment with at most one component that appends a hook.\<close>

lemma hooks_append [simp]: "hooks (xs @ ys) = hooks xs @ hooks ys"
  by (simp add: hooks_def List.map_filter_def)

lemma hooks_Cons [simp]: "hooks (n # ns) = (case hook_of n of None \<Rightarrow> hooks ns | Some h \<Rightarrow> h # hooks ns)"
  by (simp add: hooks_def List.map_filter_simps split: option.splits)

lemma hooks_Nil [simp]: "hooks [] = []"
  by (simp add: hooks_def List.map_filter_simps)

lemma hooks_none: "(\<And>n. n \<in> set ns \<Longrightarrow> hook_of n = None) \<Longrightarrow> hooks ns = []"
  by (induction ns) simp_all

lemma hooks_one:
  assumes "distinct ns" and "m \<in> set ns" and "hook_of m = Some h"
    and "\<And>n. n \<in> set ns \<Longrightarrow> n \<noteq> m \<Longrightarrow> hook_of n = None"
  shows "hooks ns = [h]"
proof -
  obtain xs ys where ns: "ns = xs @ m # ys" using assms(2) split_list by fast
  then have "m \<notin> set xs" "m \<notin> set ys" using assms(1) by auto
  then have "hooks xs = []" "hooks ys = []" using assms(4) ns by (auto intro!: hooks_none)
  then show ?thesis using assms(3) ns by simp
qed


text \<open>The hooks of the run up to the next invoked function: none but its own, or one more.\<close>

lemma quiet_segment:
  assumes "fx_order scheduler_main 5 past (i # todo) ns"
    and "\<And>n. n \<in> needs i \<Longrightarrow> n \<notin> set past \<Longrightarrow> hook_of n = None"
  obtains ys zs where "set ys \<subseteq> needs i" and "fx_order scheduler_main 5 (past @ ys @ [i]) todo zs"
    and "hooks ns = hooks [i] @ hooks zs"
proof -
  obtain ys zs where s: "ns = ys @ i # zs" "set ys \<subseteq> needs i" "set ys \<inter> set past = {}"
    "fx_order scheduler_main 5 (past @ ys @ [i]) todo zs"
    using fx_segment [OF assms(1)] by blast
  then have "hooks ys = []" using assms(2) by (intro hooks_none) blast
  then show thesis using that [of ys zs] s by (simp split: option.splits)
qed

lemma hook_segment:
  assumes "fx_order scheduler_main 5 past (i # todo) ns" and "hook_of m = Some h" and "m \<notin> set past"
    and "\<And>S. set (params i) \<subseteq> set past \<union> S \<Longrightarrow> \<forall>n \<in> S. set (params n) \<subseteq> set past \<union> S \<Longrightarrow> m \<in> S"
    and "\<And>n. n \<in> needs i \<Longrightarrow> n \<notin> set past \<Longrightarrow> n \<noteq> m \<Longrightarrow> hook_of n = None"
  obtains ys zs where "set ys \<subseteq> needs i" and "m \<in> set ys" and "fx_order scheduler_main 5 (past @ ys @ [i]) todo zs"
    and "hooks ns = h # hooks [i] @ hooks zs"
proof -
  obtain ys zs where s: "ns = ys @ i # zs" "set ys \<subseteq> needs i" "set ys \<inter> set past = {}" "distinct ys"
      "\<forall>n \<in> set ys. set (params n) \<subseteq> set past \<union> set ys" "set (params i) \<subseteq> set past \<union> set ys"
    and r: "fx_order scheduler_main 5 (past @ ys @ [i]) todo zs"
    using fx_segment [OF assms(1)] by (elim exE conjE) (rule that, assumption+)
  have m: "m \<in> set ys" by (rule assms(4) [OF s(6,5)])
  then have "hooks ys = [h]" using s assms(2,5) by (intro hooks_one) blast+
  then show thesis using that [of ys zs] s m r by (simp split: option.splits)
qed

lemma hook_order:
  assumes "fx_order scheduler_main 5 [] scheduler_invokes ns"
  shows "hooks ns = [HK8s, HRedis, HScheduler, HPool, HServer, HCleanup, HXds]"
proof -
  obtain y1 z1 where 1: "set y1 \<subseteq> needs IK8s" "hooks ns = hooks [IK8s] @ hooks z1"
    and o1: "fx_order scheduler_main 5 (y1 @ [IK8s]) [IScheduler, IPool, IServer, ICleanup, IXds] z1"
    using quiet_segment [OF assms [unfolded scheduler_invoked]] unfolding append_Nil needs_sets by force
  note sub1 = 1(1) [unfolded needs_sets]
  obtain y2 z2 where 2: "set y2 \<subseteq> needs IScheduler" "NRedis \<in> set y2" "hooks z1 = HRedis # hooks [IScheduler] @ hooks z2"
    and o2: "fx_order scheduler_main 5 ((y1 @ [IK8s]) @ y2 @ [IScheduler]) [IPool, IServer, ICleanup, IXds] z2"
  proof (rule hook_segment [OF o1, of NRedis HRedis])
    fix S assume S: "set (params IScheduler) \<subseteq> set (y1 @ [IK8s]) \<union> S" "\<forall>n \<in> S. set (params n) \<subseteq> set (y1 @ [IK8s]) \<union> S"
    then have "NScheduler \<in> S" using sub1 by auto
    then have "NStore \<in> S" using S(2) sub1 by fastforce
    then show "NRedis \<in> S" using S(2) sub1 by fastforce
  qed (use sub1 in \<open>auto simp: needs_sets\<close>)
  note sub2 = 2(1) [unfolded needs_sets]
  obtain y3 z3 where 3: "set y3 \<subseteq> needs IPool" "hooks z2 = hooks [IPool] @ hooks z3"
    and o3: "fx_order scheduler_main 5 (((y1 @ [IK8s]) @ y2 @ [IScheduler]) @ y3 @ [IPool]) [IServer, ICleanup, IXds] z3"
    by (rule quiet_segment [OF o2]) (use 2(2) in \<open>auto simp: needs_sets\<close>)
  note sub3 = 3(1) [unfolded needs_sets]
  obtain y4 z4 where 4: "set y4 \<subseteq> needs IServer" "hooks z3 = hooks [IServer] @ hooks z4"
    and o4: "fx_order scheduler_main 5 ((((y1 @ [IK8s]) @ y2 @ [IScheduler]) @ y3 @ [IPool]) @ y4 @ [IServer])
      [ICleanup, IXds] z4"
    by (rule quiet_segment [OF o3]) (use 2(2) in \<open>auto simp: needs_sets\<close>)
  note sub4 = 4(1) [unfolded needs_sets]
  obtain y5 z5 where 5: "set y5 \<subseteq> needs ICleanup" "hooks z4 = hooks [ICleanup] @ hooks z5"
    and o5: "fx_order scheduler_main 5
      (((((y1 @ [IK8s]) @ y2 @ [IScheduler]) @ y3 @ [IPool]) @ y4 @ [IServer]) @ y5 @ [ICleanup]) [IXds] z5"
    by (rule quiet_segment [OF o4]) (use 2(2) in \<open>auto simp: needs_sets\<close>)
  note sub5 = 5(1) [unfolded needs_sets]
  obtain y6 z6 where 6: "hooks z5 = HXds # hooks [IXds] @ hooks z6"
    and o6: "fx_order scheduler_main 5
      ((((((y1 @ [IK8s]) @ y2 @ [IScheduler]) @ y3 @ [IPool]) @ y4 @ [IServer]) @ y5 @ [ICleanup]) @ y6 @ [IXds]) [] z6"
    by (rule hook_segment [OF o5, of NXds HXds]) (use 2(2) sub1 sub2 sub3 sub4 sub5 in \<open>auto simp: needs_sets\<close>)
  have "z6 = []" using o6 by (cases z6) simp_all
  then show ?thesis using 1(2) 2(3) 3(2) 4(2) 5(2) 6 by simp
qed

section \<open>Properties of the life of the program\<close>

text \<open>
  C12 (what a start starts and a stop leaves). A start runs every constructor that the
  modules provide, except that of the sugared logger, and every invoked function, once, and
  the hooks are registered in one order only:
  pod watcher, Redis, event consumer, pool, HTTP server, cleanup, xDS. After the start
  everything runs, the pool's maintenance only when it is enabled. A stop begins with the
  xDS server, and waits for it: with an Envoy connected it does not get further, and
  nothing else is stopped. Otherwise it cancels the maintenance and the event consumer,
  then closes Redis and stops the watcher; but the HTTP server, the cleanup job and the
  snapshot updater still run, over a closed Redis client.
\<close>

theorem scheduler_stop:
  assumes "fx_order scheduler_main 5 [] (invoked scheduler_main) ns" and "fx_lifecycle run_start run_stop"
    and "s1 = run_start (on_start cfg) (hooks ns) new_app"
  shows "distinct ns \<and> set ns = set (provided scheduler_main @ invoked scheduler_main) - {NSugared} \<and>
    hooks ns = [HK8s, HRedis, HScheduler, HPool, HServer, HCleanup, HXds] \<and>
    ap_watching s1 \<and> ap_events s1 \<and> ap_pool s1 = cf_PoolEnabled cfg \<and> ap_http s1 \<and> ap_subscribed s1 \<and> ap_updater s1 \<and> ap_grpc s1 \<and>
    map cm_running (ap_cleanup s1) = [True] \<and>
    (\<forall>n. 0 < n \<longrightarrow> run_stop on_stop (hooks ns) (s1\<lparr>ap_streams := n\<rparr>) = (s1\<lparr>ap_streams := n\<rparr>, False)) \<and>
    (\<exists>s2. run_stop on_stop (hooks ns) s1 = (s2, True) \<and>
      \<not> ap_grpc s2 \<and> ap_pool_cancelled s2 \<and> ap_events_cancelled s2 \<and> ap_redis_closed s2 \<and>
      wt_cancelled (ap_watcher s2) \<and> chan_closed (wt_chan (ap_watcher s2)) \<and>
      ap_http s2 \<and> ap_updater s2 \<and> ap_cleanup s2 = ap_cleanup s1 \<and> map cm_cancelled (ap_cleanup s2) = [False])"
proof -
  note h = hook_order [OF assms(1)]
  note st = fx_lifecycle.start_none [OF assms(2)] fx_lifecycle.start_next [OF assms(2)]
  have s1: "s1 = new_app\<lparr>ap_watching := True, ap_events := True, ap_pool := cf_PoolEnabled cfg, ap_http := True,
      ap_cleanup := [manager_Start (NewManager (CleanupIntervalSecs cfg) (CleanupBatchSize cfg))],
      ap_subscribed := True, ap_updater := True, ap_grpc := True\<rparr>"
    unfolding assms(3) h by (simp add: st start_defs new_app_def)
  note last = fx_lifecycle.stop_last [OF assms(2), where g = on_stop]
  have stuck: "run_stop on_stop (hooks ns) (s1\<lparr>ap_streams := n\<rparr>) = (s1\<lparr>ap_streams := n\<rparr>, False)" if "0 < n" for n
    using that last [of "[HK8s, HRedis, HScheduler, HPool, HServer, HCleanup]" HXds "s1\<lparr>ap_streams := n\<rparr>"]
    by (simp add: h stop_defs)
  let ?s2 = "s1\<lparr>ap_grpc := False, ap_pool_cancelled := True, ap_events_cancelled := True, ap_redis_closed := True,
      ap_watcher := StopWatchers (ap_watcher s1)\<rparr>"
  have r: "run_stop on_stop (hooks ns) s1 = (?s2, True)"
    using last [of "[HK8s, HRedis, HScheduler, HPool, HServer, HCleanup]" HXds s1]
      last [of "[HK8s, HRedis, HScheduler, HPool, HServer]" HCleanup]
      last [of "[HK8s, HRedis, HScheduler, HPool]" HServer]
      last [of "[HK8s, HRedis, HScheduler]" HPool] last [of "[HK8s, HRedis]" HScheduler]
      last [of "[HK8s]" HRedis] last [of "[]" HK8s] fx_lifecycle.stop_none [OF assms(2)]
    by (simp add: h stop_defs s1 new_app_def)
  have p: "\<not> ap_grpc ?s2 \<and> ap_pool_cancelled ?s2 \<and> ap_events_cancelled ?s2 \<and> ap_redis_closed ?s2 \<and>
      wt_cancelled (ap_watcher ?s2) \<and> chan_closed (wt_chan (ap_watcher ?s2)) \<and>
      ap_http ?s2 \<and> ap_updater ?s2 \<and> ap_cleanup ?s2 = ap_cleanup s1 \<and> map cm_cancelled (ap_cleanup ?s2) = [False]"
    by (simp add: s1 StopWatchers_def chan_close_def manager_Start_def NewManager_def)
  have ex: "\<exists>s2. run_stop on_stop (hooks ns) s1 = (s2, True) \<and>
      \<not> ap_grpc s2 \<and> ap_pool_cancelled s2 \<and> ap_events_cancelled s2 \<and> ap_redis_closed s2 \<and>
      wt_cancelled (ap_watcher s2) \<and> chan_closed (wt_chan (ap_watcher s2)) \<and>
      ap_http s2 \<and> ap_updater s2 \<and> ap_cleanup s2 = ap_cleanup s1 \<and> map cm_cancelled (ap_cleanup s2) = [False]"
    by (rule exI [of _ ?s2], rule conjI [OF r p])
  have started: "ap_watching s1 \<and> ap_events s1 \<and> ap_pool s1 = cf_PoolEnabled cfg \<and> ap_http s1 \<and> ap_subscribed s1 \<and> ap_updater s1 \<and>
      ap_grpc s1 \<and> map cm_running (ap_cleanup s1) = [True]"
    by (simp add: s1 manager_Start_def)
  have stuck': "\<forall>n. 0 < n \<longrightarrow> run_stop on_stop (hooks ns) (s1\<lparr>ap_streams := n\<rparr>) = (s1\<lparr>ap_streams := n\<rparr>, False)"
    using stuck by simp
  show ?thesis
    using conjI [OF scheduler_runs_all [OF assms(1)] conjI [OF h conjI [OF started conjI [OF stuck' ex]]]]
    unfolding conj_assoc .
qed

text \<open>The order in which \<open>fx\<close> in fact runs the scheduler's components.\<close>

definition sim_order :: "component list" where
  "sim_order = [NConfig, NLogger, NK8s, IK8s, NRedis, NIdem, NStore, NScheduler, IScheduler, NPoolStore,
     NPool, IPool, NProject, IServer, ICleanup, NXds, IXds]"

theorem scheduler_stop_witness:
  "\<exists>s1 s2. s1 = fold (on_start sim_config) (hooks sim_order) new_app \<and> ap_pool s1 \<and>
     sim_stop on_stop (rev (hooks sim_order)) s1 = (s2, True) \<and> ap_redis_closed s2 \<and> ap_http s2 \<and>
     sim_stop on_stop (rev (hooks sim_order)) (s1\<lparr>ap_streams := 1\<rparr>) = (s1\<lparr>ap_streams := 1\<rparr>, False)"
proof -
  have o': "fx_order scheduler_main 5 [] (invoked scheduler_main) sim_order"
    by (simp add: sim_order_def needs_sets)
  have pool: "cf_PoolEnabled sim_config" by (simp add: sim_config_def)
  let ?s1 = "fold (on_start sim_config) (hooks sim_order) new_app"
  have t: "ap_pool ?s1 = cf_PoolEnabled sim_config \<and>
      (\<forall>n. 0 < n \<longrightarrow> sim_stop on_stop (rev (hooks sim_order)) (?s1\<lparr>ap_streams := n\<rparr>) = (?s1\<lparr>ap_streams := n\<rparr>, False)) \<and>
      (\<exists>s2. sim_stop on_stop (rev (hooks sim_order)) ?s1 = (s2, True) \<and> ap_redis_closed s2 \<and> ap_http s2)"
    using scheduler_stop [OF o' sim_fx.fx_lifecycle_axioms refl, of sim_config]
    by (elim conjE exE) (intro conjI exI, assumption+)
  then obtain s2 where "sim_stop on_stop (rev (hooks sim_order)) ?s1 = (s2, True)" "ap_redis_closed s2" "ap_http s2"
    by (elim conjE exE)
  moreover have "sim_stop on_stop (rev (hooks sim_order)) (?s1\<lparr>ap_streams := 1\<rparr>) = (?s1\<lparr>ap_streams := 1\<rparr>, False)"
    using t [THEN conjunct2, THEN conjunct1, THEN spec, of 1] by simp
  ultimately show ?thesis using t pool by blast
qed

end
