(* ===== verification/Processes.thy ===== *)
theory Processes
  imports Startup
begin

text \<open>
  The activator as a process (\<open>activator/cmd/activator/main.go\<close>, \<open>internal/transport/http.go\<close>,
  \<open>internal/logger/logger.go\<close>): how it is put together, the goroutine that serves HTTP, the
  requests in progress, and how the process ends. Also the logger and the HTTP server of the
  scheduler (\<open>internal/logging/logger.go\<close>, \<open>internal/transport/http\<close>), which are of the same make.
\<close>

section \<open>Loggers\<close>

text \<open>
  What is used of zap: the two ready-made loggers, and the build of the development
  configuration at a level. \<open>'l\<close> is the type of its loggers.
\<close>

datatype zap_level = DebugLevel | InfoLevel

record ('l, 'u) zap =
  zap_NewProduction :: "err + 'l"
  zap_NewDevelopment :: "err + 'l"
  zap_BuildDevelopment :: "zap_level \<Rightarrow> err + 'l"
  zap_Sugar :: "'l \<Rightarrow> 'u"

definition ProvideLogger :: "('l, 'u) zap \<Rightarrow> scheduler_config \<Rightarrow> err + 'l" where
  "ProvideLogger z cfg =
     (case (if DevelopmentLogging cfg then zap_BuildDevelopment z InfoLevel else zap_NewProduction z) of
        Inl e \<Rightarrow> Inl e
      | Inr logger \<Rightarrow> Inr logger)"

definition ProvideLoggerSugared :: "('l, 'u) zap \<Rightarrow> 'l \<Rightarrow> 'u" where
  "ProvideLoggerSugared z logger = zap_Sugar z logger"

definition provideLogger :: "('l, 'u) zap \<Rightarrow> 'f activator_config \<Rightarrow> err + 'l" where
  "provideLogger z cfg =
     (case (if lg_Development (ac_Logging cfg) then zap_NewDevelopment z else zap_NewProduction z) of
        Inl e \<Rightarrow> Inl (ErrWrap ''failed to create logger: '' e)
      | Inr logger \<Rightarrow> Inr logger)"

section \<open>The servers of the scheduler\<close>

text \<open>
  The generated handler of the project service comes with its path. \<open>listen\<close> is
  \<open>http.ListenAndServe\<close> with the handlers by path, as the error that it returns.
\<close>

definition StartServer ::
  "('p \<Rightarrow> string \<times> 'h) \<Rightarrow> (string \<Rightarrow> (string \<times> 'h) list \<Rightarrow> ('w, err option) op) \<Rightarrow> scheduler_config \<Rightarrow> 'p \<Rightarrow>
     ('w, err option) op" where
  "StartServer handler listen cfg projectServer w =
     (let (path, h) = handler projectServer
      in listen ('':'' @ show_int (Port cfg)) [(path, h)] w)"

text \<open>The goroutine that \<open>ProvideServer\<close> starts; \<open>Fatal\<close> ends the process with status 1.\<close>

definition server_goroutine ::
  "('p \<Rightarrow> string \<times> 'h) \<Rightarrow> (string \<Rightarrow> (string \<times> 'h) list \<Rightarrow> ('w, err option) op) \<Rightarrow> scheduler_config \<Rightarrow> 'p \<Rightarrow>
     ('w, int option) op" where
  "server_goroutine handler listen cfg projectServer w =
     (let (projectPath, projectHandler) = handler projectServer;
          addr = '':'' @ show_int (Port cfg)
      in case listen addr [(projectPath, projectHandler)] w of
           (None, w') \<Rightarrow> (None, w')
         | (Some e, w') \<Rightarrow> (Some 1, w'))"

text \<open>The gRPC server of the xDS service, in its goroutine: \<open>net.Listen\<close> and \<open>Serve\<close>.\<close>

definition xds_StartServer ::
  "(string \<Rightarrow> ('w, err + 'l) op) \<Rightarrow> ('l \<Rightarrow> ('w, err option) op) \<Rightarrow> scheduler_config \<Rightarrow> ('w, int option) op" where
  "xds_StartServer net_listen grpc_serve cfg w =
     (case net_listen (''0.0.0.0:'' @ show_int (XDSPort cfg)) w of
        (Inl e, w1) \<Rightarrow> (Some 1, w1)
      | (Inr listener, w1) \<Rightarrow>
          (case grpc_serve listener w1 of
             (Some e, w2) \<Rightarrow> (Some 1, w2)
           | (None, w2) \<Rightarrow> (None, w2)))"

text \<open>The unused \<open>StartServer\<close> serves what the goroutine serves, and hands the error to its caller instead.\<close>

lemma server_goroutine_StartServer:
  "server_goroutine handler listen cfg p w =
     (case StartServer handler listen cfg p w of (e, w') \<Rightarrow> (map_option (\<lambda>_. 1) e, w'))"
  by (simp add: server_goroutine_def StartServer_def Let_def split: prod.splits option.splits)

section \<open>Putting the activator together\<close>

definition build_activator ::
  "('l, 'u) zap \<Rightarrow> ('w, 'f) activator_libs \<Rightarrow> 'f envconfig \<Rightarrow> err + ('w activator \<times> string)" where
  "build_activator z L E =
     sum_bind (activator_LoadConfig E) (\<lambda>cfg.
     sum_bind (provideLogger z cfg) (\<lambda>logger.
       Inr (NewActivatorService L (NewSchedulerClient L cfg) cfg, activator_addr cfg)))"

text \<open>
  \<open>net/http\<close> sends requests over the schemes \<open>http\<close> and \<open>https\<close> only, so that the Connect
  client of an address without one of them answers every call with an error.
\<close>

definition http_scheme :: "string \<Rightarrow> bool" where
  "http_scheme addr \<longleftrightarrow> prefix ''http://'' addr \<or> prefix ''https://'' addr"

section \<open>The server's life\<close>

text \<open>
  \<open>net/http\<close>: \<open>ListenAndServe\<close> always ends with an error, and with this one when the server
  was shut down. A listener's own error is never this one.
\<close>

definition ErrServerClosed :: err where
  "ErrServerClosed = ErrText ''http: Server closed''"

text \<open>
  Where the goroutine of \<open>OnStart\<close> is: before \<open>ListenAndServe\<close>; past its check that the
  server was not shut down; accepting connections; back, with an error.
\<close>

datatype serve_pc = GNew | GChecked | GServing | GReturned err

text \<open>
  Where the process is: before its start; started; in \<open>Shutdown\<close>; over, by the return of
  \<open>main\<close> with what the stop gave, or by \<open>os.Exit\<close>.
\<close>

datatype act_phase = ANew | AStarted | AStopping | AStopped "err option" | AExited int

record 'w act_state =
  at_world :: 'w
  at_pc :: "serve_pc option"
  at_shutdown :: bool
  at_conns :: nat
  at_active :: "inbound list"
  at_phase :: act_phase

definition new_activator :: "'w \<Rightarrow> 'w act_state" where
  "new_activator w =
     \<lparr>at_world = w, at_pc = None, at_shutdown = False, at_conns = 0, at_active = [], at_phase = ANew\<rparr>"

definition alive :: "'w act_state \<Rightarrow> bool" where
  "alive s \<longleftrightarrow> at_phase s \<in> {AStarted, AStopping}"

text \<open>The hooks: \<open>OnStart\<close> starts the goroutine and is content; \<open>OnStop\<close> enters \<open>Shutdown\<close>.\<close>

definition activator_OnStart :: "'w act_state \<Rightarrow> err option \<times> 'w act_state" where
  "activator_OnStart s = (None, s\<lparr>at_pc := Some GNew\<rparr>)"

definition activator_OnStop :: "'w act_state \<Rightarrow> 'w act_state" where
  "activator_OnStop s = s\<lparr>at_shutdown := True\<rparr>"

text \<open>What the goroutine does with the error of \<open>ListenAndServe\<close>.\<close>

definition serve_returns :: "err \<Rightarrow> 'w act_state \<Rightarrow> 'w act_state" where
  "serve_returns e s =
     (if e \<noteq> ErrServerClosed then s\<lparr>at_pc := Some (GReturned e), at_phase := AExited 1\<rparr>
      else s\<lparr>at_pc := Some (GReturned e)\<rparr>)"

datatype act_label =
    AlStart | AlAccepted inbound | AlAnswered inbound handled | AlFailed err | AlSignal | AlTau

text \<open>
  The steps. The server counts the connections that are idle (\<open>at_conns\<close>) and those with a
  request in progress (\<open>at_active\<close>); \<open>Shutdown\<close> closes the listener, then the idle
  connections, and returns when there is none of either kind, or when its context is over.
  Each request runs in a goroutine of its own, which is one step here, with any context and
  any wake-ups.
\<close>

inductive act_step :: "'w activator \<Rightarrow> 'w act_state \<Rightarrow> act_label \<Rightarrow> 'w act_state \<Rightarrow> bool" for a where
  start: "at_phase s = ANew \<Longrightarrow> activator_OnStart s = (None, s') \<Longrightarrow> act_step a s AlStart (s'\<lparr>at_phase := AStarted\<rparr>)"
| check: "alive s \<Longrightarrow> at_pc s = Some GNew \<Longrightarrow>
    act_step a s AlTau (if at_shutdown s then serve_returns ErrServerClosed s else s\<lparr>at_pc := Some GChecked\<rparr>)"
| listen: "alive s \<Longrightarrow> at_pc s = Some GChecked \<Longrightarrow>
    act_step a s AlTau (if at_shutdown s then serve_returns ErrServerClosed s else s\<lparr>at_pc := Some GServing\<rparr>)"
| listen_fails: "alive s \<Longrightarrow> at_pc s = Some GChecked \<Longrightarrow> e \<noteq> ErrServerClosed \<Longrightarrow>
    act_step a s (AlFailed e) (serve_returns e s)"
| accept_fails: "alive s \<Longrightarrow> at_pc s = Some GServing \<Longrightarrow> \<not> at_shutdown s \<Longrightarrow> e \<noteq> ErrServerClosed \<Longrightarrow>
    act_step a s (AlFailed e) (serve_returns e s)"
| closed: "alive s \<Longrightarrow> at_pc s = Some GServing \<Longrightarrow> at_shutdown s \<Longrightarrow>
    act_step a s AlTau (serve_returns ErrServerClosed s)"
| connect: "alive s \<Longrightarrow> at_pc s = Some GServing \<Longrightarrow> act_step a s AlTau (s\<lparr>at_conns := at_conns s + 1\<rparr>)"
| disconnect: "alive s \<Longrightarrow> at_conns s = Suc n \<Longrightarrow> act_step a s AlTau (s\<lparr>at_conns := n\<rparr>)"
| request: "alive s \<Longrightarrow> at_conns s = Suc n \<Longrightarrow>
    act_step a s (AlAccepted r) (s\<lparr>at_conns := n, at_active := at_active s @ [r]\<rparr>)"
| answer: "alive s \<Longrightarrow> at_active s = xs @ r # ys \<Longrightarrow> activator_serve a c wks r (at_world s) = (Some h, w') \<Longrightarrow>
    act_step a s (AlAnswered r h)
      (s\<lparr>at_world := w', at_active := xs @ ys, at_conns := (if h = HandlerPanic then at_conns s else at_conns s + 1)\<rparr>)"
| others: "alive s \<Longrightarrow> act_step a s AlTau (s\<lparr>at_world := w'\<rparr>)"
| signal: "at_phase s = AStarted \<Longrightarrow> act_step a s AlSignal (activator_OnStop s\<lparr>at_phase := AStopping\<rparr>)"
| drained: "at_phase s = AStopping \<Longrightarrow> at_pc s \<noteq> Some GServing \<Longrightarrow> at_conns s = 0 \<Longrightarrow> at_active s = [] \<Longrightarrow>
    act_step a s AlTau (s\<lparr>at_phase := AStopped None\<rparr>)"
| timeout: "at_phase s = AStopping \<Longrightarrow> act_step a s AlTau (s\<lparr>at_phase := AStopped (Some DeadlineExceeded)\<rparr>)"

inductive act_run :: "'w activator \<Rightarrow> 'w act_state \<Rightarrow> act_label list \<Rightarrow> 'w act_state \<Rightarrow> bool" for a where
  nil: "act_run a s [] s"
| snoc: "act_run a s ls s' \<Longrightarrow> act_step a s' l s'' \<Longrightarrow> act_run a s (ls @ [l]) s''"

text \<open>The requests that were taken, and those that were answered.\<close>

definition accepted :: "act_label list \<Rightarrow> inbound list" where
  "accepted ls = List.map_filter (\<lambda>l. case l of AlAccepted r \<Rightarrow> Some r | _ \<Rightarrow> None) ls"

definition answered :: "act_label list \<Rightarrow> inbound list" where
  "answered ls = List.map_filter (\<lambda>l. case l of AlAnswered r h \<Rightarrow> Some r | _ \<Rightarrow> None) ls"

lemma accepted_simps [simp]:
  "accepted [] = []"
  "accepted (ls @ [l]) = accepted ls @ (case l of AlAccepted r \<Rightarrow> [r] | _ \<Rightarrow> [])"
  "answered [] = []"
  "answered (ls @ [l]) = answered ls @ (case l of AlAnswered r h \<Rightarrow> [r] | _ \<Rightarrow> [])"
  by (simp_all add: accepted_def answered_def List.map_filter_def split: act_label.split)

section \<open>The answers\<close>

definition healthy :: handled where
  "healthy = Responds \<lparr>hr_status = 200, hr_header = [], hr_body = ''''\<rparr>"

text \<open>What an answer may be, by path, project and retries.\<close>

definition proper_answer :: "'w activator \<Rightarrow> inbound \<Rightarrow> handled \<Rightarrow> bool" where
  "proper_answer a r h \<longleftrightarrow>
     (if in_path r = ''/healthz'' then h = healthy
      else if header_get (in_header r) ''Project-Id'' = '''' then h = http_error ''No project ID found'' 400
      else 0 \<le> maxRetries a \<longrightarrow> h \<noteq> HandlerPanic)"

lemma activator_serve_returns:
  "nat (maxRetries a) \<le> length wks \<Longrightarrow> \<exists>h w'. activator_serve a c wks r w = (Some h, w')"
  using HandleRequest_outcome [of a wks c r w] by (auto simp: activator_serve_def)

lemma HandleRequest_no_panic:
  assumes "0 \<le> maxRetries a" and "HandleRequest a c wks r w = (Some h, w')"
  shows "h \<noteq> HandlerPanic"
proof
  assume "h = HandlerPanic"
  then obtain req waits w1 where "doWithRetry a c req wks w1 = (Some ((None, None), waits), w')"
    using assms(2) by (auto simp: HandleRequest_def http_error_def Let_def split: if_splits sum.splits option.splits prod.splits)
  then show False using doWithRetry_result [OF assms(1)] by blast
qed

lemma activator_serve_proper:
  "activator_serve a c wks r w = (Some h, w') \<Longrightarrow> proper_answer a r h"
  using HandleRequest_no_panic [of a c wks r w h w']
  by (auto simp: activator_serve_def proper_answer_def healthy_def HandleRequest_def Let_def split: if_splits)

section \<open>The invariant\<close>

lemmas act_defs = alive_def serve_returns_def activator_OnStart_def activator_OnStop_def new_activator_def

text \<open>What the labels of a run say about its state.\<close>

definition act_inv :: "'w activator \<Rightarrow> act_label list \<Rightarrow> 'w act_state \<Rightarrow> bool" where
  "act_inv a ls s \<longleftrightarrow>
     mset (accepted ls) = mset (answered ls) + mset (at_active s) \<and>
     (\<forall>r h. AlAnswered r h \<in> set ls \<longrightarrow> proper_answer a r h) \<and>
     (at_shutdown s \<longleftrightarrow> AlSignal \<in> set ls) \<and>
     (at_pc s = None \<longleftrightarrow> at_phase s = ANew) \<and>
     (at_phase s \<in> {ANew, AStarted} \<longrightarrow> AlSignal \<notin> set ls) \<and>
     (at_phase s = AStopping \<longrightarrow> AlSignal \<in> set ls) \<and>
     (\<forall>x. at_phase s = AStopped x \<longrightarrow> AlSignal \<in> set ls) \<and>
     (at_phase s = AStopped None \<longrightarrow> at_active s = []) \<and>
     (\<forall>n. at_phase s = AExited n \<longrightarrow> n = 1) \<and>
     ((\<exists>n. at_phase s = AExited n) \<longleftrightarrow> (\<exists>e. AlFailed e \<in> set ls))"

lemma act_inv_start: "act_inv a [] (new_activator w)"
  by (simp add: act_inv_def new_activator_def)

lemma act_inv_step:
  assumes "act_inv a ls s" and "act_step a s l s'"
  shows "act_inv a (ls @ [l]) s'"
  using assms(2)
proof (cases rule: act_step.cases)
  case (answer xs r ys c wks h w')
  have "proper_answer a r h" by (rule activator_serve_proper [OF answer(5)])
  then show ?thesis using assms(1) answer by (auto simp: act_inv_def act_defs)
qed (use assms(1) in \<open>auto simp: act_inv_def act_defs\<close>)

lemma act_inv_run: "act_run a (new_activator w) ls s \<Longrightarrow> act_inv a ls s"
proof (induction "new_activator w" ls s rule: act_run.induct)
  case nil
  then show ?case by (rule act_inv_start)
next
  case (snoc ls s' l s'')
  then show ?case using act_inv_step by blast
qed

section \<open>A stop can always be completed\<close>

lemma act_run_one: "act_step a s l s' \<Longrightarrow> act_run a s [l] s'"
  using act_run.snoc [OF act_run.nil] by fastforce

lemma act_run_trans: "act_run a s2 ls' s3 \<Longrightarrow> act_run a s1 ls s2 \<Longrightarrow> act_run a s1 (ls @ ls') s3"
proof (induction rule: act_run.induct)
  case (snoc s ls' s' l s'')
  then show ?case using act_run.snoc [of a s1 "ls @ ls'"] by simp
qed simp

lemma act_run_cons: "act_step a s l s1 \<Longrightarrow> act_run a s1 ls s2 \<Longrightarrow> act_run a s (l # ls) s2"
  using act_run_trans [OF _ act_run_one, of a s1 ls s2 s l] by simp

lemma drain:
  assumes "at_phase s = AStopping" and "at_pc s \<noteq> Some GServing"
  shows "\<exists>ls s'. act_run a s ls s' \<and> at_phase s' = AStopped None \<and> answered ls = at_active s"
  using assms
proof (induction "2 * length (at_active s) + at_conns s" arbitrary: s rule: less_induct)
  case less
  have alive: "alive s" using less.prems by (simp add: alive_def)
  show ?case
  proof (cases "at_active s")
    case (Cons r rs)
    obtain h w' where h: "activator_serve a background (replicate (nat (maxRetries a)) undefined) r (at_world s) = (Some h, w')"
      using activator_serve_returns [of a "replicate (nat (maxRetries a)) undefined"] by fastforce
    let ?s = "s\<lparr>at_world := w', at_active := rs, at_conns := (if h = HandlerPanic then at_conns s else at_conns s + 1)\<rparr>"
    have st: "act_step a s (AlAnswered r h) ?s"
      using act_step.answer [OF alive, of "[]" r rs, OF _ h] Cons by simp
    have "2 * length (at_active ?s) + at_conns ?s < 2 * length (at_active s) + at_conns s" using Cons by simp
    from less.hyps [OF this] obtain ls s' where "act_run a ?s ls s'" "at_phase s' = AStopped None" "answered ls = rs"
      using less.prems by auto
    then show ?thesis using act_run_cons [OF st] Cons
      by (intro exI [of _ "AlAnswered r h # ls"] exI [of _ s']) (simp add: answered_def List.map_filter_simps)
  next
    case Nil
    show ?thesis
    proof (cases "at_conns s")
      case 0
      then show ?thesis using act_run_one [OF act_step.drained, of s a] less.prems Nil
        by (intro exI [of _ "[AlTau]"]) (auto simp: answered_def List.map_filter_simps)
    next
      case (Suc n)
      obtain ls s' where "act_run a (s\<lparr>at_conns := n\<rparr>) ls s'" "at_phase s' = AStopped None" "answered ls = []"
        using less.hyps [of "s\<lparr>at_conns := n\<rparr>"] less.prems Nil Suc by auto
      then show ?thesis using act_run_cons [OF act_step.disconnect [OF alive Suc]] Nil
        by (intro exI [of _ "AlTau # ls"] exI [of _ s']) (simp add: answered_def List.map_filter_simps)
    qed
  qed
qed

lemma stop_completes:
  assumes "at_phase s = AStopping" and "at_shutdown s"
  shows "\<exists>ls s'. act_run a s ls s' \<and> at_phase s' = AStopped None \<and> answered ls = at_active s"
proof (cases "at_pc s = Some GServing")
  case True
  let ?s = "serve_returns ErrServerClosed s"
  have "act_step a s AlTau ?s" using assms True by (intro act_step.closed) (simp_all add: alive_def)
  moreover obtain ls s' where "act_run a ?s ls s'" "at_phase s' = AStopped None" "answered ls = at_active s"
    using drain [of ?s a] assms by (auto simp: serve_returns_def)
  ultimately show ?thesis using act_run_cons [of a s AlTau ?s]
    by (intro exI [of _ "AlTau # ls"] exI [of _ s']) (simp add: answered_def List.map_filter_simps)
qed (use drain assms in blast)

section \<open>Properties of the activator's process\<close>

text \<open>
  C18 (the activator's process). Each request that was taken has been answered once or is in
  progress, and the answer is proper: 200 for the health check, 400 without a project, and no
  panic unless the retries are negative. A stop without error comes after a signal and leaves
  no request unanswered, and once the process is stopping, such a stop is possible wherever
  its goroutines are. The process exits by itself exactly when its listener has failed, with
  status 1 and whatever is in progress lost; that can happen right after a start that was
  reported as a success, since \<open>OnStart\<close> does not wait for the port.
\<close>

theorem activator_stops:
  assumes "act_run a (new_activator w) ls s"
  shows "mset (accepted ls) = mset (answered ls) + mset (at_active s) \<and>
    (\<forall>r h. AlAnswered r h \<in> set ls \<longrightarrow> proper_answer a r h) \<and>
    (at_phase s = AStopped None \<longrightarrow> AlSignal \<in> set ls \<and> mset (accepted ls) = mset (answered ls)) \<and>
    (at_phase s = AStopping \<longrightarrow>
      (\<exists>ls' s'. act_run a s ls' s' \<and> at_phase s' = AStopped None \<and> answered ls' = at_active s)) \<and>
    (\<forall>n. at_phase s = AExited n \<longleftrightarrow> n = 1 \<and> (\<exists>e. AlFailed e \<in> set ls)) \<and>
    (at_phase s = AStarted \<and> at_pc s = Some GChecked \<longrightarrow>
      (\<forall>e. e \<noteq> ErrServerClosed \<longrightarrow> (\<exists>s'. act_step a s (AlFailed e) s' \<and> at_phase s' = AExited 1)))"
proof -
  have i: "act_inv a ls s" by (rule act_inv_run [OF assms])
  have f: "\<exists>s'. act_step a s (AlFailed e) s' \<and> at_phase s' = AExited 1"
    if "at_phase s = AStarted" "at_pc s = Some GChecked" "e \<noteq> ErrServerClosed" for e
    using act_step.listen_fails [of s e a] that by (intro exI [of _ "serve_returns e s"]) (simp add: act_defs)
  have x: "at_phase s = AExited n \<longleftrightarrow> n = 1 \<and> (\<exists>e. AlFailed e \<in> set ls)" for n
    using i unfolding act_inv_def by metis
  show ?thesis using i f x stop_completes [of s a] unfolding act_inv_def by (intro conjI) auto
qed

text \<open>A request for the health check.\<close>

definition health_request :: inbound where
  "health_request = \<lparr>in_method = ''GET'', in_path = ''/healthz'', in_query = '''', in_header = [], in_body = ''''\<rparr>"

theorem activator_stops_witness:
  "\<exists>s ls s'. act_run (sim_activator (\<lambda>_ _ _ w. (Inl ErrNotFound, w)) 3) (new_activator init_world)
       [AlStart, AlTau, AlTau, AlTau, AlAccepted health_request, AlSignal] s \<and>
     act_run (sim_activator (\<lambda>_ _ _ w. (Inl ErrNotFound, w)) 3) s ls s' \<and>
     at_phase s' = AStopped None \<and> answered ls = [health_request]"
proof -
  let ?a = "sim_activator (\<lambda>_ _ _ w. (Inl ErrNotFound, w)) 3"
  let ?s0 = "new_activator init_world"
  let ?s1 = "?s0\<lparr>at_pc := Some GNew, at_phase := AStarted\<rparr>"
  let ?s2 = "?s1\<lparr>at_pc := Some GChecked\<rparr>"
  let ?s3 = "?s1\<lparr>at_pc := Some GServing\<rparr>"
  let ?s4 = "?s3\<lparr>at_conns := 1\<rparr>"
  let ?s5 = "?s3\<lparr>at_active := [health_request]\<rparr>"
  let ?s6 = "?s5\<lparr>at_shutdown := True, at_phase := AStopping\<rparr>"
  note d = act_defs
  have 1: "act_step ?a ?s0 AlStart ?s1" using act_step.start [of ?s0 "?s0\<lparr>at_pc := Some GNew\<rparr>" ?a] by (simp add: d)
  have 2: "act_step ?a ?s1 AlTau ?s2" using act_step.check [of ?s1] by (simp add: d)
  have 3: "act_step ?a ?s2 AlTau ?s3" using act_step.listen [of ?s2] by (simp add: d)
  have 4: "act_step ?a ?s3 AlTau ?s4" using act_step.connect [of ?s3] by (simp add: d)
  have 5: "act_step ?a ?s4 (AlAccepted health_request) ?s5" using act_step.request [of ?s4 0] by (simp add: d)
  have 6: "act_step ?a ?s5 AlSignal ?s6" using act_step.signal [of ?s5] by (simp add: d)
  have r: "act_run ?a ?s0 [AlStart, AlTau, AlTau, AlTau, AlAccepted health_request, AlSignal] ?s6"
    by (rule act_run_cons [OF 1 act_run_cons [OF 2 act_run_cons [OF 3 act_run_cons [OF 4
          act_run_cons [OF 5 act_run_one [OF 6]]]]]])
  have s: "at_phase ?s6 = AStopping" "at_active ?s6 = [health_request]" by (simp_all add: d)
  obtain ls s' where "act_run ?a ?s6 ls s'" "at_phase s' = AStopped None" "answered ls = at_active ?s6"
    using activator_stops [OF r, THEN conjunct2, THEN conjunct2, THEN conjunct2, THEN conjunct1, THEN mp, OF s(1)]
    by blast
  then show ?thesis using r s(2) by metis
qed

section \<open>The defaults\<close>

text \<open>
  By default the activator's address of the scheduler has the port on which the scheduler
  serves, and the two servers of the scheduler have different ports.
\<close>

lemma default_ports:
  assumes "envconfig_reader E unset two" and "\<And>p t. unset p t"
    and "scheduler_LoadConfig E = Inr s" and "activator_LoadConfig E = Inr a"
  shows "sl_Address (ac_Scheduler a) = ''localhost:'' @ show_int (Port s) \<and> Port s \<noteq> XDSPort s \<and>
    StartServer handler listen s p = listen (drop (length ''localhost'') (sl_Address (ac_Scheduler a))) [handler p]"
proof -
  have "show_int 50051 = ''50051''" by (simp add: show_int_def show_nat.simps char_of_def bit_0)
  then show ?thesis using config_defaults [OF assms(1,2)] assms(3,4)
    by (auto simp: StartServer_def fun_eq_iff split: prod.split)
qed

text \<open>
  C30 (the default address does not work). The default of \<open>ACTIVATOR_SCHEDULER_ADDRESS\<close> has
  no scheme, so that an activator that is configured by the defaults starts, is healthy, and
  answers every request that has a project with status 500, without forwarding any.
\<close>

theorem default_address_fails:
  assumes "envconfig_reader E unset two" and "\<And>p t. unset p t" and "zap_NewProduction z = Inr logger"
    and "\<forall>addr c p b w. \<not> http_scheme addr \<longrightarrow> (\<exists>e w'. al_rpc L addr c p b w = (Inl e, w'))"
  shows "\<exists>a. build_activator z L E = Inr (a, '':8080'') \<and>
    (\<forall>c wks r w. \<exists>w'. activator_serve a c wks r w =
      (Some (if in_path r = ''/healthz'' then healthy
             else if header_get (in_header r) ''Project-Id'' = '''' then http_error ''No project ID found'' 400
             else http_error ''Failed to get sandbox'' 500), w'))"
proof -
  obtain cfg where cfg: "activator_LoadConfig E = Inr cfg" "sl_Address (ac_Scheduler cfg) = ''localhost:50051''"
      "\<not> lg_Development (ac_Logging cfg)" "sv_Port (ac_Server cfg) = 8080"
    using config_defaults [OF assms(1,2)] by simp
  let ?a = "NewActivatorService L (NewSchedulerClient L cfg) cfg"
  have "activator_addr cfg = '':8080''"
    by (simp add: activator_addr_def cfg(4) show_int_def show_nat.simps char_of_def bit_0)
  then have b: "build_activator z L E = Inr (?a, '':8080'')"
    using assms(3) cfg by (simp add: build_activator_def provideLogger_def)
  have "\<not> http_scheme ''localhost:50051''" by (simp add: http_scheme_def)
  then have rpc: "\<exists>e w'. as_rpc ?a c p b w = (Inl e, w')" for c p b w
    using assms(4) by (simp add: NewActivatorService_def NewSchedulerClient_def cfg(2))
  have client: "\<exists>e w'. client_GetSandbox (as_rpc ?a) c p w = (Inl e, w')" for c p w
    using rpc [of c p True w] by (elim exE) (simp add: client_GetSandbox_def)
  have "\<exists>w'. activator_serve ?a c wks r w =
      (Some (if in_path r = ''/healthz'' then healthy
             else if header_get (in_header r) ''Project-Id'' = '''' then http_error ''No project ID found'' 400
             else http_error ''Failed to get sandbox'' 500), w')" for c wks r w
    using client [of c "header_get (in_header r) ''Project-Id''" w]
    by (elim exE) (simp add: activator_serve_def HandleRequest_def healthy_def)
  then show ?thesis using b by blast
qed

text \<open>A library whose transport knows the two schemes, and the answers of a scheduler.\<close>

definition sim_activator_libs :: "(world, int) activator_libs" where
  "sim_activator_libs =
     \<lparr>al_Do = (\<lambda>t c req w. ((Inr \<lparr>hr_status = 200, hr_header = [], hr_body = rq_body req\<rparr>, ''''), w)),
      al_new_request = (\<lambda>_ u. Inr u), al_copy = (\<lambda>resp w. (None, w)),
      al_rpc = (\<lambda>addr c p b w.
        if http_scheme addr then (Inr \<lparr>rs_SandboxId = ''s'', rs_Status = STATUS_ACTIVE, rs_Hostname = ''h''\<rparr>, w)
        else (Inl (ErrText ''unsupported protocol scheme''), w)),
      al_scale = (*), al_runtime = sim_runtime\<rparr>"

definition sim_zap :: "(unit, unit) zap" where
  "sim_zap = \<lparr>zap_NewProduction = Inr (), zap_NewDevelopment = Inr (), zap_BuildDevelopment = (\<lambda>_. Inr ()),
     zap_Sugar = (\<lambda>l. l)\<rparr>"

theorem default_address_fails_witness:
  "\<exists>a w'. build_activator sim_zap sim_activator_libs sim_envconfig = Inr (a, '':8080'') \<and>
     activator_serve a background [] \<lparr>in_method = ''GET'', in_path = ''/'', in_query = '''',
       in_header = [(''Project-Id'', [''p''])], in_body = ''''\<rparr> init_world =
       (Some (http_error ''Failed to get sandbox'' 500), w')"
proof -
  have rpc: "\<forall>addr c p b w. \<not> http_scheme addr \<longrightarrow> (\<exists>e w'. al_rpc sim_activator_libs addr c p b w = (Inl e, w'))"
    by (simp add: sim_activator_libs_def)
  have zap: "zap_NewProduction sim_zap = Inr ()" by (simp add: sim_zap_def)
  obtain a where a: "build_activator sim_zap sim_activator_libs sim_envconfig = Inr (a, '':8080'')"
    and serve: "\<exists>w'. activator_serve a c wks r w =
      (Some (if in_path r = ''/healthz'' then healthy
             else if header_get (in_header r) ''Project-Id'' = '''' then http_error ''No project ID found'' 400
             else http_error ''Failed to get sandbox'' 500), w')" for c wks r w
    using default_address_fails [OF sim_ec.envconfig_reader_axioms TrueI zap rpc] by (elim exE conjE) blast
  show ?thesis
    using a serve [of background "[]" "\<lparr>in_method = ''GET'', in_path = ''/'', in_query = '''',
       in_header = [(''Project-Id'', [''p''])], in_body = ''''\<rparr>" init_world]
    by (simp add: header_get_def)
qed

end
