(* ===== verification/System_Steps.thy ===== *)
theory System_Steps
  imports Project_Service
begin

text \<open>
  The scheduler as the shared Redis sees it: every operation of its components
  (\<open>scheduler/internal/persistence\<close>, called from the project, scheduler, pool and xDS
  services) as one step, whatever its outcome, in any interleaving. What kind of value
  every key holds is an invariant of these steps, so that whatever the program stored it can
  read. The steps that leave the mapping of one project alone (\<open>other_step\<close>) are what may happen
  between two of its requests while it keeps its sandbox.
\<close>

section \<open>The operations on the shared Redis\<close>

text \<open>
  A step is a call of the idempotence protocol that satisfies \<open>good\<close>, storing or removing a
  project's mapping (a release is a removal and calls of the API server), a call of the
  pool, or anything that leaves Redis alone, such as the calls of the API server, the
  queries of the store, and time. \<open>okS\<close> and \<open>okP\<close> hold of the identifiers that are stored.
\<close>

inductive sys_step ::
  "'w redisIdem \<Rightarrow> 'w redisStore \<Rightarrow> 'w redisPool \<Rightarrow> ('w \<Rightarrow> redis_db) \<Rightarrow> ('w \<Rightarrow> int) \<Rightarrow>
     (idem_label \<Rightarrow> bool) \<Rightarrow> (sandbox_id \<Rightarrow> bool) \<Rightarrow> (project_id \<Rightarrow> bool) \<Rightarrow> 'w \<Rightarrow> 'w \<Rightarrow> bool"
  for r rs pl db clk good okS okP where
  sys_idem: "idem_step r db clk w l w' \<Longrightarrow> good l \<Longrightarrow> sys_step r rs pl db clk good okS okP w w'"
| sys_map: "SetProjectSandbox rs c p s w = (e, w') \<Longrightarrow> okP p \<Longrightarrow> okS s \<Longrightarrow>
    sys_step r rs pl db clk good okS okP w w'"
| sys_unmap: "RemoveSandboxMapping rs c s w = (e, w') \<Longrightarrow> sys_step r rs pl db clk good okS okP w w'"
| sys_take: "GetReadySandbox pl c w = (x, w') \<Longrightarrow> sys_step r rs pl db clk good okS okP w w'"
| sys_ready: "AddReadySandbox pl c s w = (e, w') \<Longrightarrow> okS s \<Longrightarrow> sys_step r rs pl db clk good okS okP w w'"
| sys_pending: "AddPendingSandbox pl c s w = (e, w') \<Longrightarrow> okS s \<Longrightarrow> sys_step r rs pl db clk good okS okP w w'"
| sys_checked: "RemovePendingSandbox pl c s w = (e, w') \<Longrightarrow> sys_step r rs pl db clk good okS okP w w'"
| sys_other: "db w' = db w \<Longrightarrow> sys_step r rs pl db clk good okS okP w w'"

text \<open>What a call of the pool may do to Redis.\<close>

context redis_pool
begin

lemma pool_db:
  "GetReadySandbox r c w = (x, w') \<Longrightarrow> db w' = db w \<or>
     db w' = zput (clk w') (getKey r readySandboxesKey)
       (drop 1 (zmembers (clk w') (db w) (getKey r readySandboxesKey))) (db w)"
  "AddReadySandbox r c s w = (e, w') \<Longrightarrow> db w' = db w \<or>
     db w' = zput (clk w') (getKey r readySandboxesKey)
       (zadd (unix_now (rp_runtime r) w) (sid s) (zmembers (clk w') (db w) (getKey r readySandboxesKey))) (db w)"
  "AddPendingSandbox r c s w = (e, w') \<Longrightarrow> db w' = db w \<or>
     db w' = zput (clk w') (getKey r pendingSandboxesKey)
       (zadd (unix_now (rp_runtime r) w) (sid s) (zmembers (clk w') (db w) (getKey r pendingSandboxesKey))) (db w)"
  "RemovePendingSandbox r c s w = (e, w') \<Longrightarrow> db w' = db w \<or>
     db w' = zput (clk w') (getKey r pendingSandboxesKey)
       (zdel (sid s) (zmembers (clk w') (db w) (getKey r pendingSandboxesKey))) (db w)"
proof -
  show "GetReadySandbox r c w = (x, w') \<Longrightarrow> db w' = db w \<or>
     db w' = zput (clk w') (getKey r readySandboxesKey)
       (drop 1 (zmembers (clk w') (db w) (getKey r readySandboxesKey))) (db w)"
    by (cases "rd_ZPopMin (rp_client r) c (getKey r readySandboxesKey) 1 w")
       (auto simp: GetReadySandbox_def split: sum.splits list.splits dest: ZPopMin_ok ZPopMin_err)
qed (auto simp: AddReadySandbox_def AddPendingSandbox_def RemovePendingSandbox_def Let_def
      split: prod.splits sum.splits dest: ZAdd_ok ZAdd_err ZRem_ok ZRem_err)

end

section \<open>The kinds of the values\<close>

text \<open>What may stand under a key, by the kind of the key.\<close>

definition well_kinded :: "'w redisIdem \<Rightarrow> 'w redisStore \<Rightarrow> 'w redisPool \<Rightarrow> string \<Rightarrow> rval \<Rightarrow> bool" where
  "well_kinded r rs pl x v \<longleftrightarrow>
     (\<forall>k. x = formKey r k \<longrightarrow> (\<exists>m. v = RStr m \<and> plain_sandbox (SandboxID m))) \<and>
     (\<forall>k. x = formPendingKey r k \<longrightarrow> v = RStr ''1'') \<and>
     (\<forall>s. x = formSandboxIdempotenceKey r s \<longrightarrow> (\<exists>k. v = RStr k)) \<and>
     (\<forall>p. x = formProjectSandboxKey rs p \<longrightarrow> (\<exists>m. v = RStr m \<and> plain_sandbox (SandboxID m))) \<and>
     (\<forall>s. x = formSandboxProjectKey rs s \<longrightarrow> (\<exists>m. v = RStr m \<and> plain_project (ProjectID m))) \<and>
     (\<forall>s. x = formReleasedKey rs s \<longrightarrow> v = RStr ''1'') \<and>
     (x = formAllProjectsSetKey rs \<longrightarrow> (\<exists>M. v = RSet M \<and> (\<forall>m \<in> M. plain_project (ProjectID m)))) \<and>
     (x \<in> {getKey pl readySandboxesKey, getKey pl pendingSandboxesKey} \<longrightarrow> (\<exists>Z. v = RZSet Z \<and> plain_queue Z))"

definition well_kinded_db :: "'w redisIdem \<Rightarrow> 'w redisStore \<Rightarrow> 'w redisPool \<Rightarrow> redis_db \<Rightarrow> bool" where
  "well_kinded_db r rs pl D \<longleftrightarrow> (\<forall>x v e. keys D x = Some (v, e) \<longrightarrow> well_kinded r rs pl x v)"

definition plain_label :: "idem_label \<Rightarrow> bool" where
  "plain_label l = (case l of LComplete k s e \<Rightarrow> plain_sandbox s | _ \<Rightarrow> True)"

lemma well_kinded_put:
  "well_kinded_db r rs pl D \<Longrightarrow> well_kinded r rs pl x v \<Longrightarrow> well_kinded_db r rs pl (put x v e D)"
  by (simp add: well_kinded_db_def put_def)

lemma well_kinded_del: "well_kinded_db r rs pl D \<Longrightarrow> well_kinded_db r rs pl (del x D)"
  by (simp add: well_kinded_db_def del_def)

lemma well_kinded_zput:
  "well_kinded_db r rs pl D \<Longrightarrow> (Z \<noteq> [] \<Longrightarrow> well_kinded r rs pl x (RZSet Z)) \<Longrightarrow> well_kinded_db r rs pl (zput t x Z D)"
  by (simp add: zput_def well_kinded_put well_kinded_del)

lemma well_kinded_sput:
  "well_kinded_db r rs pl D \<Longrightarrow> (M \<noteq> {} \<Longrightarrow> well_kinded r rs pl x (RSet M)) \<Longrightarrow> well_kinded_db r rs pl (sput t x M D)"
  by (simp add: sput_def well_kinded_put well_kinded_del)

lemma well_kinded_lookup:
  "well_kinded_db r rs pl D \<Longrightarrow> lookup t D x = Some v \<Longrightarrow> well_kinded r rs pl x v"
  by (auto simp: well_kinded_db_def lookup_def split: option.splits if_splits)

text \<open>The commands that keep the kinds.\<close>

fun cmd_kinded :: "'w redisIdem \<Rightarrow> 'w redisStore \<Rightarrow> 'w redisPool \<Rightarrow> pcmd \<Rightarrow> bool" where
  "cmd_kinded r rs pl (PSet k v ttl) = well_kinded r rs pl k (RStr v)"
| "cmd_kinded r rs pl (PSAdd k m) =
     (k = formAllProjectsSetKey rs \<and> plain_project (ProjectID m))"
| "cmd_kinded r rs pl (PSRem k m) = (k = formAllProjectsSetKey rs)"
| "cmd_kinded r rs pl (PDel k) = True"
| "cmd_kinded r rs pl (PExpire k ttl) = True"
| "cmd_kinded r rs pl (PPublish ch m) = True"
| "cmd_kinded r rs pl (PGet k) = True"

context project_deployment
begin

lemmas kind_keys = idem_keys store_keys getKey_def readySandboxesKey_def pendingSandboxesKey_def
  store_prefix pool_prefix

lemma kinds:
  "plain_sandbox s \<Longrightarrow> well_kinded r rs pl (formKey r key) (RStr (sid s))"
  "well_kinded r rs pl (formPendingKey r key) (RStr ''1'')"
  "well_kinded r rs pl (formSandboxIdempotenceKey r s) (RStr key)"
  "plain_sandbox s \<Longrightarrow> well_kinded r rs pl (formProjectSandboxKey rs p) (RStr (sid s))"
  "plain_project p \<Longrightarrow> well_kinded r rs pl (formSandboxProjectKey rs s) (RStr (pid p))"
  "well_kinded r rs pl (formReleasedKey rs s) (RStr ''1'')"
  "(\<And>m. m \<in> M \<Longrightarrow> plain_project (ProjectID m)) \<Longrightarrow> well_kinded r rs pl (formAllProjectsSetKey rs) (RSet M)"
  "plain_queue Z \<Longrightarrow> well_kinded r rs pl (getKey pl readySandboxesKey) (RZSet Z)"
  "plain_queue Z \<Longrightarrow> well_kinded r rs pl (getKey pl pendingSandboxesKey) (RZSet Z)"
  by (simp_all add: well_kinded_def kind_keys)

lemma kindedD:
  "well_kinded r rs pl (formKey r key) v \<Longrightarrow> \<exists>m. v = RStr m \<and> plain_sandbox (SandboxID m)"
  "well_kinded r rs pl (formProjectSandboxKey rs p) v \<Longrightarrow> \<exists>m. v = RStr m \<and> plain_sandbox (SandboxID m)"
  "well_kinded r rs pl (formSandboxProjectKey rs s) v \<Longrightarrow> \<exists>m. v = RStr m \<and> plain_project (ProjectID m)"
  "well_kinded r rs pl (formAllProjectsSetKey rs) v \<Longrightarrow> \<exists>M. v = RSet M \<and> (\<forall>m \<in> M. plain_project (ProjectID m))"
  "well_kinded r rs pl (getKey pl readySandboxesKey) v \<Longrightarrow> \<exists>Z. v = RZSet Z \<and> plain_queue Z"
  "well_kinded r rs pl (getKey pl pendingSandboxesKey) v \<Longrightarrow> \<exists>Z. v = RZSet Z \<and> plain_queue Z"
  by (auto simp: well_kinded_def)

lemma members_kinded:
  assumes "well_kinded_db r rs pl D"
  shows "m \<in> smembers t D (formAllProjectsSetKey rs) \<Longrightarrow> plain_project (ProjectID m)"
    and "plain_queue (zmembers t D (getKey pl readySandboxesKey))"
    and "plain_queue (zmembers t D (getKey pl pendingSandboxesKey))"
proof -
  note L = well_kinded_lookup [OF assms]
  have p: "plain_queue []" by (simp add: plain_queue_def)
  show "m \<in> smembers t D (formAllProjectsSetKey rs) \<Longrightarrow> plain_project (ProjectID m)"
    by (cases "lookup t D (formAllProjectsSetKey rs)") (auto simp: smembers_def dest!: L kindedD(4))
  show "plain_queue (zmembers t D (getKey pl readySandboxesKey))"
    using p by (cases "lookup t D (getKey pl readySandboxesKey)") (auto simp: zmembers_def dest!: L kindedD(5))
  show "plain_queue (zmembers t D (getKey pl pendingSandboxesKey))"
    using p by (cases "lookup t D (getKey pl pendingSandboxesKey)") (auto simp: zmembers_def dest!: L kindedD(6))
qed

lemma run_pcmd_kinded:
  assumes "well_kinded_db r rs pl D" and "cmd_kinded r rs pl c"
  shows "well_kinded_db r rs pl (run_pcmd t c D)"
proof (cases c)
  case (PSAdd k m)
  then show ?thesis using assms members_kinded(1) [OF assms(1)]
    by (auto intro!: well_kinded_sput kinds)
next
  case (PSRem k m)
  then show ?thesis using assms members_kinded(1) [OF assms(1)]
    by (auto intro!: well_kinded_sput kinds)
next
  case (PExpire k ttl)
  then show ?thesis using assms well_kinded_lookup [OF assms(1)]
    by (auto intro!: well_kinded_put split: option.split)
qed (use assms in \<open>simp_all add: well_kinded_put well_kinded_del, simp add: well_kinded_db_def\<close>)

lemma run_pcmds_kinded:
  "well_kinded_db r rs pl D \<Longrightarrow> \<forall>c \<in> set cs. cmd_kinded r rs pl c \<Longrightarrow> well_kinded_db r rs pl (run_pcmds t cs D)"
  by (induction cs arbitrary: D) (simp_all add: run_pcmd_kinded)

lemma part_kinded:
  assumes "subseq cs' cs" and "\<forall>c \<in> set cs. cmd_kinded r rs pl c" and "well_kinded_db r rs pl D"
  shows "well_kinded_db r rs pl (run_pcmds t cs' D)"
proof (rule run_pcmds_kinded [OF assms(3)])
  show "\<forall>c \<in> set cs'. cmd_kinded r rs pl c" using assms(1,2) by (auto elim: list_emb_set)
qed

lemma idem_step_kinded:
  assumes "idem_step r db clk w l w'" and "plain_label l" and "well_kinded_db r rs pl (db w)"
  shows "well_kinded_db r rs pl (db w')"
  using assms(1)
proof (cases rule: idem_step.cases)
  case (step_mark c k b)
  then show ?thesis
    using ri.MarkPendingCreation_db [OF step_mark(2)] assms(3) well_kinded_put [OF assms(3) kinds(2)] by auto
next
  case (step_complete c k s e)
  have "\<forall>x \<in> set (complete_pipe r k s). cmd_kinded r rs pl x"
    using step_complete(1) assms(2) by (simp add: complete_pipe_def kinds plain_label_def)
  then show ?thesis
    using ri.CompletePendingCreation_db [OF step_complete(2)] assms(3) run_pcmds_kinded by auto
next
  case (step_drop c k e)
  then show ?thesis
    using ri.DropPendingCreation_db [OF step_drop(2)] assms(3) well_kinded_del [OF assms(3)] by auto
qed (use assms(3) in \<open>auto dest: ri.GetSandboxID_db ri.Exists_db\<close>)

lemma sys_step_kinded:
  assumes "sys_step r rs pl db clk plain_label plain_sandbox plain_project w w'" and "well_kinded_db r rs pl (db w)"
  shows "well_kinded_db r rs pl (db w')"
  using assms(1)
proof (cases rule: sys_step.cases)
  case (sys_idem l)
  then show ?thesis using idem_step_kinded assms(2) by blast
next
  case (sys_map c p s e)
  have "\<forall>x \<in> set [PSet (formProjectSandboxKey rs p) (sid s) projectSandboxTTL,
      PSet (formSandboxProjectKey rs s) (pid p) projectSandboxTTL,
      PSAdd (formAllProjectsSetKey rs) (pid p), PExpire (formAllProjectsSetKey rs) projectSandboxTTL,
      PPublish projectUpdateChannel (update_message p s)]. cmd_kinded r rs pl x"
    using sys_map(2,3) kinds by simp
  then show ?thesis using SetProjectSandbox_part [OF sys_map(1)] part_kinded assms(2) by metis
next
  case (sys_unmap c s e)
  have "\<forall>x \<in> set (removal_pipe rs p s). cmd_kinded r rs pl x" for p
    using kinds(6) by (auto simp: removal_pipe_def)
  then show ?thesis using RemoveSandboxMapping_part [OF sys_unmap] part_kinded assms(2) by metis
next
  case (sys_take c x)
  have "plain_queue (drop 1 (zmembers t (db w) (getKey pl readySandboxesKey)))" for t
    using members_kinded(2) [OF assms(2), of t] by (auto simp: plain_queue_def dest: in_set_dropD)
  then show ?thesis using rp.pool_db(1) [OF sys_take] assms(2) well_kinded_zput [OF assms(2) kinds(8)] by metis
next
  case (sys_ready c s e)
  then show ?thesis using rp.pool_db(2) [OF sys_ready(1)] assms(2) well_kinded_zput [OF assms(2) kinds(8)]
      plain_queue_zadd [OF members_kinded(2) [OF assms(2)]] by metis
next
  case (sys_pending c s e)
  then show ?thesis using rp.pool_db(3) [OF sys_pending(1)] assms(2) well_kinded_zput [OF assms(2) kinds(9)]
      plain_queue_zadd [OF members_kinded(3) [OF assms(2)]] by metis
next
  case (sys_checked c s e)
  have "plain_queue (zdel m (zmembers t (db w) (getKey pl pendingSandboxesKey)))" for t m
    using members_kinded(3) [OF assms(2), of t] by (auto simp: plain_queue_def in_zdel)
  then show ?thesis using rp.pool_db(4) [OF sys_checked] assms(2) well_kinded_zput [OF assms(2) kinds(9)] by metis
qed (use assms(2) in simp_all)

lemma sys_run_kinded:
  "(sys_step r rs pl db clk plain_label plain_sandbox plain_project)\<^sup>*\<^sup>* w w' \<Longrightarrow> well_kinded_db r rs pl (db w) \<Longrightarrow>
     well_kinded_db r rs pl (db w')"
  by (induction rule: rtranclp_induct) (simp_all add: sys_step_kinded)

end

section \<open>The property\<close>

text \<open>
  C10 (whatever is stored can be read). From a Redis in which every key holds a value of its
  kind, such as an empty one, no sequence of operations of the components, interleaved in
  any way and whatever calls fail in the middle of a pipeline, leads to one in which some
  key does not, as long as the identifiers that are stored are plain. So when Redis answers
  a lookup with a value, the lookup of the sandbox of a key, of the sandbox of a project and
  of the project of a sandbox return it, never an error of parsing; and every member of the
  pool's queues is a sandbox.
\<close>

theorem stored_values_readable:
  assumes "project_deployment R db clk k pods svcs r ord rs pl" and "well_kinded_db r rs pl (db w)"
    and "(sys_step r rs pl db clk plain_label plain_sandbox plain_project)\<^sup>*\<^sup>* w w'"
  shows "well_kinded_db r rs pl (db w') \<and>
    (rd_Get (ri_client r) c (formKey r key) w' = (Inr v, w1) \<longrightarrow>
      GetSandboxID r c key w' = (Inr (SandboxID v), w1)) \<and>
    (rd_Get (client rs) c (formProjectSandboxKey rs p) w' = (Inr v, w1) \<longrightarrow>
      store_GetProjectSandbox rs c p w' = (Inr (SandboxID v), w1)) \<and>
    (rd_Get (client rs) c (formSandboxProjectKey rs s) w' = (Inr v, w1) \<longrightarrow>
      FindProjectForSandbox rs c s w' = (Inr (ProjectID v), w1)) \<and>
    plain_queue (ready_queue pl (db w')) \<and> plain_queue (pending_queue pl (db w'))"
proof -
  note P = assms(1)
  have K: "well_kinded_db r rs pl (db w')" by (rule project_deployment.sys_run_kinded [OF P assms(3,2)])
  have R: "redis_server (ri_client r) db clk" "redis_server (client rs) db clk"
    using P by (simp_all add: project_deployment_def pool_deployment_def scheduler_deployment_def
        scheduler_deployment_axioms_def k8s_client_def cluster_def redis_backed_store_def
        project_deployment_axioms_def)
  note L = well_kinded_lookup [OF K]
  note D = project_deployment.kindedD [OF P]
  have idem: "GetSandboxID r c key w' = (Inr (SandboxID v), w1)"
    if "rd_Get (ri_client r) c (formKey r key) w' = (Inr v, w1)"
    using D(1) [OF L [OF redis_server.Get_ok [OF R(1) that]]] that plain_sandbox_parse
    by (fastforce simp: GetSandboxID_def)
  have fw: "store_GetProjectSandbox rs c p w' = (Inr (SandboxID v), w1)"
    if "rd_Get (client rs) c (formProjectSandboxKey rs p) w' = (Inr v, w1)"
    using D(2) [OF L [OF redis_server.Get_ok [OF R(2) that]]] that plain_sandbox_parse
    by (fastforce simp: store_GetProjectSandbox_def)
  have bw: "FindProjectForSandbox rs c s w' = (Inr (ProjectID v), w1)"
    if "rd_Get (client rs) c (formSandboxProjectKey rs s) w' = (Inr v, w1)"
    using D(3) [OF L [OF redis_server.Get_ok [OF R(2) that]]] that plain_project_parse
    by (fastforce simp: FindProjectForSandbox_def plain_project_def)
  show ?thesis using K idem fw bw project_deployment.members_kinded(2,3) [OF P K]
    by (simp add: ready_queue_def pending_queue_def)
qed

theorem stored_values_readable_witness:
  "\<exists>v w1. rd_Get sim_redis background (formSandboxProjectKey sim_store (SandboxID ''s''))
      (snd (SetProjectSandbox sim_store background (ProjectID ''a'') (SandboxID ''s'') init_world)) = (Inr v, w1) \<and>
    FindProjectForSandbox sim_store background (SandboxID ''s'')
      (snd (SetProjectSandbox sim_store background (ProjectID ''a'') (SandboxID ''s'') init_world)) = (Inr (ProjectID v), w1)"
proof -
  let ?S = "SetProjectSandbox sim_store background (ProjectID ''a'') (SandboxID ''s'') init_world"
  have e: "well_kinded_db sim_idem sim_store sim_pool (w_db init_world)"
    by (simp add: well_kinded_db_def init_world_def empty_db_def)
  have r: "(sys_step sim_idem sim_store sim_pool w_db w_clk plain_label plain_sandbox plain_project)\<^sup>*\<^sup>* init_world (snd ?S)"
    by (rule r_into_rtranclp, rule sys_map [of _ background "ProjectID ''a''" "SandboxID ''s''" _ "fst ?S"])
       (simp_all add: plain_ids_eval)
  have g: "rd_Get sim_redis background (formSandboxProjectKey sim_store (SandboxID ''s'')) (snd ?S) =
      (Inr ''a'', tick (snd ?S))"
    by (simp add: store_eval sim_eval)
  show ?thesis
    using stored_values_readable [OF sim_project_deployment e r, of background _ "''a''" "tick (snd ?S)" _ "SandboxID ''s''"] g
    by (auto simp: sim_store_def)
qed

section \<open>A project between two of its requests\<close>

text \<open>
  What the rest of the scheduler and of the cluster may do while a project keeps its sandbox:
  any call of the idempotence protocol and of the pool, mapping other projects, releasing
  sandboxes that are not recorded for this one, and anything that leaves Redis alone, such as
  requests to the API server, its own changes of the pods, queries, and time.
\<close>

inductive other_step ::
  "'w redisIdem \<Rightarrow> 'w redisStore \<Rightarrow> 'w redisPool \<Rightarrow> ('w \<Rightarrow> redis_db) \<Rightarrow> ('w \<Rightarrow> int) \<Rightarrow> project_id \<Rightarrow>
     'w \<Rightarrow> 'w \<Rightarrow> bool"
  for r rs pl db clk p where
  other_idem: "idem_step r db clk w l w' \<Longrightarrow> other_step r rs pl db clk p w w'"
| other_map: "SetProjectSandbox rs c q s w = (e, w') \<Longrightarrow> q \<noteq> p \<Longrightarrow> other_step r rs pl db clk p w w'"
| other_unmap: "RemoveSandboxMapping rs c s w = (e, w') \<Longrightarrow> (\<And>t. mapped_project rs t (db w) s \<noteq> Some p) \<Longrightarrow>
    other_step r rs pl db clk p w w'"
| other_take: "GetReadySandbox pl c w = (x, w') \<Longrightarrow> other_step r rs pl db clk p w w'"
| other_ready: "AddReadySandbox pl c s w = (e, w') \<Longrightarrow> other_step r rs pl db clk p w w'"
| other_pending: "AddPendingSandbox pl c s w = (e, w') \<Longrightarrow> other_step r rs pl db clk p w w'"
| other_checked: "RemovePendingSandbox pl c s w = (e, w') \<Longrightarrow> other_step r rs pl db clk p w w'"
| other_rest: "db w' = db w \<Longrightarrow> other_step r rs pl db clk p w w'"

context project_deployment
begin

lemma unmap_other_project:
  assumes "p \<noteq> ProjectID ''''" and "RemoveSandboxMapping rs c s w = (e, w')" and "\<And>t. mapped_project rs t (db w) s \<noteq> Some p"
  shows "keys (db w') (formProjectSandboxKey rs p) = keys (db w) (formProjectSandboxKey rs p)"
proof -
  obtain x w1 where f: "FindProjectForSandbox rs c s w = (x, w1)" by fastforce
  note d = FindProjectForSandbox_db [OF f]
  show ?thesis
  proof (cases x)
    case (Inl er)
    then show ?thesis using assms(2) f d by (simp add: RemoveSandboxMapping_def)
  next
    case (Inr q)
    have "q \<noteq> p" using FindProjectForSandbox_Inr [OF f [unfolded Inr]] assms(1,3) by auto
    then have "Some (formProjectSandboxKey rs p) \<notin> cmd_key ` set (removal_pipe rs q s)"
      by (auto simp: removal_pipe_def)
    moreover obtain e' rr where x: "rd_Exec (client rs) c False (removal_pipe rs q s) w1 = ((e', rr), w')"
      using assms(2) f Inr by (auto simp: RemoveSandboxMapping_def split: prod.splits option.splits)
    moreover obtain cs where "subseq cs (removal_pipe rs q s)" "db w' = run_pcmds (clk w') cs (db w1)"
      using Exec_db [OF x] by blast
    ultimately show ?thesis using run_part_other d by metis
  qed
qed

lemma map_other_project:
  assumes "SetProjectSandbox rs c q s w = (e, w')" and "q \<noteq> p"
  shows "keys (db w') (formProjectSandboxKey rs p) = keys (db w) (formProjectSandboxKey rs p)"
proof -
  obtain cs where "subseq cs [PSet (formProjectSandboxKey rs q) (sid s) projectSandboxTTL,
      PSet (formSandboxProjectKey rs s) (pid q) projectSandboxTTL,
      PSAdd (formAllProjectsSetKey rs) (pid q), PExpire (formAllProjectsSetKey rs) projectSandboxTTL,
      PPublish projectUpdateChannel (update_message q s)]" and "db w' = run_pcmds (clk w') cs (db w)"
    using SetProjectSandbox_part [OF assms(1)] by blast
  then show ?thesis using run_part_other assms(2) by simp
qed

lemma other_step_keeps:
  assumes "p \<noteq> ProjectID ''''" and "other_step r rs pl db clk p w w'"
  shows "keys (db w') (formProjectSandboxKey rs p) = keys (db w) (formProjectSandboxKey rs p)"
  using assms(2)
proof (cases rule: other_step.cases)
  case (other_idem l)
  then show ?thesis using ri.step_keeps_key store_key_foreign by blast
next
  case (other_map c q s e)
  then show ?thesis by (rule map_other_project)
next
  case (other_unmap c s e)
  then show ?thesis using unmap_other_project [OF assms(1)] by blast
qed (auto dest!: rp.pool_db simp: store_key_not_pool)

lemma other_run_keeps:
  "(other_step r rs pl db clk p)\<^sup>*\<^sup>* w w' \<Longrightarrow> p \<noteq> ProjectID '''' \<Longrightarrow>
     keys (db w') (formProjectSandboxKey rs p) = keys (db w) (formProjectSandboxKey rs p)"
  by (induction rule: rtranclp_induct) (simp_all add: other_step_keeps)

text \<open>After a sandbox was assigned, and other things happened, the project's lookup finds it.\<close>

lemma assigned_found_later:
  assumes "SetProjectSandbox rs c p s w2 = (None, w3)" and "CreateOrUpdateProjectService k c p s w3 = (None, w4)"
    and "plain_project p" and "plain_sandbox s" and "(other_step r rs pl db clk p)\<^sup>*\<^sup>* w4 v"
    and "store_GetProjectSandbox rs c' p v = (x, w5)" and "clk w5 < clk w3 + hours 24"
    and "\<not> (\<exists>e. fst (rd_Get (client rs) c' (formProjectSandboxKey rs p) v) = Inl e)"
  shows "x = Inr s"
proof -
  have "mapped_sandbox rs (clk w5) (db w3) p = Some s"
    using ps.set_maps [of c p s w2 w3 "clk w5"] assms(1,3,4,7) by (simp add: projectSandboxTTL_def)
  moreover have "db w4 = db w3" using CreateOrUpdate_frame [OF assms(2)] by simp
  moreover have "p \<noteq> ProjectID ''''" using assms(3) by (auto simp: plain_project_def project_IsValid_def)
  ultimately have "mapped_sandbox rs (clk w5) (db v) p = Some s"
    using mapped_sandbox_same [OF other_run_keeps [OF assms(5)]] by simp
  then show ?thesis using GetProjectSandbox_reads [OF assms(6)] assms(8) by auto
qed

lemma service_routed:
  assumes "project_IsValid p" and "CreateOrUpdateProjectService k c p s w = (None, w')"
  shows "svc_routed k svcs w' p = Some s"
  using be.upsert_ok [of c p s w w'] assms by simp

lemma service_wait_ready:
  assumes "WaitForSandboxReady (deployed ttl r k st') wks c s w = (Some (Inr b), w')"
  shows "b \<and> pod_readied k pods w' s"
proof -
  have "k8s_WaitForSandboxReady k wks c s w = (Some (Inr b), w')"
    using assms by (auto simp: WaitForSandboxReady_def split: prod.splits option.splits sum.splits)
  then show ?thesis by (rule WaitForSandboxReady_Inr)
qed

end



end
