(* ===== verification/Stale_Records.thy ===== *)
theory Stale_Records
  imports System_Steps
begin

text \<open>
  What becomes of the idempotence record of a project
  (\<open>scheduler/internal/persistence/idempotence_impl.go\<close>) once its sandbox has gone. The
  project service schedules under the project's own identifier, the record lives for ten
  minutes, and no operation of the scheduler removes it: neither the release of the sandbox
  nor a new mapping nor the pool. A request of the project within that time obtains the
  recorded sandbox again, whether or not it still has a pod.
\<close>

section \<open>What becomes of a record\<close>



section \<open>A request after the sandbox has gone\<close>


section \<open>The property\<close>








end
