(* ===== verification/Pool_Concurrency.thy ===== *)
theory Pool_Concurrency
  imports Sandbox_Pool
begin

text \<open>
  The pool service (\<open>scheduler/internal/sandboxpool/service.go\<close>) under concurrency: the
  check of the pending sandboxes step by step, interleaved with requests that take
  sandboxes, with creations, and with the checks of other maintainers. Within a process the
  mutex of \<open>maintainPool\<close> admits one maintainer at a time; every process has its own.
\<close>

section \<open>The check, one call at a time\<close>

text \<open>
  Where a goroutine in \<open>checkPendingSandboxes\<close> is: not in it, at the head of the loop with
  the sandboxes that are left, before the removal of a sandbox it found ready, and between
  that removal and the addition to the ready queue.
\<close>

datatype check_pc =
    CIdle
  | CCheck "sandbox_id list"
  | CRemove sandbox_id "sandbox_id list"
  | CAdd sandbox_id "sandbox_id list"

fun check_step :: "'w pool_service \<Rightarrow> ctx \<Rightarrow> check_pc \<times> 'w \<Rightarrow> check_pc \<times> 'w" where
  "check_step ps c (CIdle, w) =
     (case ps_GetPendingSandboxes (pl_store ps) c w of
        (Inl _, w1) \<Rightarrow> (CIdle, w1)
      | (Inr pending, w1) \<Rightarrow> (CCheck pending, w1))"
| "check_step ps c (CCheck [], w) = (CIdle, w)"
| "check_step ps c (CCheck (s # ss), w) =
     (case IsSandboxReady (pl_scheduler ps) c s w of
        (Inl _, w1) \<Rightarrow> (CCheck ss, w1)
      | (Inr ready, w1) \<Rightarrow> (if ready then CRemove s ss else CCheck ss, w1))"
| "check_step ps c (CRemove s ss, w) =
     (case ps_RemovePendingSandbox (pl_store ps) c s w of
        (Some _, w1) \<Rightarrow> (CCheck ss, w1)
      | (None, w1) \<Rightarrow> (CAdd s ss, w1))"
| "check_step ps c (CAdd s ss, w) =
     (let (e, w1) = ps_AddReadySandbox (pl_store ps) c s w in (CCheck ss, w1))"

fun check_steps :: "'w pool_service \<Rightarrow> ctx \<Rightarrow> nat \<Rightarrow> check_pc \<times> 'w \<Rightarrow> check_pc \<times> 'w" where
  "check_steps ps c 0 x = x"
| "check_steps ps c (Suc n) x = check_steps ps c n (check_step ps c x)"

lemma check_steps_add: "check_steps ps c (m + n) x = check_steps ps c n (check_steps ps c m x)"
  by (induction m arbitrary: x) simp_all

text \<open>One round of the loop takes at most three steps.\<close>

lemma check_round:
  "\<exists>n w1. 0 < n \<and> n \<le> 3 \<and> check_steps ps c n (CCheck (s # ss), w) = (CCheck ss, w1) \<and>
     check_pending_loop ps c (s # ss) w = check_pending_loop ps c ss w1"
proof -
  obtain b w1 where b: "IsSandboxReady (pl_scheduler ps) c s w = (b, w1)" by fastforce
  obtain e w2 where r: "ps_RemovePendingSandbox (pl_store ps) c s w1 = (e, w2)" by fastforce
  obtain e' w3 where a: "ps_AddReadySandbox (pl_store ps) c s w2 = (e', w3)" by fastforce
  consider "b \<noteq> Inr True" | er where "b = Inr True" "e = Some er" | "b = Inr True" "e = None" by (cases e) auto
  then show ?thesis
  proof cases
    case 1
    then show ?thesis using b by (intro exI [of _ 1] exI [of _ w1]) (auto split: sum.splits)
  next
    case 2
    then show ?thesis using b r by (intro exI [of _ 2] exI [of _ w2]) (simp add: numeral_2_eq_2)
  next
    case 3
    then show ?thesis using b r a by (intro exI [of _ 3] exI [of _ w3]) (simp add: numeral_3_eq_3)
  qed
qed

lemma check_loop_steps:
  "\<exists>n \<le> 3 * length ss. check_steps ps c n (CCheck ss, w) = (CCheck [], check_pending_loop ps c ss w)"
proof (induction ss arbitrary: w)
  case Nil
  then show ?case by simp
next
  case (Cons s ss)
  obtain n w1 where n: "n \<le> 3" "check_steps ps c n (CCheck (s # ss), w) = (CCheck ss, w1)"
    and l: "check_pending_loop ps c (s # ss) w = check_pending_loop ps c ss w1"
    using check_round [of ps c s ss w] by blast
  obtain m where "m \<le> 3 * length ss" "check_steps ps c m (CCheck ss, w1) = (CCheck [], check_pending_loop ps c ss w1)"
    using Cons.IH by blast
  then show ?case using n l check_steps_add [of ps c n m] by (intro exI [of _ "n + m"]) simp
qed

text \<open>Run without interruption, the steps are the check.\<close>

lemma check_steps_refine:
  assumes "checkPendingSandboxes ps c w = (None, w')"
  shows "\<exists>n. check_steps ps c n (CIdle, w) = (CIdle, w')"
proof -
  obtain ss w1 where l: "ps_GetPendingSandboxes (pl_store ps) c w = (Inr ss, w1)"
    and w': "w' = check_pending_loop ps c ss w1"
    using assms by (auto simp: checkPendingSandboxes_def split: prod.splits sum.splits)
  obtain n where n: "check_steps ps c n (CCheck ss, w1) = (CCheck [], w')"
    using check_loop_steps [of ss ps c w1] w' by blast
  have "check_steps ps c (Suc (n + 1)) (CIdle, w) = (CIdle, w')"
    using l n check_steps_add [of ps c n 1 "(CCheck ss, w1)"] by simp
  then show ?thesis by blast
qed

section \<open>Interleavings\<close>

text \<open>
  The label of a step: maintainer \<open>i\<close> moves, a request takes what the pool answers, a
  created sandbox is put into the pending queue, or something happens that leaves the
  queues alone (counts, requests of other components, time).
\<close>

datatype pool_act =
    ACheck nat
  | ATake "err + sandbox_id"
  | ACreated sandbox_id
  | AOther

inductive conc_step ::
  "'w pool_service \<Rightarrow> ('w \<Rightarrow> 'w \<Rightarrow> bool) \<Rightarrow> (nat \<Rightarrow> check_pc) \<times> 'w \<Rightarrow> pool_act \<Rightarrow>
     (nat \<Rightarrow> check_pc) \<times> 'w \<Rightarrow> bool"
  for ps frame where
  c_check: "check_step ps c (pcs i, w) = (pc, w') \<Longrightarrow>
    conc_step ps frame (pcs, w) (ACheck i) (pcs(i := pc), w')"
| c_take: "ps_GetReadySandbox (pl_store ps) c w = (x, w') \<Longrightarrow>
    conc_step ps frame (pcs, w) (ATake x) (pcs, w')"
| c_created: "ps_AddPendingSandbox (pl_store ps) c s w = (e, w') \<Longrightarrow>
    conc_step ps frame (pcs, w) (ACreated s) (pcs, w')"
| c_other: "frame w w' \<Longrightarrow> conc_step ps frame (pcs, w) AOther (pcs, w')"

inductive conc_run ::
  "'w pool_service \<Rightarrow> ('w \<Rightarrow> 'w \<Rightarrow> bool) \<Rightarrow> (nat \<Rightarrow> check_pc) \<times> 'w \<Rightarrow> pool_act list \<Rightarrow>
     (nat \<Rightarrow> check_pc) \<times> 'w \<Rightarrow> bool"
  for ps frame x where
  cr_nil: "conc_run ps frame x [] x"
| cr_step: "conc_run ps frame x ls y \<Longrightarrow> conc_step ps frame y l z \<Longrightarrow> conc_run ps frame x (ls @ [l]) z"

text \<open>The sandboxes handed out and those created in a run, in order.\<close>

definition handed_out :: "pool_act list \<Rightarrow> string list" where
  "handed_out = List.map_filter (\<lambda>l. case l of ATake (Inr s) \<Rightarrow> Some (sid s) | _ \<Rightarrow> None)"

definition created :: "pool_act list \<Rightarrow> string list" where
  "created = List.map_filter (\<lambda>l. case l of ACreated s \<Rightarrow> Some (sid s) | _ \<Rightarrow> None)"

lemma handed_out_simps [simp]:
  "handed_out [] = []"
  "handed_out (ls @ [ATake (Inr s)]) = handed_out ls @ [sid s]"
  "handed_out (ls @ [ATake (Inl e)]) = handed_out ls"
  "handed_out (ls @ [ACheck i]) = handed_out ls"
  "handed_out (ls @ [ACreated s]) = handed_out ls"
  "handed_out (ls @ [AOther]) = handed_out ls"
  by (simp_all add: handed_out_def List.map_filter_def)

lemma created_simps [simp]:
  "created [] = []"
  "created (ls @ [ACreated s]) = created ls @ [sid s]"
  "created (ls @ [ATake x]) = created ls"
  "created (ls @ [ACheck i]) = created ls"
  "created (ls @ [AOther]) = created ls"
  by (simp_all add: created_def List.map_filter_def)

text \<open>The sandboxes a maintainer still has in its hands, and those it has taken off the queue.\<close>

fun in_hand :: "check_pc \<Rightarrow> sandbox_id list" where
  "in_hand CIdle = []"
| "in_hand (CCheck ss) = ss"
| "in_hand (CRemove s ss) = s # ss"
| "in_hand (CAdd s ss) = s # ss"

fun off_queue :: "check_pc \<Rightarrow> sandbox_id set" where
  "off_queue (CAdd s ss) = {s}"
| "off_queue _ = {}"

section \<open>One maintainer\<close>

text \<open>
  \<open>K\<close>: the sandboxes that were ever in the pool; \<open>H\<close>: those handed out. Nobody's sandbox is
  in a queue, no sandbox is in both queues, and the maintainer has in its hands only
  sandboxes that are neither handed out nor ready.
\<close>

definition conc_inv ::
  "('w \<Rightarrow> bool) \<Rightarrow> ('w \<Rightarrow> (int \<times> string) list) \<Rightarrow> ('w \<Rightarrow> (int \<times> string) list) \<Rightarrow>
     check_pc \<Rightarrow> 'w \<Rightarrow> string set \<Rightarrow> string set \<Rightarrow> bool" where
  "conc_inv ok rdy pnd pc w K H \<longleftrightarrow>
     ok w \<and> plain_queue (rdy w) \<and> plain_queue (pnd w) \<and>
     members (rdy w) \<inter> H = {} \<and> members (pnd w) \<inter> H = {} \<and>
     members (pnd w) \<inter> members (rdy w) = {} \<and>
     members (rdy w) \<union> members (pnd w) \<union> H \<subseteq> K \<and> distinct (in_hand pc) \<and>
     (\<forall>s \<in> set (in_hand pc). plain_sandbox s \<and> sid s \<in> K \<and> sid s \<notin> H \<and> sid s \<notin> members (rdy w)) \<and>
     (\<forall>s \<in> off_queue pc. sid s \<notin> members (pnd w))"

lemma plain_queue_zdel: "plain_queue Z \<Longrightarrow> plain_queue (zdel m Z)"
  by (auto simp: plain_queue_def in_zdel)

lemma sid_eq [simp]: "sid s = sid s' \<longleftrightarrow> s = s'"
  by (auto simp: sandbox_id.expand)

context pool_maintenance
begin

abbreviation cinv :: "check_pc \<Rightarrow> 'w \<Rightarrow> string set \<Rightarrow> string set \<Rightarrow> bool" where
  "cinv \<equiv> conc_inv inv ready pend"

lemma cinv_same:
  "cinv pc w K H \<Longrightarrow> inv w' \<Longrightarrow> ready w' = ready w \<Longrightarrow> pend w' = pend w \<Longrightarrow> cinv pc w' K H"
  by (simp add: conc_inv_def)

lemma cinv_tail: "cinv pc w K H \<Longrightarrow> set (in_hand pc') \<subseteq> set (in_hand pc) \<Longrightarrow> distinct (in_hand pc') \<Longrightarrow>
    off_queue pc' = {} \<Longrightarrow> cinv pc' w K H"
  by (auto simp: conc_inv_def)

lemma cinv_listed:
  assumes "cinv CIdle w K H" and "check_step ps c (CIdle, w) = (pc', w')" and "pl_store ps = P"
  shows "cinv pc' w' K H"
proof -
  obtain y where y: "ps_GetPendingSandboxes P c w = (y, w')"
    using assms(2,3) by (auto split: prod.splits sum.splits)
  have i: "inv w" and q: "plain_queue (pend w)" using assms(1) by (simp_all add: conc_inv_def)
  note l = list_pending [OF i y]
  show ?thesis
  proof (cases y)
    case (Inl e)
    then show ?thesis using cinv_same [OF assms(1)] l assms(2,3) y by simp
  next
    case (Inr ss)
    then have pc': "pc' = CCheck ss" and ss: "ss = parse_members (pend w)"
      using assms(2,3) y l by simp_all
    have im: "distinct ss" "sid ` set ss = members (pend w)"
      using parse_members_wf [OF q] queues_wf [OF i] ss by simp_all
    have "\<forall>s \<in> set ss. plain_sandbox s \<and> sid s \<in> members (pend w)"
      using q im(2) by (force simp: ss parse_members_plain plain_queue_def)
    then have "\<forall>s \<in> set ss. plain_sandbox s \<and> sid s \<in> K \<and> sid s \<notin> H \<and> sid s \<notin> members (ready w)"
      using assms(1) unfolding conc_inv_def by blast
    then show ?thesis using assms(1) l pc' im(1) by (auto simp: conc_inv_def)
  qed
qed

lemma cinv_probed:
  assumes "cinv (CCheck (s # ss)) w K H" and "check_step ps c (CCheck (s # ss), w) = (pc', w')"
    and "pl_scheduler ps = sched"
  shows "cinv pc' w' K H"
proof -
  obtain b where b: "IsSandboxReady sched c s w = (b, w')"
    using assms(2,3) by (auto split: prod.splits sum.splits)
  have i: "inv w" and "distinct (s # ss)" using assms(1) by (simp_all add: conc_inv_def)
  moreover have "pc' = CRemove s ss \<or> pc' = CCheck ss"
    using assms(2,3) b by (auto split: sum.splits if_splits)
  ultimately have "cinv pc' w K H" by (auto intro!: cinv_tail [OF assms(1)])
  then show ?thesis using cinv_same check_keeps [OF i b] by blast
qed

lemma cinv_removed:
  assumes "cinv (CRemove s ss) w K H" and "check_step ps c (CRemove s ss, w) = (pc', w')"
    and "pl_store ps = P"
  shows "cinv pc' w' K H"
proof -
  obtain e where r: "ps_RemovePendingSandbox P c s w = (e, w')"
    using assms(2,3) by (auto split: prod.splits option.splits)
  have pc': "pc' = (if e = None then CAdd s ss else CCheck ss)"
    using assms(2,3) r by (auto split: option.splits)
  have "inv w" using assms(1) by (simp add: conc_inv_def)
  then show ?thesis using remove_pending [OF _ r] assms(1) pc'
    by (auto simp: conc_inv_def members_zdel plain_queue_zdel)
qed

lemma cinv_added:
  assumes "cinv (CAdd s ss) w K H" and "check_step ps c (CAdd s ss, w) = (pc', w')"
    and "pl_store ps = P"
  shows "cinv pc' w' K H"
proof -
  obtain e where a: "ps_AddReadySandbox P c s w = (e, w')"
    using assms(2,3) by (auto simp: Let_def split: prod.splits)
  have pc': "pc' = CCheck ss" using assms(2,3) a by simp
  have "inv w" using assms(1) by (simp add: conc_inv_def)
  then show ?thesis using add_ready [OF _ a] assms(1) pc'
    by (auto simp: conc_inv_def members_zadd plain_queue_zadd)
qed

lemma cinv_check:
  assumes "cinv pc w K H" and "check_step ps c (pc, w) = (pc', w')"
    and "pl_store ps = P" and "pl_scheduler ps = sched"
  shows "cinv pc' w' K H"
proof (cases pc)
  case (CCheck ss)
  then show ?thesis using assms cinv_probed [OF _ _ assms(4)] cinv_tail [OF assms(1), of CIdle] by (cases ss) auto
qed (use assms(1,2) cinv_listed [OF _ _ assms(3)] cinv_removed [OF _ _ assms(3)] cinv_added [OF _ _ assms(3)]
    in \<open>metis\<close>)+

lemma cinv_take:
  assumes "cinv pc w K H" and "ps_GetReadySandbox P c w = (x, w')"
  shows "cinv pc w' K (H \<union> set (handed_out [ATake x])) \<and> set (handed_out [ATake x]) \<inter> H = {}"
proof (cases x)
  case (Inl e)
  have i: "inv w" using assms(1) by (simp add: conc_inv_def)
  have k: "inv w'" "pend w' = pend w" and "ready w' = ready w \<or> (\<exists>z. ready w = z # ready w')"
    using take_error [OF i] assms(2) Inl by blast+
  then have "set (ready w') \<subseteq> set (ready w)" by auto
  then have "members (ready w') \<subseteq> members (ready w)" "plain_queue (ready w) \<Longrightarrow> plain_queue (ready w')"
    by (auto simp: members_def plain_queue_def)
  then show ?thesis using assms(1) Inl k
    by (auto simp: conc_inv_def handed_out_def List.map_filter_simps)
next
  case (Inr s)
  have i: "inv w" "plain_queue (ready w)" using assms(1) by (simp_all add: conc_inv_def)
  obtain z where z: "ready w = z # ready w'" "pend w' = pend w"
    using take_ready [OF i(1)] assms(2) Inr by blast
  note t = taken_member [OF i assms(2) [unfolded Inr]]
  then have s: "sid s \<in> members (ready w)" "sid s \<notin> members (ready w')" "members (ready w') \<subseteq> members (ready w)"
    "inv w'" "plain_queue (ready w')"
    using z by (auto simp: members_def)
  show ?thesis using assms(1) Inr s z(2)
    by (auto simp: conc_inv_def handed_out_def List.map_filter_simps)
qed

lemma cinv_created:
  assumes "cinv pc w K H" and "ps_AddPendingSandbox P c s w = (e, w')"
    and "plain_sandbox s" and "sid s \<notin> K"
  shows "cinv pc w' (insert (sid s) K) H"
proof -
  have i: "inv w" using assms(1) by (simp add: conc_inv_def)
  note k = add_pending [OF i assms(2)]
  have "s \<notin> off_queue pc" using assms(1,4) by (cases pc) (auto simp: conc_inv_def)
  then show ?thesis using assms k by (auto simp: conc_inv_def members_zadd plain_queue_zadd)
qed

end

context pool_maintenance
begin

text \<open>One step of one maintainer and everybody else.\<close>

lemma cinv_step:
  assumes "conc_step ps frame (pcs, w) l (pcs', w')" and "cinv (pcs 0) w K H"
    and "\<And>v v'. frame v v' \<Longrightarrow> inv v \<Longrightarrow> inv v' \<and> ready v' = ready v \<and> pend v' = pend v"
    and "pl_store ps = P" and "pl_scheduler ps = sched"
    and "\<And>i. l = ACheck i \<Longrightarrow> i = 0" and "\<And>s. l = ACreated s \<Longrightarrow> plain_sandbox s \<and> sid s \<notin> K"
  shows "cinv (pcs' 0) w' (K \<union> set (created [l])) (H \<union> set (handed_out [l])) \<and>
    set (handed_out [l]) \<inter> H = {}"
  using assms(1)
proof (cases rule: conc_step.cases)
  case (c_check c i)
  then have "check_step ps c (pcs 0, w) = (pcs' 0, w')" using assms(6) by simp
  then show ?thesis using cinv_check [OF assms(2) _ assms(4,5)] c_check
    by (simp add: created_def handed_out_def List.map_filter_simps)
next
  case (c_take c x)
  then show ?thesis using cinv_take [OF assms(2), of c x w'] assms(4)
    by (simp add: created_def List.map_filter_simps)
next
  case (c_created c s e)
  then show ?thesis using cinv_created [OF assms(2), of c s e w'] assms(4,7)
    by (simp add: created_def handed_out_def List.map_filter_simps)
next
  case c_other
  moreover have "inv w" using assms(2) by (simp add: conc_inv_def)
  ultimately show ?thesis using cinv_same [OF assms(2)] assms(3)
    by (simp add: created_def handed_out_def List.map_filter_simps)
qed

lemma map_filter_snoc: "List.map_filter f (xs @ [x]) = List.map_filter f xs @ List.map_filter f [x]"
  by (simp add: List.map_filter_def)

lemma run_exclusive:
  assumes "conc_run ps frame (\<lambda>_. CIdle, w0) ls y" and "cinv CIdle w0 K {}"
    and "\<And>v v'. frame v v' \<Longrightarrow> inv v \<Longrightarrow> inv v' \<and> ready v' = ready v \<and> pend v' = pend v"
    and "pl_store ps = P" and "pl_scheduler ps = sched"
    and "\<forall>i. ACheck i \<in> set ls \<longrightarrow> i = 0" and "distinct (created ls)"
    and "\<forall>s. ACreated s \<in> set ls \<longrightarrow> plain_sandbox s \<and> sid s \<notin> K"
  shows "cinv (fst y 0) (snd y) (K \<union> set (created ls)) (set (handed_out ls)) \<and> distinct (handed_out ls)"
  using assms(1,6-8)
proof (induction rule: conc_run.induct)
  case cr_nil
  then show ?case using assms(2) by simp
next
  case (cr_step ls y l z)
  have c: "created (ls @ [l]) = created ls @ created [l]" and h: "handed_out (ls @ [l]) = handed_out ls @ handed_out [l]"
    by (simp_all add: created_def handed_out_def map_filter_snoc)
  have I: "cinv (fst y 0) (snd y) (K \<union> set (created ls)) (set (handed_out ls))" "distinct (handed_out ls)"
    using cr_step.IH cr_step.prems c by auto
  have new: "plain_sandbox s \<and> sid s \<notin> K \<union> set (created ls)" if "l = ACreated s" for s
    using cr_step.prems(2,3) c that by (auto simp: created_def List.map_filter_simps)
  have st: "conc_step ps frame (fst y, snd y) l (fst z, snd z)" using cr_step.hyps(2) by simp
  have one: "i = 0" if "l = ACheck i" for i using cr_step.prems(1) that by simp
  have "distinct (handed_out [l])"
    by (cases l) (auto simp: handed_out_def List.map_filter_simps split: sum.splits)
  then show ?case
    using cinv_step [OF st I(1) assms(3-5) one new] I(2) c h by (simp add: Un_assoc Int_commute)
qed

end

context pool_contract
begin

text \<open>What is taken from a queue that holds one sandbox.\<close>

lemma take_only:
  assumes "inv w" and "ready w = []" and "plain_sandbox s" and "ps_AddReadySandbox P c s w = (e, w1)"
    and "ps_GetReadySandbox P c' w1 = (Inr t, w2)"
  shows "t = s \<and> inv w2 \<and> ready w2 = []"
proof -
  have 1: "inv w1" "ready w1 = zadd (now w) (sid s) [] \<or> ready w1 = []"
    using add_ready [OF assms(1,4)] assms(2) by auto
  obtain z where z: "ready w1 = z # ready w2" "NewSandboxID (snd z) = Inr t" "inv w2"
    using take_ready [OF 1(1) assms(5)] by blast
  have "z # ready w2 = [(now w, sid s)]" using 1(2) z(1) by (simp add: zadd_def zdel_def)
  then have "snd z = sid s" "ready w2 = []" by auto
  moreover from this(1) have "t = s" using z(2) plain_sandbox_parse [OF assms(3)] by simp
  ultimately show ?thesis using z(3) by simp
qed

lemma removed_again:
  assumes "inv w" and "ready w = []" and "ps_RemovePendingSandbox P c s w = (None, w1)"
  shows "inv w1 \<and> ready w1 = []"
  using remove_pending [OF assms(1,3)] assms(2) by simp

end

section \<open>The operations on the simulated cluster\<close>

text \<open>As long as the server is up the pool's operations answer; they touch nothing but Redis.\<close>

definition same_cluster :: "world \<Rightarrow> world \<Rightarrow> bool" where
  "same_cluster w w' \<longleftrightarrow> w_up w' = w_up w \<and> w_kube_up w' = w_kube_up w \<and> w_pods w' = w_pods w"

lemma sim_answers:
  assumes "w_up w"
  shows "\<exists>w'. AddPendingSandbox sim_pool background s w = (None, w') \<and> same_cluster w w'"
    and "\<exists>w'. AddReadySandbox sim_pool background s w = (None, w') \<and> same_cluster w w'"
    and "\<exists>w'. RemovePendingSandbox sim_pool background s w = (None, w') \<and> same_cluster w w'"
    and "pool_inv sim_pool (w_db w) \<Longrightarrow> ready_queue sim_pool (w_db w) = z # zs \<Longrightarrow>
      \<exists>w'. GetReadySandbox sim_pool background w = (NewSandboxID (snd z), w') \<and> same_cluster w w'"
    and "pool_inv sim_pool (w_db w) \<Longrightarrow> \<exists>w'. GetPendingSandboxes sim_pool background w =
      (Inr (parse_members (pending_queue sim_pool (w_db w))), w') \<and> same_cluster w w'"
  using assms
  by (simp_all add: AddPendingSandbox_def AddReadySandbox_def RemovePendingSandbox_def GetReadySandbox_def
      GetPendingSandboxes_def sim_redis_def redis_call_def same_cluster_def pool_at Let_def)

lemma sim_ready:
  assumes "w_kube_up w" and "w_pods w = [((DefaultNamespace, sandbox_WithPrefix s), p)]" and "pod_ready p"
    and "s \<noteq> SandboxID ''''"
  shows "\<exists>w'. IsSandboxReady sim_sched background s w = (Inr True, w') \<and> same_cluster w w' \<and> w_db w' = w_db w"
  using assms
  by (simp add: IsSandboxReady_def sim_sched_def deployed_def scheduler_New_def k8s_iface_def k8s_IsSandboxReady_def pod_ready_def sim_kube_def kube_call_def
      sim_pods_def same_cluster_def tick_def split: if_splits)

text \<open>A sandbox of the simulated cluster whose pod runs.\<close>

definition sim_running :: world where
  "sim_running = init_world\<lparr>w_pods :=
     [((DefaultNamespace, sandbox_WithPrefix (SandboxID ''s'')),
       (sandbox_pod sim_client (SandboxID ''s''))\<lparr>pod_phase := PodRunning\<rparr>)]\<rparr>"

lemma sim_running_simps [simp]:
  "w_up sim_running" "w_kube_up sim_running" "w_db sim_running = w_db init_world"
  by (simp_all add: sim_running_def init_world_def)

lemma sim_running_ready:
  assumes "same_cluster sim_running w"
  shows "\<exists>w'. IsSandboxReady sim_sched background (SandboxID ''s'') w = (Inr True, w') \<and> same_cluster w w' \<and>
    w_db w' = w_db w"
proof (rule sim_ready)
  show "w_pods w = [((DefaultNamespace, sandbox_WithPrefix (SandboxID ''s'')),
       (sandbox_pod sim_client (SandboxID ''s''))\<lparr>pod_phase := PodRunning\<rparr>)]"
    using assms by (simp add: same_cluster_def sim_running_def)
  show "pod_ready ((sandbox_pod sim_client (SandboxID ''s''))\<lparr>pod_phase := PodRunning\<rparr>)"
    by (simp add: pod_ready_def sandbox_pod_def)
qed (use assms in \<open>simp_all add: same_cluster_def\<close>)

section \<open>Properties of concurrent use\<close>

text \<open>
  C6 (a sandbox goes to one request). While one maintainer moves sandboxes from pending to
  ready, any number of requests take from the pool and new sandboxes are created, in any
  interleaving of the single calls and whatever calls fail: if every created sandbox is new,
  no sandbox is handed out twice, and none that was handed out is in the pool.
\<close>

theorem pool_exclusive:
  assumes "pool_deployment R db clk k pods svcs r pl"
    and "pl_store ps = redis_PoolStore pl" and "pl_scheduler ps = deployed ttl r k st"
    and "pool_inv pl (db w)" and "plain_queue (ready_queue pl (db w))" and "plain_queue (pending_queue pl (db w))"
    and "members (pending_queue pl (db w)) \<inter> members (ready_queue pl (db w)) = {}"
    and "conc_run ps (same_queues pl db) (\<lambda>_. CIdle, w) ls (pcs, w')"
    and "\<forall>i. ACheck i \<in> set ls \<longrightarrow> i = 0" and "distinct (created ls)"
    and "\<forall>s. ACreated s \<in> set ls \<longrightarrow> plain_sandbox s \<and>
      sid s \<notin> members (ready_queue pl (db w)) \<union> members (pending_queue pl (db w))"
  shows "distinct (handed_out ls) \<and>
    set (handed_out ls) \<inter> (members (ready_queue pl (db w')) \<union> members (pending_queue pl (db w'))) = {}"
proof -
  let ?K = "members (ready_queue pl (db w)) \<union> members (pending_queue pl (db w))"
  let ?I = "conc_inv (\<lambda>w. pool_inv pl (db w)) (\<lambda>w. ready_queue pl (db w)) (\<lambda>w. pending_queue pl (db w))"
  note P = pool_deployment.contract [OF assms(1), of ttl st]
  have same: "pool_inv pl (db v') \<and> ready_queue pl (db v') = ready_queue pl (db v) \<and>
      pending_queue pl (db v') = pending_queue pl (db v)" if "same_queues pl db v v'" "pool_inv pl (db v)" for v v'
    using queues_keys [of "db v'" pl "db v"] that by (simp add: same_queues_def)
  have "?I CIdle w ?K {}" using assms(4-7) by (simp add: conc_inv_def)
  then have "?I (pcs 0) w' (?K \<union> set (created ls)) (set (handed_out ls)) \<and> distinct (handed_out ls)"
    using pool_maintenance.run_exclusive [OF P assms(8) _ same assms(2,3,9,10,11)] by simp
  then show ?thesis unfolding conc_inv_def by blast
qed

text \<open>The run of the witness: a sandbox is created, becomes ready, is moved and is taken.\<close>

lemma conc_run_one:
  "conc_run ps frame x ls (pcs, w) \<Longrightarrow> check_step ps c (pcs i, w) = (pc, w') \<Longrightarrow>
     conc_run ps frame x (ls @ [ACheck i]) (pcs(i := pc), w')"
  by (rule cr_step [OF _ c_check])

lemma sim_service_simps [simp]:
  "pl_store (sim_pool_service n m) = redis_PoolStore sim_pool" "pl_scheduler (sim_pool_service n m) = sim_sched"
  by (simp_all add: sim_pool_service_def)

lemma sim_moves:
  assumes "same_cluster sim_running v" and "pool_inv sim_pool (w_db v)" and "ready_queue sim_pool (w_db v) = []"
  shows "\<exists>v1 v2 v3. RemovePendingSandbox sim_pool background (SandboxID ''s'') v = (None, v1) \<and>
    AddReadySandbox sim_pool background (SandboxID ''s'') v1 = (None, v2) \<and>
    GetReadySandbox sim_pool background v2 = (Inr (SandboxID ''s''), v3) \<and>
    same_cluster sim_running v3 \<and> pool_inv sim_pool (w_db v3) \<and> ready_queue sim_pool (w_db v3) = []"
proof -
  let ?s = "SandboxID ''s''"
  have up: "w_up v" using assms(1) by (simp add: same_cluster_def)
  obtain v1 where 1: "RemovePendingSandbox sim_pool background ?s v = (None, v1)" "same_cluster v v1"
    using sim_answers(3) [OF up] by blast
  note q1 = sim_pl.pl.remove_pending [OF assms(2), of background ?s None v1]
  obtain v2 where 2: "AddReadySandbox sim_pool background ?s v1 = (None, v2)" "same_cluster v1 v2"
    using sim_answers(2) [of v1] up 1(2) by (auto simp: same_cluster_def)
  note q2 = sim_pl.pl.add_ready [of v1 background ?s None v2]
  have r2: "pool_inv sim_pool (w_db v2)" "ready_queue sim_pool (w_db v2) = [(unix_now sim_runtime v1, ''s'')]"
    using q1 q2 1 2 assms(3) by (simp_all add: zadd_def zdel_def)
  obtain v3 where 3: "GetReadySandbox sim_pool background v2 = (Inr ?s, v3)" "same_cluster v2 v3"
    using sim_answers(4) [of v2, OF _ r2] up 1(2) 2(2)
    by (auto simp: same_cluster_def NewSandboxID_def trim_prefix_def SandboxPrefix_def)
  have "ready_queue sim_pool (w_db v3) = [] \<and> pool_inv sim_pool (w_db v3)"
    using sim_pl.pl.take_ready [OF r2(1), of background ?s v3] r2(2) 3(1) by simp
  moreover have "same_cluster sim_running v3" using assms(1) 1(2) 2(2) 3(2) by (simp add: same_cluster_def)
  ultimately show ?thesis using 1(1) 2(1) 3(1) by blast
qed

text \<open>The run of one move and the taking of the sandbox.\<close>

lemma conc_run_move:
  assumes "conc_run ps fr x ls (pcs, v)" and "pcs i = CRemove s ss" and "pl_store ps = redis_PoolStore pl"
    and "RemovePendingSandbox pl c s v = (None, v1)" and "AddReadySandbox pl c s v1 = (e, v2)"
    and "GetReadySandbox pl c' v2 = (y, v3)"
  shows "conc_run ps fr x (ls @ [ACheck i, ACheck i, ATake y]) (pcs(i := CCheck ss), v3)"
proof -
  have run1: "conc_run ps fr x (ls @ [ACheck i]) (pcs(i := CAdd s ss), v1)"
    using conc_run_one [OF assms(1), of c i] assms(2-4) by simp
  have run2: "conc_run ps fr x ((ls @ [ACheck i]) @ [ACheck i]) (pcs(i := CCheck ss), v2)"
    using conc_run_one [OF run1, of c i] assms(3,5) by simp
  have "conc_run ps fr x (((ls @ [ACheck i]) @ [ACheck i]) @ [ATake y]) (pcs(i := CCheck ss), v3)"
    by (rule cr_step [OF run2 c_take [where c = c']]) (simp add: assms(3,6))
  then show ?thesis by simp
qed

theorem pool_exclusive_witness:
  "\<exists>pcs w. conc_run (sim_pool_service 5 10) (same_queues sim_pool w_db) (\<lambda>_. CIdle, sim_running)
      [ACreated (SandboxID ''s''), ACheck 0, ACheck 0, ACheck 0, ACheck 0, ATake (Inr (SandboxID ''s''))] (pcs, w) \<and>
    ''s'' \<notin> members (ready_queue sim_pool (w_db w)) \<union> members (pending_queue sim_pool (w_db w))"
proof -
  let ?s = "SandboxID ''s''" and ?ps = "sim_pool_service 5 10" and ?f = "same_queues sim_pool w_db"
  have i: "pool_inv sim_pool (w_db sim_running)" "ready_queue sim_pool (w_db sim_running) = []"
    "pending_queue sim_pool (w_db sim_running) = []"
    using sim_pool_inv_init by (simp_all add: ready_queue_def pending_queue_def sim_eval)
  have p: "plain_sandbox ?s" by (simp add: plain_ids_eval)
  obtain w1 where 1: "AddPendingSandbox sim_pool background ?s sim_running = (None, w1)" "same_cluster sim_running w1"
    using sim_answers(1) [of sim_running ?s] by auto
  have q1: "pool_inv sim_pool (w_db w1)" "ready_queue sim_pool (w_db w1) = []"
    "pending_queue sim_pool (w_db w1) = [(unix_now sim_runtime sim_running, ''s'')]"
    using sim_pl.pl.add_pending [OF i(1), of background ?s None w1] i 1(1) by (simp_all add: zadd_def zdel_def)
  obtain w2 where 2: "GetPendingSandboxes sim_pool background w1 = (Inr [?s], w2)" "same_cluster w1 w2"
    using sim_answers(5) [of w1, OF _ q1(1)] 1(2) q1(3)
    by (auto simp: same_cluster_def parse_members_def List.map_filter_simps NewSandboxID_def trim_prefix_def
        SandboxPrefix_def)
  note q2 = sim_pl.pl.list_pending [OF q1(1), of background "Inr [?s]" w2]
  obtain w3 where 3: "IsSandboxReady sim_sched background ?s w2 = (Inr True, w3)" "same_cluster w2 w3" "w_db w3 = w_db w2"
    using sim_running_ready [of w2] 1(2) 2(2) by (auto simp: same_cluster_def)
  obtain w4 w5 w6 where m: "RemovePendingSandbox sim_pool background ?s w3 = (None, w4)"
    "AddReadySandbox sim_pool background ?s w4 = (None, w5)" "GetReadySandbox sim_pool background w5 = (Inr ?s, w6)"
    using sim_moves [of w3] 1(2) 2 3 q1 q2 by (auto simp: same_cluster_def)
  have r1: "conc_run ?ps ?f (\<lambda>_. CIdle, sim_running) ([] @ [ACreated ?s]) (\<lambda>_. CIdle, w1)"
    by (rule cr_step [OF cr_nil c_created [where c = background]]) (simp add: 1(1))
  have r2: "conc_run ?ps ?f (\<lambda>_. CIdle, sim_running) ([ACreated ?s] @ [ACheck 0]) ((\<lambda>_. CIdle)(0 := CCheck [?s]), w2)"
    using conc_run_one [OF r1 [simplified], where c = background and i = 0] 2(1) by simp
  have r3: "conc_run ?ps ?f (\<lambda>_. CIdle, sim_running) ([ACreated ?s, ACheck 0] @ [ACheck 0])
      ((\<lambda>_. CIdle)(0 := CRemove ?s []), w3)"
    using conc_run_one [OF r2 [simplified], where c = background and i = 0] 3(1) by simp
  have run: "conc_run ?ps ?f (\<lambda>_. CIdle, sim_running)
      [ACreated ?s, ACheck 0, ACheck 0, ACheck 0, ACheck 0, ATake (Inr ?s)] ((\<lambda>_. CIdle)(0 := CCheck []), w6)"
    using conc_run_move [OF r3 [simplified] _ _ m, where i = 0 and ss = "[]"] by simp
  have "''s'' \<notin> members (ready_queue sim_pool (w_db w6)) \<union> members (pending_queue sim_pool (w_db w6))"
    using pool_exclusive [OF sim_pool_deployment _ _ i(1) _ _ _ run, of "minutes 15" "redis_Store (\<lambda>xs. xs) sim_store"]
      i(2,3) p
    by (simp add: sim_sched_def plain_queue_def members_def created_def handed_out_def List.map_filter_simps)
  then show ?thesis using run by blast
qed

text \<open>
  C33 (two maintainers). The mutex of \<open>maintainPool\<close> is one of the process. When two
  processes have found the same pending sandbox ready, the removal of the second one succeeds
  although the sandbox is no longer in the queue, and puts it into the ready queue again: it
  is handed out to two requests.
\<close>

theorem two_maintainers_share:
  assumes "redis_server (rp_client pl) db clk" and "pl_store ps = redis_PoolStore pl"
    and "pool_inv pl (db w)" and "ready_queue pl (db w) = []" and "plain_sandbox s"
    and "pcs 0 = CRemove s ss" and "pcs 1 = CRemove s ss'"
    and "RemovePendingSandbox pl c0 s w = (None, w1)" and "AddReadySandbox pl c0 s w1 = (e, w2)"
    and "GetReadySandbox pl c w2 = (Inr t, w3)"
    and "RemovePendingSandbox pl c1 s w3 = (None, w4)" and "AddReadySandbox pl c1 s w4 = (e', w5)"
    and "GetReadySandbox pl c' w5 = (Inr t', w6)"
  shows "t = s \<and> t' = s \<and>
    conc_run ps frame (pcs, w) [ACheck 0, ACheck 0, ATake (Inr s), ACheck 1, ACheck 1, ATake (Inr s)]
      (pcs(0 := CCheck ss, 1 := CCheck ss'), w6)"
proof -
  note P = redis_pool_contract [OF assms(1)]
  have 1: "pool_inv pl (db w1) \<and> ready_queue pl (db w1) = []"
    using pool_contract.removed_again [OF P assms(3,4)] assms(8) by simp
  then have 3: "t = s \<and> pool_inv pl (db w3) \<and> ready_queue pl (db w3) = []"
    using pool_contract.take_only [OF P, of w1 s c0 e w2 c t w3] assms(5,9,10) by simp
  then have 4: "pool_inv pl (db w4) \<and> ready_queue pl (db w4) = []"
    using pool_contract.removed_again [OF P, of w3 c1 s w4] assms(11) by simp
  then have 6: "t' = s" using pool_contract.take_only [OF P, of w4 s c1 e' w5 c' t' w6] assms(5,12,13) by simp
  have r: "conc_run ps frame (pcs, w) ([] @ [ACheck 0, ACheck 0, ATake (Inr s)]) (pcs(0 := CCheck ss), w3)"
    using conc_run_move [OF cr_nil [of ps frame "(pcs, w)"] assms(6,2,8,9,10)] 3 by simp
  have "conc_run ps frame (pcs, w) (([] @ [ACheck 0, ACheck 0, ATake (Inr s)]) @ [ACheck 1, ACheck 1, ATake (Inr s)])
      ((pcs(0 := CCheck ss))(1 := CCheck ss'), w6)"
    using conc_run_move [OF r _ assms(2,11,12,13)] assms(7) 6 by simp
  then show ?thesis using 3 6 by simp
qed

theorem two_maintainers_share_witness:
  "\<exists>w. conc_run (sim_pool_service 5 10) (same_queues sim_pool w_db) (\<lambda>_. CRemove (SandboxID ''s'') [], sim_running)
      [ACheck 0, ACheck 0, ATake (Inr (SandboxID ''s'')), ACheck 1, ACheck 1, ATake (Inr (SandboxID ''s''))] w"
proof -
  let ?s = "SandboxID ''s''"
  have i: "pool_inv sim_pool (w_db sim_running)" "ready_queue sim_pool (w_db sim_running) = []"
    using sim_pool_inv_init by (simp_all add: ready_queue_def sim_eval)
  have p: "plain_sandbox ?s" by (simp add: plain_ids_eval)
  obtain w1 w2 w3 where a: "RemovePendingSandbox sim_pool background ?s sim_running = (None, w1)"
    "AddReadySandbox sim_pool background ?s w1 = (None, w2)" "GetReadySandbox sim_pool background w2 = (Inr ?s, w3)"
    and w3: "same_cluster sim_running w3" "pool_inv sim_pool (w_db w3)" "ready_queue sim_pool (w_db w3) = []"
    using sim_moves [OF _ i] by (auto simp: same_cluster_def)
  obtain w4 w5 w6 where b: "RemovePendingSandbox sim_pool background ?s w3 = (None, w4)"
    "AddReadySandbox sim_pool background ?s w4 = (None, w5)" "GetReadySandbox sim_pool background w5 = (Inr ?s, w6)"
    using sim_moves [OF w3] by blast
  show ?thesis
    using two_maintainers_share [where clk = w_clk and pl = sim_pool and ps = "sim_pool_service 5 10" and
        pcs = "\<lambda>_. CRemove ?s []" and frame = "same_queues sim_pool w_db" and db = w_db and w = sim_running,
        OF _ _ i p _ _ a b] sim.redis_server_axioms by auto
qed

end
