(* ===== verification/Requests.thy ===== *)
theory Requests
  imports Project_Service Pool_Concurrency
begin

text \<open>
  Requests for the sandbox of a project (\<open>scheduler/internal/project/service.go\<close>) one call
  at a time, so that several of them can be interleaved. Run without interruption the steps
  are \<open>GetProjectSandbox\<close>.
\<close>

section \<open>A request, one call at a time\<close>

text \<open>
  Where a request is: before the lookup of the mapping, before the check of the sandbox it
  found, before the pool, before scheduling, before storing the mapping, before pointing the
  service, waiting for the sandbox, and answered. \<open>RBlocked\<close>: still waiting after the given
  wake-ups.
\<close>

datatype req_pc =
    RGet
  | RGone sandbox_id
  | RTake
  | RSchedule
  | RPut sandbox_id
  | RPoint sandbox_id
  | RWait sandbox_id
  | RDone reply
  | RBlocked

fun req_step ::
  "'w project_service \<Rightarrow> 'w wake list \<Rightarrow> 'w wake list \<Rightarrow> ctx \<Rightarrow> project_id \<Rightarrow> bool \<Rightarrow>
     req_pc \<times> 'w \<Rightarrow> req_pc \<times> 'w" where
  "req_step s wks wks' c p waitForCreation (RGet, w) =
     (case st_GetProjectSandbox (pr_store s) c p w of
        (Inl _, w1) \<Rightarrow> (RTake, w1)
      | (Inr sb, w1) \<Rightarrow> (if sb = SandboxID '''' then RTake else RGone sb, w1))"
| "req_step s wks wks' c p waitForCreation (RGone sb, w) =
     (case IsSandboxGone (pr_scheduler s) c sb w of
        (Inl _, w1) \<Rightarrow> (RTake, w1)
      | (Inr gone, w1) \<Rightarrow>
          (if gone then RTake else RDone (Some (sandbox_response s p sb STATUS_ACTIVE), None), w1))"
| "req_step s wks wks' c p waitForCreation (RTake, w) =
     (case GetSandbox (pr_pool s) c (pid p) w of
        ((Inl e, _), w1) \<Rightarrow>
          (if \<not> errors_is e ErrPoolEmpty then RDone (None, Some e) else RSchedule, w1)
      | ((Inr sb, _), w1) \<Rightarrow> (if sb = SandboxID '''' then RSchedule else RPut sb, w1))"
| "req_step s wks wks' c p waitForCreation (RSchedule, w) =
     (case ScheduleSandbox (pr_scheduler s) wks c (pid p) w of
        (None, w1) \<Rightarrow> (RBlocked, w1)
      | (Some (Inl e), w1) \<Rightarrow>
          (RDone (Some error_response, Some (errorf_v ''failed to create sandbox: '' e)), w1)
      | (Some (Inr sb), w1) \<Rightarrow> (RPut sb, w1))"
| "req_step s wks wks' c p waitForCreation (RPut sb, w) =
     (let (e, w1) = st_SetProjectSandbox (pr_store s) c p sb w in (RPoint sb, w1))"
| "req_step s wks wks' c p waitForCreation (RPoint sb, w) =
     (let (e, w1) = k8_CreateOrUpdateProjectService (pr_k8s s) c p sb w
      in (if waitForCreation then RWait sb
          else RDone (Some (sandbox_response s p sb STATUS_CREATING), None), w1))"
| "req_step s wks wks' c p waitForCreation (RWait sb, w) =
     (case WaitForSandboxReady (pr_scheduler s) wks' c sb w of
        (None, w1) \<Rightarrow> (RBlocked, w1)
      | (Some (Inl e), w1) \<Rightarrow>
          (RDone (None, Some (errorf_v ''failed to wait for sandbox to be ready: '' e)), w1)
      | (Some (Inr ready), w1) \<Rightarrow>
          (RDone (if \<not> ready then (Some error_response, None)
                  else (Some (sandbox_response s p sb STATUS_ACTIVE), None)), w1))"
| "req_step s wks wks' c p waitForCreation (RDone r, w) = (RDone r, w)"
| "req_step s wks wks' c p waitForCreation (RBlocked, w) = (RBlocked, w)"

fun req_steps ::
  "'w project_service \<Rightarrow> 'w wake list \<Rightarrow> 'w wake list \<Rightarrow> ctx \<Rightarrow> project_id \<Rightarrow> bool \<Rightarrow> nat \<Rightarrow>
     req_pc \<times> 'w \<Rightarrow> req_pc \<times> 'w" where
  "req_steps s wks wks' c p wait 0 x = x"
| "req_steps s wks wks' c p wait (Suc n) x = req_steps s wks wks' c p wait n (req_step s wks wks' c p wait x)"

definition leads ::
  "'w project_service \<Rightarrow> 'w wake list \<Rightarrow> 'w wake list \<Rightarrow> ctx \<Rightarrow> project_id \<Rightarrow> bool \<Rightarrow> nat \<Rightarrow>
     req_pc \<times> 'w \<Rightarrow> req_pc \<times> 'w \<Rightarrow> bool" where
  "leads s wks wks' c p wait n x y \<longleftrightarrow> (\<exists>m \<le> n. req_steps s wks wks' c p wait m x = y)"

lemma leads_refl: "leads s wks wks' c p wait n x x"
  unfolding leads_def by (rule exI [of _ 0]) simp

lemma leads_step:
  "leads s wks wks' c p wait n (req_step s wks wks' c p wait x) y \<Longrightarrow> leads s wks wks' c p wait (Suc n) x y"
  unfolding leads_def by (metis Suc_le_mono req_steps.simps(2))

lemma leads_mono: "m \<le> n \<Longrightarrow> leads s wks wks' c p wait m x y \<Longrightarrow> leads s wks wks' c p wait n x y"
  unfolding leads_def by (elim exE conjE) (rule exI, rule conjI, erule order_trans, assumption+)

lemma req_steps_add:
  "req_steps s wks wks' c p wait (m + n) x = req_steps s wks wks' c p wait n (req_steps s wks wks' c p wait m x)"
  by (induction m arbitrary: x) simp_all

lemma leads_trans:
  "leads s wks wks' c p wait m x y \<Longrightarrow> leads s wks wks' c p wait n y z \<Longrightarrow> leads s wks wks' c p wait (m + n) x z"
  unfolding leads_def by (metis add_mono req_steps_add)

text \<open>How the two results of a call, or its waiting, end a request.\<close>

definition answered :: "reply option \<times> 'w \<Rightarrow> req_pc \<times> 'w" where
  "answered x = (case fst x of None \<Rightarrow> RBlocked | Some r \<Rightarrow> RDone r, snd x)"

text \<open>The last part of a request: a sandbox has been obtained.\<close>

definition assigned ::
  "'w project_service \<Rightarrow> 'w wake list \<Rightarrow> ctx \<Rightarrow> project_id \<Rightarrow> bool \<Rightarrow> sandbox_id \<Rightarrow> ('w, reply option) op" where
  "assigned s wks' c p wait sb w =
     (let w3 = assign_sandbox s c p sb w
      in if wait
         then case WaitForSandboxReady (pr_scheduler s) wks' c sb w3 of
           (None, w4) \<Rightarrow> (None, w4)
         | (Some (Inl e), w4) \<Rightarrow>
             (Some (None, Some (errorf_v ''failed to wait for sandbox to be ready: '' e)), w4)
         | (Some (Inr ready), w4) \<Rightarrow>
             (if \<not> ready then (Some (Some error_response, None), w4)
              else (Some (Some (sandbox_response s p sb STATUS_ACTIVE), None), w4))
         else (Some (Some (sandbox_response s p sb STATUS_CREATING), None), w3))"

lemma GetProjectSandbox_parts:
  "GetProjectSandbox s wks wks' c p wait w =
     (case live_sandbox s c p w of
        (Some sb, w1) \<Rightarrow> (Some (Some (sandbox_response s p sb STATUS_ACTIVE), None), w1)
      | (None, w1) \<Rightarrow>
          (case obtain_sandbox s wks c p w1 of
             (None, w2) \<Rightarrow> (None, w2)
           | (Some (Inl (e, True)), w2) \<Rightarrow> (Some (None, Some e), w2)
           | (Some (Inl (e, False)), w2) \<Rightarrow>
               (Some (Some error_response, Some (errorf_v ''failed to create sandbox: '' e)), w2)
           | (Some (Inr sb), w2) \<Rightarrow> assigned s wks' c p wait sb w2))"
  unfolding GetProjectSandbox_def assigned_def by (rule refl)

lemma leads_assigned:
  "leads s wks wks' c p wait 3 (RPut sb, w) (answered (assigned s wks' c p wait sb w))"
proof -
  obtain e w1 where 1: "st_SetProjectSandbox (pr_store s) c p sb w = (e, w1)" by fastforce
  obtain e' w2 where 2: "k8_CreateOrUpdateProjectService (pr_k8s s) c p sb w1 = (e', w2)" by fastforce
  obtain x w3 where 3: "WaitForSandboxReady (pr_scheduler s) wks' c sb w2 = (x, w3)" by fastforce
  have a: "assign_sandbox s c p sb w = w2" using 1 2 by (simp add: assign_sandbox_def)
  let ?st = "req_step s wks wks' c p wait"
  have put: "?st (RPut sb, w) = (RPoint sb, w1)" using 1 by simp
  have "leads s wks wks' c p wait 2 (RPoint sb, w1) (answered (assigned s wks' c p wait sb w))"
  proof (cases wait)
    case False
    then have "?st (RPoint sb, w1) = answered (assigned s wks' c p wait sb w)"
      using 2 a by (simp add: assigned_def answered_def)
    then show ?thesis unfolding numeral_2_eq_2
      using leads_step [of s wks wks' c p wait "Suc 0" "(RPoint sb, w1)"] by (simp add: leads_refl del: req_step.simps)
  next
    case True
    then have "?st (RPoint sb, w1) = (RWait sb, w2)" using 2 by simp
    moreover have "?st (RWait sb, w2) = answered (assigned s wks' c p wait sb w)"
      using 3 a True by (auto simp: assigned_def answered_def split: option.split sum.split)
    ultimately show ?thesis unfolding numeral_2_eq_2
      by (intro leads_step) (simp add: leads_refl del: req_step.simps)
  qed
  then show ?thesis using leads_step [of s wks wks' c p wait 2 "(RPut sb, w)"] put
    by (simp add: numeral_3_eq_3 numeral_2_eq_2)
qed

text \<open>Obtaining a sandbox: from the pool, or by scheduling.\<close>

definition obtained ::
  "'w project_service \<Rightarrow> 'w wake list \<Rightarrow> ctx \<Rightarrow> project_id \<Rightarrow> bool \<Rightarrow>
     ((err \<times> bool) + sandbox_id) option \<times> 'w \<Rightarrow> req_pc \<times> 'w" where
  "obtained s wks' c p wait x =
     (case x of
        (None, w2) \<Rightarrow> (RBlocked, w2)
      | (Some (Inl (e, True)), w2) \<Rightarrow> (RDone (None, Some e), w2)
      | (Some (Inl (e, False)), w2) \<Rightarrow>
          (RDone (Some error_response, Some (errorf_v ''failed to create sandbox: '' e)), w2)
      | (Some (Inr sb), w2) \<Rightarrow> answered (assigned s wks' c p wait sb w2))"

lemma leads_scheduled:
  "leads s wks wks' c p wait 4 (RSchedule, w1)
     (obtained s wks' c p wait (case ScheduleSandbox (pr_scheduler s) wks c (pid p) w1 of
        (None, w2) \<Rightarrow> (None, w2)
      | (Some (Inl e), w2) \<Rightarrow> (Some (Inl (e, False)), w2)
      | (Some (Inr sb), w2) \<Rightarrow> (Some (Inr sb), w2)))" (is "leads _ _ _ _ _ _ _ _ ?z")
proof -
  obtain y v where y: "ScheduleSandbox (pr_scheduler s) wks c (pid p) w1 = (y, v)" by fastforce
  have "leads s wks wks' c p wait 3 (req_step s wks wks' c p wait (RSchedule, w1)) ?z"
    using y leads_assigned [of s wks wks' c p wait _ v]
    by (auto simp: obtained_def leads_refl split: option.split sum.split)
  then show ?thesis using leads_step [of s wks wks' c p wait 3 "(RSchedule, w1)"] by simp
qed

lemma leads_obtain:
  "leads s wks wks' c p wait 5 (RTake, w) (obtained s wks' c p wait (obtain_sandbox s wks c p w))"
proof -
  let ?st = "req_step s wks wks' c p wait"
  obtain g b w1 where g: "GetSandbox (pr_pool s) c (pid p) w = ((g, b), w1)" by (metis prod.exhaust)
  have "leads s wks wks' c p wait 4 (?st (RTake, w)) (obtained s wks' c p wait (obtain_sandbox s wks c p w))"
  proof (cases "(\<exists>e. g = Inl e \<and> errors_is e ErrPoolEmpty) \<or> g = Inr (SandboxID '''')")
    case True
    then have "?st (RTake, w) = (RSchedule, w1)" using g by auto
    moreover have "obtain_sandbox s wks c p w = (case ScheduleSandbox (pr_scheduler s) wks c (pid p) w1 of
        (None, w2) \<Rightarrow> (None, w2)
      | (Some (Inl e), w2) \<Rightarrow> (Some (Inl (e, False)), w2)
      | (Some (Inr sb), w2) \<Rightarrow> (Some (Inr sb), w2))"
      using True g by (auto simp: obtain_sandbox_def)
    ultimately show ?thesis using leads_scheduled by simp
  next
    case False
    show ?thesis
    proof (cases g)
      case (Inl e)
      then show ?thesis using False g by (simp add: obtain_sandbox_def obtained_def leads_refl)
    next
      case (Inr sb)
      then show ?thesis using False g leads_mono [OF _ leads_assigned, of 4]
        by (simp add: obtain_sandbox_def obtained_def)
    qed
  qed
  then show ?thesis using leads_step [of s wks wks' c p wait 4 "(RTake, w)"] by simp
qed

text \<open>Looking for the sandbox the project has.\<close>

lemma leads_live:
  assumes "live_sandbox s c p w = (x, w1)"
  shows "leads s wks wks' c p wait 2 (RGet, w)
    (case x of Some sb \<Rightarrow> (RDone (Some (sandbox_response s p sb STATUS_ACTIVE), None), w1) | None \<Rightarrow> (RTake, w1))"
    (is "leads _ _ _ _ _ _ _ _ ?z")
proof -
  let ?st = "req_step s wks wks' c p wait"
  obtain y v where y: "st_GetProjectSandbox (pr_store s) c p w = (y, v)" by fastforce
  have "leads s wks wks' c p wait 1 (?st (RGet, w)) ?z"
  proof (cases "\<exists>sb. y = Inr sb \<and> sb \<noteq> SandboxID ''''")
    case True
    then obtain sb where sb: "y = Inr sb" "sb \<noteq> SandboxID ''''" by blast
    obtain b v' where b: "IsSandboxGone (pr_scheduler s) c sb v = (b, v')" by fastforce
    have "?st (RGet, w) = (RGone sb, v)" "?st (RGone sb, v) = ?z"
      using assms sb y b by (auto simp: live_sandbox_def split: sum.splits bool.splits)
    then show ?thesis using leads_step [of s wks wks' c p wait 0 "(RGone sb, v)"]
      by (simp add: leads_refl del: req_step.simps)
  next
    case False
    then have "?st (RGet, w) = ?z" using assms y by (auto simp: live_sandbox_def split: sum.splits)
    then show ?thesis by (simp add: leads_refl del: req_step.simps)
  qed
  then show ?thesis using leads_step [of s wks wks' c p wait 1 "(RGet, w)"] by (simp add: numeral_2_eq_2)
qed

text \<open>A request that is not interrupted.\<close>

lemma request_refines:
  "\<exists>n \<le> 7. req_steps s wks wks' c p wait n (RGet, w) = answered (GetProjectSandbox s wks wks' c p wait w)"
proof -
  obtain x w1 where l: "live_sandbox s c p w = (x, w1)" by fastforce
  have "leads s wks wks' c p wait 7 (RGet, w) (answered (GetProjectSandbox s wks wks' c p wait w))"
  proof (cases x)
    case (Some sb)
    then show ?thesis
      using leads_mono [OF _ leads_live [OF l], of 7] l by (simp add: GetProjectSandbox_parts answered_def)
  next
    case None
    have "obtained s wks' c p wait (obtain_sandbox s wks c p w1) = answered (GetProjectSandbox s wks wks' c p wait w)"
      using l None
      by (auto simp: GetProjectSandbox_parts obtained_def answered_def split: prod.split option.split sum.split bool.split)
    then show ?thesis
      using leads_trans [OF leads_live [OF l, unfolded None, simplified] leads_obtain [of s wks wks' c p wait w1]] by simp
  qed
  then show ?thesis by (simp add: leads_def)
qed

lemma req_steps_answered: "req_steps s wks wks' c p wait n (answered x) = answered x"
  by (induction n) (simp_all add: answered_def, cases "fst x", auto)

text \<open>
  A request call by call. Run without interruption, seven of the steps the interleavings
  are made of, or any larger number, are \<open>GetProjectSandbox\<close>: the same reply, the same world,
  and blocked exactly when the method waits.
\<close>

lemma request_steps_agree:
  "req_steps s wks wks' c p wait (7 + n) (RGet, w) = answered (GetProjectSandbox s wks wks' c p wait w)"
proof -
  obtain m where m: "m \<le> 7"
    "req_steps s wks wks' c p wait m (RGet, w) = answered (GetProjectSandbox s wks wks' c p wait w)"
    using request_refines [of s wks wks' c p wait w] by blast
  have "7 + n = m + (7 + n - m)" using m(1) by simp
  then show ?thesis using m(2) req_steps_answered by (metis req_steps_add)
qed

section \<open>Interleaved requests\<close>

text \<open>
  Request \<open>i\<close> has its own context, project and flag; the schedule says whose call is next.
\<close>

fun req_run ::
  "'w project_service \<Rightarrow> 'w wake list \<Rightarrow> 'w wake list \<Rightarrow> (nat \<Rightarrow> ctx) \<Rightarrow> (nat \<Rightarrow> project_id) \<Rightarrow>
     (nat \<Rightarrow> bool) \<Rightarrow> nat list \<Rightarrow> (nat \<Rightarrow> req_pc) \<times> 'w \<Rightarrow> (nat \<Rightarrow> req_pc) \<times> 'w" where
  "req_run s wks wks' cs prj waits [] x = x"
| "req_run s wks wks' cs prj waits (i # is) (pcs, w) =
     (let (pc, w1) = req_step s wks wks' (cs i) (prj i) (waits i) (pcs i, w)
      in req_run s wks wks' cs prj waits is (pcs(i := pc), w1))"

context project_deployment
begin

text \<open>What the pool hands out is a plain identifier, and not the next one it hands out.\<close>

lemma two_taken:
  assumes "pool_inv pl (db w)" and "plain_queue (ready_queue pl (db w))"
    and "GetReadySandbox pl c w = (Inr s, w1)" and "GetReadySandbox pl c' w1 = (Inr s', w2)"
  shows "s \<noteq> s' \<and> plain_sandbox s \<and> plain_sandbox s'"
proof -
  have plain: "plain_sandbox x" if "plain_queue Z" "sid x \<in> members Z" for Z x
    using that by (auto simp: plain_queue_def members_def dest!: bspec)
  note a = rp.pl.taken_member [OF assms(1,2), of c s w1]
  note b = rp.pl.taken_member [of w1 c' s' w2]
  show ?thesis using a b assms(2-4) plain by auto
qed

text \<open>Assigning two sandboxes to a project one after the other.\<close>

lemma assigned_twice:
  assumes "SetProjectSandbox rs c p s w = (None, w1)" and "CreateOrUpdateProjectService k c p s w1 = (e, w2)"
    and "SetProjectSandbox rs c' p s' w2 = (None, w3)" and "CreateOrUpdateProjectService k c' p s' w3 = (None, w4)"
    and "plain_project p" and "plain_sandbox s" and "plain_sandbox s'" and "s \<noteq> s'"
    and "t < clk w1 + hours 24"
  shows "svc_routed k svcs w4 p = Some s' \<and> mapped_sandbox rs t (db w4) p = Some s' \<and>
    mapped_project rs t (db w4) s = Some p \<and> clk w1 \<le> clk w4"
proof -
  have d: "db w2 = db w1" "clk w1 \<le> clk w2" "db w4 = db w3" "clk w3 \<le> clk w4"
    using CreateOrUpdate_frame [OF assms(2)] CreateOrUpdate_frame [OF assms(4)] by simp_all
  have "clk w2 \<le> clk w3" using assms(3) ps.set_frame [of c' p s' w2 w3] by simp
  note d = d this
  have t: "t < clk w1 + projectSandboxTTL" "t < clk w3 + projectSandboxTTL"
    using assms(9) d by (simp_all add: projectSandboxTTL_def)
  have "project_IsValid p" using assms(5) by (simp add: plain_project_def)
  then have "svc_routed k svcs w4 = (svc_routed k svcs w3)(p \<mapsto> s')"
    using be.upsert_ok [of c' p s' w3 w4] assms(4) by simp
  moreover have "mapped_sandbox rs t (db w3) = (mapped_sandbox rs t (db w2))(p \<mapsto> s') \<and>
      mapped_project rs t (db w3) = (mapped_project rs t (db w2))(s' \<mapsto> p)"
    using ps.set_maps [of c' p s' w2 w3 t] assms(3,5,7) t by simp
  moreover have "mapped_project rs t (db w1) s = Some p"
    using ps.set_maps [of c p s w w1 t] assms(1,5,6) t by simp
  ultimately show ?thesis using d assms(8) by simp
qed

lemma late_release_unmaps:
  assumes "\<And>t. t < b \<Longrightarrow> mapped_project rs t (db w) s = Some p"
    and "RemoveSandboxMapping rs c s w = (None, w')" and "clk w' < b"
  shows "mapped_sandbox rs t (db w') p = None"
proof -
  obtain t1 where t1: "t1 \<le> clk w'" and rm: "\<And>t. (case mapped_project rs t1 (db w) s of
       None \<Rightarrow> mapped_sandbox rs t (db w') = mapped_sandbox rs t (db w) \<and>
         mapped_project rs t (db w') = mapped_project rs t (db w)
     | Some p \<Rightarrow> mapped_sandbox rs t (db w') = (mapped_sandbox rs t (db w))(p := None) \<and>
         mapped_project rs t (db w') = (mapped_project rs t (db w))(s := None))"
    using ps.remove_maps [of c s w w'] assms(2) by auto
  have "mapped_project rs t1 (db w) s = Some p" using assms(1,3) t1 by simp
  then show ?thesis using rm [of t] by simp
qed

end

section \<open>Properties of requests\<close>

text \<open>
  C32 (two first requests of a project). Two requests of a project that has no sandbox, both
  past the lookup when the first of them takes from the pool, take different sandboxes; both
  answer, but the project is mapped and its service points to the sandbox of the second
  only. The sandbox of the first still counts as the project's: when it is released later -
  at the latest by the cleanup - the mapping of the project to its live sandbox is erased.
\<close>

theorem concurrent_first_requests:
  assumes "project_deployment R db clk k pods svcs r ord rs pl" and "pl_store ps = redis_PoolStore pl"
    and "svc = wired ttl r k rs ord ps" and "plain_project p"
    and "pool_inv pl (db w)" and "plain_queue (ready_queue pl (db w))"
    and "GetReadySandbox pl (cs 0) w = (Inr s, w1)" and "GetReadySandbox pl (cs 1) w1 = (Inr s', w2)"
    and "SetProjectSandbox rs (cs 0) p s w2 = (None, w3)"
    and "CreateOrUpdateProjectService k (cs 0) p s w3 = (e, w4)"
    and "SetProjectSandbox rs (cs 1) p s' w4 = (None, w5)"
    and "CreateOrUpdateProjectService k (cs 1) p s' w5 = (None, w6)"
    and "RemoveSandboxMapping rs c s w6 = (None, w7)" and "clk w7 < clk w3 + hours 24"
  shows "req_run svc wks wks' cs (\<lambda>_. p) (\<lambda>_. False) [0, 1, 0, 0, 1, 1] (\<lambda>_. RTake, w) =
      ((\<lambda>_. RTake)(0 := RDone (Some (sandbox_response svc p s STATUS_CREATING), None),
                   1 := RDone (Some (sandbox_response svc p s' STATUS_CREATING), None)), w6) \<and>
    s \<noteq> s' \<and> svc_routed k svcs w6 p = Some s' \<and>
    (\<forall>t < clk w3 + hours 24. mapped_sandbox rs t (db w6) p = Some s') \<and>
    (\<forall>t. mapped_sandbox rs t (db w7) p = None)"
proof -
  note P = assms(1)
  note two = project_deployment.two_taken [OF P assms(5-8)]
  then have ne: "s \<noteq> SandboxID ''''" "s' \<noteq> SandboxID ''''" by (auto simp: plain_sandbox_def sandbox_IsValid_def)
  have as: "svc_routed k svcs w6 p = Some s' \<and> mapped_sandbox rs t (db w6) p = Some s' \<and>
      mapped_project rs t (db w6) s = Some p" if "t < clk w3 + hours 24" for t
    using project_deployment.assigned_twice [OF P assms(9-12,4) _ _ _ that] two by blast
  have "svc_routed k svcs w6 p = Some s'" using as [of "clk w3"] by (simp add: durations)
  moreover have "mapped_sandbox rs t (db w7) p = None" for t
    using project_deployment.late_release_unmaps [OF P _ assms(13,14)] as by blast
  moreover have "req_run svc wks wks' cs (\<lambda>_. p) (\<lambda>_. False) [0, 1, 0, 0, 1, 1] (\<lambda>_. RTake, w) =
      ((\<lambda>_. RTake)(0 := RDone (Some (sandbox_response svc p s STATUS_CREATING), None),
                   1 := RDone (Some (sandbox_response svc p s' STATUS_CREATING), None)), w6)"
    using assms(2,3,7-12) ne by (simp add: GetSandbox_def redis_PoolStore_simps fun_upd_twist)
  ultimately show ?thesis using two as by blast
qed

text \<open>The calls of the witness.\<close>

definition named_service :: "world \<Rightarrow> project_id \<Rightarrow> bool" where
  "named_service w p \<longleftrightarrow> (case sim_svcs w DefaultNamespace (project_WithPrefix p) of
     None \<Rightarrow> True | Some x \<Rightarrow> svc_name x = project_WithPrefix p)"

lemma sim_upsert:
  assumes "w_kube_up w" and "named_service w p"
  shows "\<exists>w'. CreateOrUpdateProjectService sim_client background p s w = (None, w') \<and> w_up w' = w_up w \<and>
    w_kube_up w' \<and> w_clk w' = w_clk w + 2 * millis 1 \<and> named_service w' p"
proof (cases "sim_svcs w DefaultNamespace (project_WithPrefix p)")
  case None
  then show ?thesis using assms
    by (simp add: sim_new_service named_service_def sim_svcs_def project_service_object_def)
next
  case (Some x)
  then have "svc_name x = project_WithPrefix p" using assms(2) by (simp add: named_service_def)
  then show ?thesis using assms Some
    by (simp add: CreateOrUpdateProjectService_def sim_kube_def kube_call_def err_of_def Let_def named_service_def
        sim_svcs_def)
qed

lemma sim_remove:
  assumes "w_up w" and "mapped_project sim_store (w_clk w + millis 1) (w_db w) s = Some p"
  shows "\<exists>w'. RemoveSandboxMapping sim_store background s w = (None, w') \<and> w_clk w' = w_clk w + 2 * millis 1 \<and>
    w_kube_up w' = w_kube_up w"
proof -
  obtain v where v: "lookup (w_clk w + millis 1) (w_db w) (formSandboxProjectKey sim_store s) = Some (RStr v)"
    "NewProjectID v = Inr p"
    using assms(2) by (auto simp: mapped_project_def split: option.splits rval.splits sum.splits)
  then have f: "FindProjectForSandbox sim_store background s w = (Inr p, tick w)"
    using assms(1) by (simp add: FindProjectForSandbox_def sim_redis_def redis_call_def get_reply_def tick_def)
  show ?thesis using f assms(1)
    by (simp add: RemoveSandboxMapping_def removal_pipe_def sim_redis_def sim_Exec_def redis_call_def)
qed

lemma sim_two_ready:
  "\<exists>w :: world. w_up w \<and> w_kube_up w \<and> w_svcs w = [] \<and> pool_inv sim_pool (w_db w) \<and>
     ready_queue sim_pool (w_db w) = [(1000, ''a''), (1000, ''b'')]"
proof -
  let ?w1 = "snd (AddReadySandbox sim_pool background (SandboxID ''a'') init_world)"

  have q1: "pool_inv sim_pool (w_db ?w1)" "ready_queue sim_pool (w_db ?w1) = [(1000, ''a'')]" "w_up ?w1" "w_kube_up ?w1"
    "w_clk ?w1 = seconds 1000 + millis 1" "w_svcs ?w1 = []"
    by (simp_all add: pool_inv_def no_expiry_def zset_wf_def pool_eval sim_eval)
  obtain w2 where 2: "AddReadySandbox sim_pool background (SandboxID ''b'') ?w1 = (None, w2)" "same_cluster ?w1 w2"
    using sim_answers(2) [OF q1(3)] by blast
  have "unix_now sim_runtime ?w1 = 1000" using q1(5) by (simp add: unix_now_def sim_runtime_def durations)
  moreover have "zadd 1000 ''b'' [(1000, ''a'')] = [(1000, ''a''), (1000, ''b'')]"
    by (simp add: zadd_def zdel_def zless_def)
  ultimately have "ready_queue sim_pool (w_db w2) = [(1000, ''a''), (1000, ''b'')]" "pool_inv sim_pool (w_db w2)"
    using sim_pl.pl.add_ready [OF q1(1), of background "SandboxID ''b''" None w2] 2(1) q1(2) by simp_all
  moreover have "w_svcs w2 = []" using 2(1) q1(3,6)
    by (auto simp: AddReadySandbox_def sim_redis_def redis_call_def Let_def)
  ultimately show ?thesis using 2(2) q1 by (intro exI [of _ w2]) (simp add: same_cluster_def)
qed

lemma sim_keeps:
  assumes "w_up w"
  shows "\<exists>w'. SetProjectSandbox sim_store background p s w = (None, w') \<and> w_up w' \<and> w_kube_up w' = w_kube_up w \<and>
    w_svcs w' = w_svcs w"
  using sim_set [OF assms] assms by simp

theorem concurrent_first_requests_witness:
  "\<exists>w w6 pcs x y. req_run sim_service [] [] (\<lambda>_. background) (\<lambda>_. ProjectID ''v'') (\<lambda>_. False) [0, 1, 0, 0, 1, 1]
      (\<lambda>_. RTake, w) = (pcs, w6) \<and> pcs 0 = RDone (Some x, None) \<and> pcs 1 = RDone (Some y, None) \<and>
    rs_SandboxId x = ''a'' \<and> rs_SandboxId y = ''b'' \<and>
    (\<exists>w7. RemoveSandboxMapping sim_store background (SandboxID ''a'') w6 = (None, w7) \<and>
      mapped_sandbox sim_store 0 (w_db w7) (ProjectID ''v'') = None)"
proof -
  let ?p = "ProjectID ''v''" and ?a = "SandboxID ''a''" and ?b = "SandboxID ''b''"
  have p: "plain_project ?p" "plain_sandbox ?a" "plain_sandbox ?b" by (simp_all add: plain_ids_eval)
  have n: "NewSandboxID ''a'' = Inr ?a" "NewSandboxID ''b'' = Inr ?b"
    by (simp_all add: NewSandboxID_def trim_prefix_def SandboxPrefix_def)
  obtain w :: world where w: "w_up w" "w_kube_up w" "w_svcs w = []" and i: "pool_inv sim_pool (w_db w)"
    and q: "ready_queue sim_pool (w_db w) = [(1000, ''a''), (1000, ''b'')]" using sim_two_ready by blast
  have pq: "plain_queue (ready_queue sim_pool (w_db w))" using q p by (simp add: plain_queue_def)
  have z: "GetReadySandbox sim_pool background w = (Inr ?a, snd (GetReadySandbox sim_pool background w))"
    "w_svcs (snd (GetReadySandbox sim_pool background w)) = []"
    using sim_take [OF w(1), of "(1000, ''a'')" "[(1000, ''b'')]"] q pool_at(1) [OF i] n w(3) by simp_all
  define w1 where "w1 = snd (GetReadySandbox sim_pool background w)"
  note 1 = z [folded w1_def]
  have u1: "w_up w1" "w_kube_up w1" using sim_answers(4) [OF w(1) i q] 1 w by (auto simp: same_cluster_def)
  have r1: "pool_inv sim_pool (w_db w1)" "ready_queue sim_pool (w_db w1) = [(1000, ''b'')]"
    using sim_pl.pl.take_ready [OF i, of background ?a w1] 1(1) q by simp_all
  define w2 where "w2 = snd (GetReadySandbox sim_pool background w1)"
  have 2: "GetReadySandbox sim_pool background w1 = (Inr ?b, w2)" "w_svcs w2 = []"
    using sim_take [OF u1(1), of "(1000, ''b'')" "[]"] r1 pool_at(1) [OF r1(1)] n 1(2) by (simp_all add: w2_def)
  have u2: "w_up w2" "w_kube_up w2" using sim_answers(4) [OF u1(1) r1] 2(1) u1 by (auto simp: same_cluster_def)
  obtain w3 where 3: "SetProjectSandbox sim_store background ?p ?a w2 = (None, w3)" and u3: "w_up w3" "w_kube_up w3"
    "named_service w3 ?p"
    using sim_keeps [OF u2(1), of ?p ?a] u2 2(2) by (auto simp: named_service_def sim_svcs_def)
  obtain w4 where 4: "CreateOrUpdateProjectService sim_client background ?p ?a w3 = (None, w4)" and u4: "w_up w4"
    "w_kube_up w4" "named_service w4 ?p" "w_clk w4 = w_clk w3 + 2 * millis 1"
    using sim_upsert [OF u3(2,3), of ?a] u3 by blast
  obtain w5 where 5: "SetProjectSandbox sim_store background ?p ?b w4 = (None, w5)" and u5: "w_up w5" "w_kube_up w5"
    "named_service w5 ?p" "w_clk w5 = w_clk w4 + millis 1"
    using sim_set [OF u4(1), of ?p ?b] u4 by (auto simp: named_service_def sim_svcs_def)
  obtain w6 where 6: "CreateOrUpdateProjectService sim_client background ?p ?b w5 = (None, w6)" and u6: "w_up w6"
    "w_clk w6 = w_clk w5 + 2 * millis 1"
    using sim_upsert [OF u5(2,3), of ?b] u5 by blast
  have "mapped_project sim_store (w_clk w6 + millis 1) (w_db w6) ?a = Some ?p"
    using sim_pr.assigned_twice [OF 3 4 5 6 p, of "w_clk w6 + millis 1"] u4 u5 u6 by (simp add: durations)
  then obtain w7 where 7: "RemoveSandboxMapping sim_store background ?a w6 = (None, w7)" and
    "w_clk w7 = w_clk w6 + 2 * millis 1" using sim_remove [OF u6(1)] by blast
  then have t: "w_clk w7 < w_clk w3 + hours 24" using u4 u5 u6 by (simp add: durations)
  have pls: "pl_store (sim_pool_service 5 10) = redis_PoolStore sim_pool" by simp
  note C = concurrent_first_requests [OF sim_project_deployment pls sim_service_def p(1) i pq,
      where cs = "\<lambda>_. background", OF 1(1) 2(1) 3 4 5 6 7 t, of "[]" "[]"]
  have gone: "mapped_sandbox sim_store 0 (w_db w7) ?p = None" using C by blast
  show ?thesis
    by (intro exI conjI, rule conjunct1 [OF C], simp, simp, simp_all add: sandbox_response_def, rule 7, rule gone)
qed

end
