(* ===== verification/Failed_Pods.thy ===== *)
theory Failed_Pods
  imports Requests
begin

text \<open>
  From a pod that fails to the project it served, across four components: the pod watcher
  (\<open>k8sclient/client.go\<close>) and its queue, the event consumer (\<open>scheduler/service.go\<close>), the
  project store (\<open>persistence/redis.go\<close>) and the project service (\<open>project/service.go\<close>).
\<close>

lemma event_of_sandbox:
  "event_of q = Some ev \<Longrightarrow> pod_name q = sandbox_WithPrefix s \<Longrightarrow> sandbox_IsValid s \<Longrightarrow> ev_sandbox ev = s"
  by (auto simp: event_of_def NewSandboxID_WithPrefix split: if_splits)

context project_deployment
begin

text \<open>The consumer's handling of the event of a sandbox: both halves of its release.\<close>

lemma event_releases:
  assumes "ev_sandbox ev = s" and "RemoveSandboxMapping rs background s w = (None, w1)"
    and "k8s_ReleaseSandbox k background s w1 = (None, w2)"
  shows "StartEventProcessing (pr_scheduler (service ps)) False [EventReceived ev] w = (True, w2) \<and>
    db w2 = db w1 \<and> (\<forall>p. pod_of k pods w2 s = Some p \<longrightarrow> pod_deletion p \<noteq> None)"
proof -
  note r = release_both [OF scheduler_deployment_axioms store_client assms(2,3), of ttl ord]
  have "handlePodEvent (pr_scheduler (service ps)) ev w = w2"
    using r assms(1) by (simp add: handlePodEvent_def)
  moreover have "\<forall>p. pod_of k pods w2 s = Some p \<longrightarrow> pod_deletion p \<noteq> None"
    using r by (auto simp: pod_of_def)
  moreover have "db w2 = db w1" using ReleaseSandbox_frame [OF assms(3)] by simp
  ultimately show ?thesis by (simp add: StartEventProcessing_def)
qed

text \<open>A project without a mapping has no live sandbox.\<close>

lemma unmapped_not_live:
  assumes "\<And>t. mapped_sandbox rs t (db w) p = None"
  shows "fst (live_sandbox (service ps) c p w) = None"
proof (cases "live_sandbox (service ps) c p w")
  case (Pair x w')
  then show ?thesis using live_sandbox_Some [of ps c p w _ w'] assms by (cases x) auto
qed

end

text \<open>
  C4 (a failed pod is released). A project has been given a sandbox. When the watcher, whose
  queue has room, is shown the sandbox's pod in a state that cannot serve, the consumer
  receives its event after those that were queued before; when Redis and the API server
  answer it and the mapping has not expired, the pod is then gone or terminating, the sandbox
  counts as released for five minutes, the consumer goes on, and the project has no live
  sandbox any more: its next request obtains one.
\<close>

theorem failed_pod_released:
  assumes "project_deployment R db clk k pods svcs r ord rs pl"
    and "svc = wired ttl r k rs ord ps" and "plain_project p" and "plain_sandbox s"
    and "watch_steps new_watcher ls v" and "wt_pc v = WWaiting" and "\<not> wt_cancelled v"
    and "length (chan_buf (wt_chan v)) < 100"
    and "event_of q = Some ev" and "pod_name q = sandbox_WithPrefix s"
    and "SetProjectSandbox rs c p s w = (None, w1)" and "RemoveSandboxMapping rs background s w1 = (None, w2)"
    and "clk w2 < clk w1 + hours 24" and "k8s_ReleaseSandbox k background s w2 = (None, w3)"
  shows "(\<exists>v'. watch_steps new_watcher
        (ls @ [WTake (Some q), WProcess] @ map WReceive (chan_buf (wt_chan v) @ [ev])) v') \<and>
    StartEventProcessing (pr_scheduler svc) False [EventReceived ev] w1 = (True, w3) \<and>
    (\<forall>x. pod_of k pods w3 s = Some x \<longrightarrow> pod_deletion x \<noteq> None) \<and>
    (\<forall>c' b w4. IsSandboxReleased rs c' s w3 = (Inr b, w4) \<and> clk w4 < clk w2 + minutes 5 \<longrightarrow> b) \<and>
    fst (live_sandbox svc c'' p w3) = None"
proof -
  note P = assms(1)
  have S: "redis_server (client rs) db clk"
    using P by (simp add: project_deployment_def redis_backed_store_def)
  have ev: "ev_sandbox ev = s" using event_of_sandbox assms(4,9,10) by (auto simp: plain_sandbox_def)
  note e = project_deployment.event_releases [OF P ev assms(12,14), of ttl ps]
  note u = store_release_unmaps [OF S assms(11,3,4,12,13)]
  note C = redis_store_contract [OF S]
  have rel: "b" if "IsSandboxReleased rs c' s w3 = (Inr b, w4)" "clk w4 < clk w2 + minutes 5" for c' b w4
    using project_store.released_answer [OF C, of c' s w3 b w4] that e
      project_store.remove_marks [OF C, of background s w1 w2 "clk w4"] assms(12) by simp
  have "fst (live_sandbox svc c'' p w3) = None"
    using project_deployment.unmapped_not_live [OF P, of w3 p ttl ps c''] e u assms(2) by simp
  then show ?thesis
    using watch_delivers [OF assms(5-9)] e rel assms(2) by blast
qed

text \<open>The sandbox's pod after its container has failed.\<close>

definition sim_failed_pod :: pod where
  "sim_failed_pod = (sandbox_pod sim_client (SandboxID ''s''))\<lparr>pod_phase := PodFailed\<rparr>"

lemma sim_release: "w_kube_up w \<Longrightarrow> \<exists>w'. k8s_ReleaseSandbox sim_client background s w = (None, w')"
  by (simp add: k8s_ReleaseSandbox_def sim_kube_def kube_call_def err_of_def)

theorem failed_pod_released_witness:
  "\<exists>ev v' w w1 w3. event_of sim_failed_pod = Some ev \<and>
     SetProjectSandbox sim_store background (ProjectID ''a'') (SandboxID ''s'') w = (None, w1) \<and>
     watch_steps new_watcher [WTake (Some sim_failed_pod), WProcess, WReceive ev] v' \<and>
     StartEventProcessing (pr_scheduler sim_service) False [EventReceived ev] w1 = (True, w3) \<and>
     fst (live_sandbox sim_service background (ProjectID ''a'') w3) = None"
proof -
  let ?p = "ProjectID ''a''" and ?s = "SandboxID ''s''"
  have i: "plain_project ?p" "plain_sandbox ?s" by (simp_all add: plain_ids_eval)
  let ?w1 = "snd (SetProjectSandbox sim_store background ?p ?s init_world)"
  have up: "w_up init_world" "w_kube_up init_world" by (simp_all add: init_world_def)
  have 1: "SetProjectSandbox sim_store background ?p ?s init_world = (None, ?w1)" using up by (simp add: sim_set)
  have u1: "w_up ?w1" "w_kube_up ?w1" "w_clk ?w1 = w_clk init_world + millis 1" using up by (simp_all add: sim_set)
  have "mapped_project sim_store (w_clk ?w1 + millis 1) (w_db ?w1) ?s = Some ?p"
    using project_store.set_maps [OF redis_store_contract, of sim_store w_db w_clk background ?p ?s init_world ?w1]
      1 i sim.redis_server_axioms by (simp add: projectSandboxTTL_def durations)
  from sim_remove [OF u1(1) this] obtain w2 where
    2: "RemoveSandboxMapping sim_store background ?s ?w1 = (None, w2)" and c2: "w_clk w2 = w_clk ?w1 + 2 * millis 1"
    and u2: "w_kube_up w2" using u1(2) by blast
  have t: "w_clk w2 < w_clk ?w1 + hours 24" using c2 by (simp add: durations)
  obtain w3 where 3: "k8s_ReleaseSandbox sim_client background ?s w2 = (None, w3)" using sim_release u2 by blast
  obtain ev where ev: "event_of sim_failed_pod = Some ev"
    by (simp add: event_of_def sim_failed_pod_def sandbox_pod_def NewSandboxID_WithPrefix sandbox_IsValid_def)
  have n: "pod_name sim_failed_pod = sandbox_WithPrefix ?s" by (simp add: sim_failed_pod_def sandbox_pod_def)
  have v: "wt_pc new_watcher = WWaiting" "\<not> wt_cancelled new_watcher" "chan_buf (wt_chan new_watcher) = []"
    by (simp_all add: new_watcher_def new_event_chan_def)
  have l: "length (chan_buf (wt_chan new_watcher)) < 100" by (simp add: v)
  show ?thesis
    using failed_pod_released [OF sim_project_deployment sim_service_def i watch_steps.Nil v(1,2) l ev n 1 2 t 3,
        of background] ev 1 v(3) by auto
qed

end
