(* ===== verification/Spec2Isabelle.thy ===== *)
theory Spec2Isabelle
  imports Subscription Sandbox_Server Lifecycle Processes Stale_Records Failed_Pods
begin

text \<open>
  A model of the sandbox scheduler and of the activator in front of it, translated from
  the Go sources under \<open>src/\<close>, with the theorems that make it correct and those that
  show where it is not.

  \<^bold>\<open>The program.\<close> The scheduler hands out sandboxes (Kubernetes pods) to projects. A
  request enters through the RPC handler (\<open>transport/http/project_server.go\<close>), the
  project service (\<open>project/service.go\<close>) looks up the sandbox the project already has
  (project store, \<open>persistence/redis.go\<close>), otherwise takes one from the sandbox pool
  (\<open>sandboxpool/service.go\<close> over \<open>persistence/redis_pool_store.go\<close>) or has the scheduler
  service (\<open>scheduler/service.go\<close>) create one with the Kubernetes client
  (\<open>k8sclient/client.go\<close>), under an idempotence key
  (\<open>persistence/idempotence_impl.go\<close>). The pod watcher feeds events to the scheduler
  service, which releases sandboxes whose pods failed; the cleanup job
  (\<open>jobs/cleanup/cleanup.go\<close>) releases those older than their time to live. The xDS
  service (\<open>xds/server.go\<close>) publishes the routes of projects to Envoy. The activator
  (\<open>activator/internal/service/activator.go\<close>) asks the scheduler for the sandbox of a
  request's project and forwards the request with retries. Paths without a prefix are
  below \<open>src/scheduler/internal/\<close>.

  \<^bold>\<open>The world.\<close> Operations are functions \<open>'w \<Rightarrow> result \<times> 'w\<close> on an abstract world. Redis,
  the Kubernetes API server, the generated RPC client, \<open>net/http\<close>'s transport, the xDS
  cache, the clock and \<open>uuid.New\<close> are parameters: records of functions. What the source
  relies on is stated once as a locale: \<open>redis_server\<close> (\<open>Redis_API\<close>), \<open>kube_server\<close>
  (\<open>Kube_API\<close>), \<open>cluster\<close> (\<open>Cluster_Sim\<close>: the two are independent and share a clock).
  \<open>Cluster_Sim\<close> also holds an executable world on which every locale is interpreted and
  every witness is evaluated. Contexts carry a deadline and a cancellation instant. A
  goroutine that sleeps in a \<open>select\<close> is given a list of wake-ups: what the environment
  does while it sleeps, and which case it wakes to; the result \<open>None\<close> means that the list
  ended while the code still waits.

  \<^bold>\<open>Theories\<close>, in the order of imports.
  \<^item> \<open>Prelude\<close>: Go's errors, strings, 64-bit integers, time, contexts and buffered channels.
  \<^item> \<open>Redis_API\<close>, \<open>Kube_API\<close>, \<open>Cluster_Sim\<close>: the external interfaces, their contracts, the
    simulated world.
  \<^item> \<open>Ids\<close>: \<open>types/ids.go\<close>, \<open>types/pod_event.go\<close>. Identifiers round trip; generated ones are
    base-36 texts of clock plus a random byte and collide exactly when the sums agree.
  \<^item> \<open>Project_Store\<close>: \<open>persistence/redis.go\<close>. Contract \<open>project_store\<close>, kept by the Redis store
    (\<open>redis_backed_store\<close>); lookups after writes and releases, also when a pipeline fails
    half way; the update messages and their parser; two ways in which a release hits the
    wrong mapping.
  \<^item> \<open>Idempotence\<close>: the claims (\<open>idempotence.go\<close>) and the protocol over Redis. Contract
    \<open>idempotence\<close>; \<open>idem_step\<close> interleaves any number of callers and the exclusion theorem
    is by induction over its runs; exactly when a completed key answers with its sandbox; the
    race between the check and the claim of one \<open>ClaimOrWait\<close> (\<open>after_check\<close> puts what others
    do between the two calls).
  \<^item> \<open>K8s_Client\<close>: \<open>k8sclient/client.go\<close>, \<open>mock.go\<close>. Contract \<open>sandbox_backend\<close>; the objects
    that are written; readiness, and when waiting for it ends (\<open>ticker_wakes\<close> are wake-ups of
    the ticker) or never does; the watcher's event rule, its bounded queue and, as the
    step relation \<open>watch_step\<close> (executable: \<open>watch_next\<close>), its race with \<open>StopWatchers\<close>.
  \<^item> \<open>Pool_Store\<close>: the two queues. Contract \<open>pool_contract\<close>, first in first out, and no sandbox
    handed out twice.
  \<^item> \<open>Scheduler_Service\<close>: scheduling, release, paged cleanup, event consumer, and the
    cleanup job. \<open>scheduler_parts\<close> proves it over the contracts of the idempotence store
    and the backend; \<open>scheduler_deployment\<close> is the Redis and Kubernetes instance.
  \<^item> \<open>Sandbox_Pool\<close>: taking sandboxes and the maintenance of the pool
    (\<open>pool_maintenance\<close> over the contract, \<open>pool_deployment\<close> for the instance): its limits, on
    the queues and on the pods that are new (\<open>pods_added\<close>), when it fills the pool, and how
    a pool starves under any number of rounds of the maintenance job.
  \<^item> \<open>Pool_Concurrency\<close>: the check of the pending sandboxes one call at a time (it refines
    the loop of \<open>Sandbox_Pool\<close>), interleaved with requests and creations: with one maintainer
    no sandbox is handed out twice, with two it may be.
  \<^item> \<open>Project_Service\<close>: \<open>GetProjectSandbox\<close> and the RPC handler over all of the above
    (\<open>project_deployment\<close>): what every answer is, and every way to obtain no sandbox.
  \<^item> \<open>Requests\<close>: \<open>GetProjectSandbox\<close> one call at a time (\<open>req_step\<close>; seven uninterrupted steps
    are \<open>GetProjectSandbox\<close>, lemma \<open>request_steps_agree\<close>) and two interleaved requests of one project.
  \<^item> \<open>Failed_Pods\<close>: from a pod that fails, through the watcher, its queue, the event consumer
    and the store, to the project that loses its sandbox.
  \<^item> \<open>System_Steps\<close>: every operation of the components on the shared Redis as one step
    relation; the kinds of the stored values are an invariant of its runs. A project keeps its
    sandbox through everything that may happen between its requests (\<open>other_step\<close>): the later
    request finds it and calls it active, which means that its pod exists, not that it is ready.
  \<^item> \<open>Stale_Records\<close>: the only step that replaces an idempotence record is a new recording, so
    that a project is given a sandbox that is gone again, or, when it waits, an error.
  \<^item> \<open>Xds\<close>: route table, mutex, snapshot; what Envoy does with the published routes; the
    self-deadlock of the first update.
  \<^item> \<open>Subscription\<close>: \<open>SubscribeToProjectSandboxUpdates\<close> and the goroutine it starts as two
    interleaved threads over a pub/sub client (\<open>pubsub_client\<close>), with the xDS service as the
    receiver: the subscription ends before it delivers, and at most one update is begun.
  \<^item> \<open>Activator\<close>: scheduler client, retries with backoff, request handler, end to end with
    the RPC handler: the first attempt has the request's method, headers and body, a second one
    only what the first left of the body, and the response may be cut short by its copy. The
    URL is made from the decoded path and parsed again.
  \<^item> \<open>Sandbox_Server\<close>: \<open>mock-sandbox/\<close>, the process in a sandbox: its routes and handlers
    (the router is the locale \<open>mux_router\<close>), its life as a step relation, the probes.
  \<^item> \<open>Config\<close>: both configurations with the tags of their fields (\<open>envconfig_reader\<close>).
  \<^item> \<open>Startup\<close>: the constructors of the clients, stores and services; \<open>build_system\<close> composes
    them from a configuration and the host, and the result is the deployment that the
    theorems are about, in the namespace of the host's service account or else the configured
    one.
  \<^item> \<open>Wiring\<close>: the three programs as lists of what their modules provide and invoke, with the
    parameters of every constructor; the container \<open>fx\<close> that runs such a list (\<open>fx_order\<close>).
    Each container can be built, and a start of the scheduler runs all but one constructor.
  \<^item> \<open>Lifecycle\<close>: the order of the hooks that follows from the modules of the scheduler
    (\<open>fx_lifecycle\<close>), and what the hooks of start and stop do to the goroutines.
  \<^item> \<open>Processes\<close>: the loggers, the servers of the scheduler, and the activator as a process
    (\<open>activator/internal/transport/http.go\<close>): how it is built, its serving goroutine, the
    connections and requests in progress, its stop and its exit, as a step relation.

  \<^bold>\<open>Bounds and fuel.\<close> No operation is given an arbitrary bound. Claim waits and readiness
  waits run over wake-ups, and it is proved how many are enough (50 ticks of 200 ms for a
  claim; the third one after the context's deadline for readiness, which without a deadline
  need not end). The cleanup loop takes fuel;
  a rank of the server's continuation tokens bounds what it needs and \<open>cleanup_old_only\<close>
  shows that it returns. The retry loop recurses on the attempts left. Base-36 conversion
  terminates by its argument. Chains of parameters in the containers are followed to depth
  5, the longest of them.

  \<^bold>\<open>Not modelled.\<close> What is logged, and the printing of the configuration; the wire formats
  and timeouts of the HTTP and gRPC servers; generated protobuf
  code. The insides of \<open>fx\<close>, \<open>envconfig\<close>, the router, \<open>go-redis\<close>, \<open>client-go\<close> and
  \<open>go-control-plane\<close> are parameters with contracts, as far as the source relies on them.
\<close>

end
